(* ===== verification/Slash_Prelude.thy ===== *)
theory Slash_Prelude
  imports Main "HOL-Library.Word" "HOL-Library.Monad_Syntax"
begin

unbundle bit_operations_syntax

text \<open>
  The prelude of the SLASH development. It holds what every component theory shares:
  \<^item> the machine integer types of the C and C++ sources (\<open>u8\<close> to \<open>u64\<close>) and the half-word
    and byte selectors that read packed structure fields;
  \<^item> \<open>ok\<close>, a total-correctness predicate for the option monad in which the firmware is
    modelled (\<open>None\<close> is an out-of-bounds access or a call that does not return), with the
    rules that let the simplifier walk through a handler;
  \<^item> arithmetic of power-of-two ring cursors on words, used by the firmware and by the host.
\<close>

section \<open>Machine integers\<close>

type_synonym u8 = "8 word"
type_synonym u16 = "16 word"
type_synonym u32 = "32 word"
type_synonym u64 = "64 word"

text \<open>Little-endian selectors of a 32-bit word: the fields of a packed C structure.\<close>

definition lo16 :: "u32 \<Rightarrow> u16" where
  "lo16 w = ucast w"

definition hi16 :: "u32 \<Rightarrow> u16" where
  "hi16 w = ucast (drop_bit 16 w)"

definition byte0 :: "u32 \<Rightarrow> u8" where
  "byte0 w = ucast w"

definition byte2 :: "u32 \<Rightarrow> u8" where
  "byte2 w = ucast (drop_bit 16 w)"

definition byte3 :: "u32 \<Rightarrow> u8" where
  "byte3 w = ucast (drop_bit 24 w)"

section \<open>Collections of simplification facts\<close>

named_theorems fw_defs "definitions unfolded when a firmware primitive is evaluated"
named_theorems fw_ok "total-correctness rules of firmware operations"

section \<open>Total correctness in the option monad\<close>

text \<open>
  \<open>ok m P\<close>: the computation \<open>m\<close> returns, and its result satisfies \<open>P\<close>.
\<close>

definition ok :: "'a option \<Rightarrow> ('a \<Rightarrow> bool) \<Rightarrow> bool" where
  "ok m P \<longleftrightarrow> (case m of None \<Rightarrow> False | Some x \<Rightarrow> P x)"

lemma ok_Some [simp]: "ok (Some x) P \<longleftrightarrow> P x"
  by (simp add: ok_def)

lemma ok_None [simp]: "\<not> ok None P"
  by (simp add: ok_def)

lemma ok_bind [simp]: "ok (Option.bind m f) P \<longleftrightarrow> ok m (\<lambda>x. ok (f x) P)"
  by (cases m) (auto simp: ok_def)

lemma ok_if [simp]: "ok (if b then m else m') P \<longleftrightarrow> (if b then ok m P else ok m' P)"
  by simp

lemma ok_mono: "ok m P \<Longrightarrow> (\<And>x. P x \<Longrightarrow> Q x) \<Longrightarrow> ok m Q"
  by (cases m) auto

lemma ok_conj: "ok m P \<Longrightarrow> ok m Q \<Longrightarrow> ok m (\<lambda>x. P x \<and> Q x)"
  by (cases m) auto

lemma ok_exists: "ok m P \<Longrightarrow> \<exists>x. m = Some x \<and> P x"
  by (cases m) auto

lemma ok_result: "ok m P \<Longrightarrow> m = Some x \<Longrightarrow> P x"
  by simp

lemma ok_pair: "ok m (\<lambda>(r, s). P r s) \<Longrightarrow> (\<And>r s. P r s \<Longrightarrow> Q (r, s)) \<Longrightarrow> ok m Q"
  by (cases m) auto

section \<open>Words: powers of two and ring cursors\<close>

lemma pow2_nat_and:
  fixes v :: nat
  assumes "v \<noteq> 0" and "v AND (v - 1) = 0"
  shows "\<exists>k. v = 2 ^ k"
  using assms
proof (induction v rule: less_induct)
  case (less v)
  show ?case
  proof (cases "even v")
    case True
    then obtain w where w: "v = 2 * w" by auto
    with less.prems have "w > 0" by auto
    then have "2 * w - Suc 0 = 2 * (w - 1) + 1" by auto
    then have "2 * (w AND (w - 1)) = 0" using less.prems w
      by (simp add: and_nat_rec [of "2 * w"])
    then obtain k where "w = 2 ^ k" using less.IH [of w] w \<open>w > 0\<close> by auto
    then have "v = 2 ^ Suc k" using w by simp
    then show ?thesis by blast
  next
    case False
    then obtain w where w: "v = 2 * w + 1" by (auto elim: oddE)
    then have "v AND (v - 1) = 2 * w" by (simp add: and_nat_rec [of "Suc (2*w)"])
    with less.prems w have "v = 2 ^ 0" by simp
    then show ?thesis by blast
  qed
qed

lemma unat_pow2:
  assumes "k < LENGTH('a)"
  shows "unat (2 ^ k :: 'a::len word) = 2 ^ k"
proof -
  have "unat (of_nat (2 ^ k) :: 'a word) = 2 ^ k mod 2 ^ LENGTH('a)"
    by (simp only: unat_of_nat)
  then show ?thesis using assms by simp
qed

lemma unat_ucast_less:
  fixes w :: "'a::len word"
  assumes "unat w < 2 ^ LENGTH('b::len)"
  shows "unat (ucast w :: 'b word) = unat w"
  using assms by (simp add: unsigned_ucast_eq take_bit_eq_mod)

lemma unat_ucast_up [simp]:
  fixes w :: "'a::len word"
  assumes "LENGTH('a) \<le> LENGTH('b::len)"
  shows "unat (ucast w :: 'b word) = unat w"
proof (rule unat_ucast_less)
  have "unat w < 2 ^ LENGTH('a)" by (rule unsigned_less)
  also have "\<dots> \<le> 2 ^ LENGTH('b)" using assms by simp
  finally show "unat w < 2 ^ LENGTH('b)" .
qed

lemma pow2_word_and:
  fixes v :: "'a::len word"
  assumes "v \<noteq> 0" and "v AND (v - 1) = 0"
  shows "\<exists>k < LENGTH('a). v = 2 ^ k"
proof -
  have "unat v AND (unat v - 1) = unat (v AND (v - 1))"
    using assms(1) by (simp add: unsigned_and_eq unat_minus_one)
  then have "unat v AND (unat v - 1) = 0" using assms(2) by simp
  then obtain k where k: "unat v = 2 ^ k"
    using pow2_nat_and [of "unat v"] assms(1) by (auto simp: unat_eq_0)
  have "(2::nat) ^ k < 2 ^ LENGTH('a)"
    using k by (metis unsigned_less)
  then have "k < LENGTH('a)" by simp
  moreover have "v = 2 ^ k"
    using k \<open>k < LENGTH('a)\<close> by (simp add: word_unat_eq_iff unat_pow2)
  ultimately show ?thesis by blast
qed

lemma unat_and_pred_pow2:
  fixes v :: "'a::len word"
  shows "unat (v AND (2 ^ k - 1)) = unat v mod 2 ^ k"
proof -
  have "v AND (2 ^ k - 1) = take_bit k v"
    by (simp add: take_bit_eq_mask mask_eq_exp_minus_1)
  then have "unat (v AND (2 ^ k - 1)) = take_bit k (unat v)"
    by (simp only: unsigned_take_bit_eq)
  then show ?thesis
    by (simp only: take_bit_eq_mod)
qed

end
