(* ===== verification/Rp1_Protocol.thy ===== *)
theory Rp1_Protocol
  imports Slash_Prelude
begin

text \<open>
  The wire protocol between the host and the RP1 command processor, from
  \<^verbatim>\<open>driver/libslash/include/slash/uapi/rp1_protocol.h\<close>: opcodes, flags, status and error
  codes, capacities, and the structures that live in the shared DDR window (control block,
  node packets, completion and trace entries, signal slots) or in the firmware's own tables
  (in-flight kernels).

  A node packet's 48-byte payload is an untagged C union. It is modelled by its twelve
  little-endian 32-bit words, and each union member by accessors that select the words,
  half-words and bytes its fields occupy; reading a member the host did not write therefore
  reinterprets the same words, as in C.

  The shared DDR window is a typed store: one total function per structure type, from byte
  addresses of the RP1's physical address space to values. Host and firmware models read and
  write the same store.
\<close>

section \<open>Constants\<close>

text \<open>Memory layout of the host-visible window.\<close>

abbreviation (input) RP1_CTRL_PHYS_ADDR :: u32 where "RP1_CTRL_PHYS_ADDR \<equiv> 0x30000000"
abbreviation (input) RP1_CTRL_WINDOW_SIZE :: u32 where "RP1_CTRL_WINDOW_SIZE \<equiv> 0x04000000"
abbreviation (input) RP1_DEFAULT_NODE_ARRAY_OFFSET :: u32 where "RP1_DEFAULT_NODE_ARRAY_OFFSET \<equiv> 0x00001000"
abbreviation (input) RP1_DEFAULT_CQ_OFFSET :: u32 where "RP1_DEFAULT_CQ_OFFSET \<equiv> 0x00041000"
abbreviation (input) RP1_DEFAULT_ARG_BUF_OFFSET :: u32 where "RP1_DEFAULT_ARG_BUF_OFFSET \<equiv> 0x00051000"
abbreviation (input) RP1_DEFAULT_SIG_ARRAY_OFFSET :: u32 where "RP1_DEFAULT_SIG_ARRAY_OFFSET \<equiv> 0x00151000"
abbreviation (input) RP1_DEFAULT_TRACE_OFFSET :: u32 where "RP1_DEFAULT_TRACE_OFFSET \<equiv> 0x00152000"

text \<open>Opcodes (\<open>rp1_opcode_t\<close>).\<close>

abbreviation (input) RP1_OP_NOP :: u16 where "RP1_OP_NOP \<equiv> 0x0000"
abbreviation (input) RP1_OP_WAIT :: u16 where "RP1_OP_WAIT \<equiv> 0x0001"
abbreviation (input) RP1_OP_SIGNAL :: u16 where "RP1_OP_SIGNAL \<equiv> 0x0002"
abbreviation (input) RP1_OP_KERNEL_DISPATCH :: u16 where "RP1_OP_KERNEL_DISPATCH \<equiv> 0x0010"
abbreviation (input) RP1_OP_SCALAR_WRITE :: u16 where "RP1_OP_SCALAR_WRITE \<equiv> 0x0011"
abbreviation (input) RP1_OP_SCALAR_READ :: u16 where "RP1_OP_SCALAR_READ \<equiv> 0x0012"
abbreviation (input) RP1_OP_SCALAR_COPY :: u16 where "RP1_OP_SCALAR_COPY \<equiv> 0x0013"
abbreviation (input) RP1_OP_DMA_COPY :: u16 where "RP1_OP_DMA_COPY \<equiv> 0x0020"
abbreviation (input) RP1_OP_DMA_FILL :: u16 where "RP1_OP_DMA_FILL \<equiv> 0x0021"
abbreviation (input) RP1_OP_PDI_LOAD :: u16 where "RP1_OP_PDI_LOAD \<equiv> 0x0030"
abbreviation (input) RP1_OP_LOOP :: u16 where "RP1_OP_LOOP \<equiv> 0x0040"
abbreviation (input) RP1_OP_COND :: u16 where "RP1_OP_COND \<equiv> 0x0041"
abbreviation (input) RP1_OP_RERUN :: u16 where "RP1_OP_RERUN \<equiv> 0x0042"
abbreviation (input) RP1_OP_HALT :: u16 where "RP1_OP_HALT \<equiv> 0x00FF"

text \<open>Node flags.\<close>

abbreviation (input) RP1_FLAG_HALT_ON_ERROR :: u16 where "RP1_FLAG_HALT_ON_ERROR \<equiv> 1"
abbreviation (input) RP1_FLAG_SILENT :: u16 where "RP1_FLAG_SILENT \<equiv> 2"
abbreviation (input) RP1_FLAG_INFINITE :: u16 where "RP1_FLAG_INFINITE \<equiv> 4"

text \<open>Node status (\<open>rp1_node_status_t\<close>).\<close>

abbreviation (input) RP1_NODE_PENDING :: u16 where "RP1_NODE_PENDING \<equiv> 0x0000"
abbreviation (input) RP1_NODE_DISPATCHED :: u16 where "RP1_NODE_DISPATCHED \<equiv> 0x0001"
abbreviation (input) RP1_NODE_DONE :: u16 where "RP1_NODE_DONE \<equiv> 0x0002"
abbreviation (input) RP1_NODE_WAITING :: u16 where "RP1_NODE_WAITING \<equiv> 0x0003"
abbreviation (input) RP1_NODE_ERROR :: u16 where "RP1_NODE_ERROR \<equiv> 0x00FF"

text \<open>Error codes.\<close>

abbreviation (input) RP1_ERR_INFLIGHT_FULL :: u32 where "RP1_ERR_INFLIGHT_FULL \<equiv> 1"
abbreviation (input) RP1_ERR_KERNEL_TIMEOUT :: u32 where "RP1_ERR_KERNEL_TIMEOUT \<equiv> 2"
abbreviation (input) RP1_ERR_PDI_TIMEOUT :: u32 where "RP1_ERR_PDI_TIMEOUT \<equiv> 3"
abbreviation (input) RP1_ERR_IMAGE_MISMATCH :: u32 where "RP1_ERR_IMAGE_MISMATCH \<equiv> 4"
abbreviation (input) RP1_ERR_PDI_FAILED :: u32 where "RP1_ERR_PDI_FAILED \<equiv> 5"
abbreviation (input) RP1_ERR_INVALID_CONFIG :: u32 where "RP1_ERR_INVALID_CONFIG \<equiv> 6"
abbreviation (input) RP1_ERR_INVALID_NODE :: u32 where "RP1_ERR_INVALID_NODE \<equiv> 7"
abbreviation (input) RP1_ERR_CQ_CORRUPT :: u32 where "RP1_ERR_CQ_CORRUPT \<equiv> 8"
abbreviation (input) RP1_ERR_RECOVERY_REQUIRED :: u32 where "RP1_ERR_RECOVERY_REQUIRED \<equiv> 0x80000000"
abbreviation (input) RP1_ERR_CODE_MASK :: u32 where "RP1_ERR_CODE_MASK \<equiv> 0x7FFFFFFF"
abbreviation (input) RP1_CONFIG_NODE_COUNT :: u32 where "RP1_CONFIG_NODE_COUNT \<equiv> 1"
abbreviation (input) RP1_CONFIG_NODE_BASE :: u32 where "RP1_CONFIG_NODE_BASE \<equiv> 2"
abbreviation (input) RP1_CONFIG_CQ_SIZE :: u32 where "RP1_CONFIG_CQ_SIZE \<equiv> 3"
abbreviation (input) RP1_CONFIG_CQ_BASE :: u32 where "RP1_CONFIG_CQ_BASE \<equiv> 4"
abbreviation (input) RP1_CONFIG_CQ_CURSORS :: u32 where "RP1_CONFIG_CQ_CURSORS \<equiv> 5"
abbreviation (input) RP1_CONFIG_ARG_BASE :: u32 where "RP1_CONFIG_ARG_BASE \<equiv> 6"
abbreviation (input) RP1_CONFIG_SIGNAL_BASE :: u32 where "RP1_CONFIG_SIGNAL_BASE \<equiv> 7"
abbreviation (input) RP1_CONFIG_TRACE :: u32 where "RP1_CONFIG_TRACE \<equiv> 8"
abbreviation (input) RP1_NODE_BAD_BARRIER :: u32 where "RP1_NODE_BAD_BARRIER \<equiv> 1"
abbreviation (input) RP1_NODE_BAD_SIGNAL_SLOT :: u32 where "RP1_NODE_BAD_SIGNAL_SLOT \<equiv> 2"
abbreviation (input) RP1_NODE_BAD_LOOP_CONFIG :: u32 where "RP1_NODE_BAD_LOOP_CONFIG \<equiv> 3"
abbreviation (input) RP1_NODE_BAD_TARGET :: u32 where "RP1_NODE_BAD_TARGET \<equiv> 4"
abbreviation (input) RP1_NODE_BAD_OPERATION :: u32 where "RP1_NODE_BAD_OPERATION \<equiv> 5"
abbreviation (input) RP1_NODE_BAD_ARGUMENTS :: u32 where "RP1_NODE_BAD_ARGUMENTS \<equiv> 6"
abbreviation (input) RP1_NODE_PDI_WITHOUT_CQ :: u32 where "RP1_NODE_PDI_WITHOUT_CQ \<equiv> 7"

text \<open>Condition operators (\<open>rp1_condop_t\<close>).\<close>

abbreviation (input) RP1_COP_EQ :: u16 where "RP1_COP_EQ \<equiv> 0"
abbreviation (input) RP1_COP_NE :: u16 where "RP1_COP_NE \<equiv> 1"
abbreviation (input) RP1_COP_LT :: u16 where "RP1_COP_LT \<equiv> 2"
abbreviation (input) RP1_COP_GE :: u16 where "RP1_COP_GE \<equiv> 3"
abbreviation (input) RP1_COP_AND_NZ :: u16 where "RP1_COP_AND_NZ \<equiv> 4"
abbreviation (input) RP1_COP_AND_Z :: u16 where "RP1_COP_AND_Z \<equiv> 5"

text \<open>Signal operations and rerun flags.\<close>

abbreviation (input) RP1_SIGOP_SET :: u16 where "RP1_SIGOP_SET \<equiv> 0"
abbreviation (input) RP1_SIGOP_ADD :: u16 where "RP1_SIGOP_ADD \<equiv> 1"
abbreviation (input) RP1_SIGOP_OR :: u16 where "RP1_SIGOP_OR \<equiv> 2"
abbreviation (input) RP1_SIGOP_AND :: u16 where "RP1_SIGOP_AND \<equiv> 3"
abbreviation (input) RP1_RERUN_CLEAR_STATE :: u16 where "RP1_RERUN_CLEAR_STATE \<equiv> 1"

text \<open>Firmware state (\<open>rp1_state_t\<close>).\<close>

abbreviation (input) RP1_STATE_INIT :: u32 where "RP1_STATE_INIT \<equiv> 0"
abbreviation (input) RP1_STATE_READY :: u32 where "RP1_STATE_READY \<equiv> 1"
abbreviation (input) RP1_STATE_RUNNING :: u32 where "RP1_STATE_RUNNING \<equiv> 2"
abbreviation (input) RP1_STATE_ERROR :: u32 where "RP1_STATE_ERROR \<equiv> 3"
abbreviation (input) RP1_STATE_HALTED :: u32 where "RP1_STATE_HALTED \<equiv> 4"

text \<open>Trace events.\<close>

abbreviation (input) RP1_TRACE_GRAPH_START :: u16 where "RP1_TRACE_GRAPH_START \<equiv> 0"
abbreviation (input) RP1_TRACE_NODE_ACTIVATE :: u16 where "RP1_TRACE_NODE_ACTIVATE \<equiv> 1"
abbreviation (input) RP1_TRACE_KERNEL_LAUNCH :: u16 where "RP1_TRACE_KERNEL_LAUNCH \<equiv> 2"
abbreviation (input) RP1_TRACE_KERNEL_DONE :: u16 where "RP1_TRACE_KERNEL_DONE \<equiv> 3"
abbreviation (input) RP1_TRACE_KERNEL_TIMEOUT :: u16 where "RP1_TRACE_KERNEL_TIMEOUT \<equiv> 4"
abbreviation (input) RP1_TRACE_LOOP_ITER :: u16 where "RP1_TRACE_LOOP_ITER \<equiv> 5"
abbreviation (input) RP1_TRACE_COND_EVAL :: u16 where "RP1_TRACE_COND_EVAL \<equiv> 6"
abbreviation (input) RP1_TRACE_WAIT_PARK :: u16 where "RP1_TRACE_WAIT_PARK \<equiv> 7"
abbreviation (input) RP1_TRACE_WAIT_WAKE :: u16 where "RP1_TRACE_WAIT_WAKE \<equiv> 8"
abbreviation (input) RP1_TRACE_PDI_LOAD :: u16 where "RP1_TRACE_PDI_LOAD \<equiv> 9"
abbreviation (input) RP1_TRACE_IMAGE_MISMATCH :: u16 where "RP1_TRACE_IMAGE_MISMATCH \<equiv> 10"
abbreviation (input) RP1_TRACE_GRAPH_DONE :: u16 where "RP1_TRACE_GRAPH_DONE \<equiv> 11"

text \<open>Completion status (\<open>rp1_cq_status_t\<close>).\<close>

abbreviation (input) RP1_CQ_OK :: u32 where "RP1_CQ_OK \<equiv> 0"
abbreviation (input) RP1_CQ_ERROR :: u32 where "RP1_CQ_ERROR \<equiv> 1"
abbreviation (input) RP1_CQ_TIMEOUT :: u32 where "RP1_CQ_TIMEOUT \<equiv> 2"

text \<open>Contract publication.\<close>

abbreviation (input) RP1_CTRL_MAGIC :: u32 where "RP1_CTRL_MAGIC \<equiv> 0x53515231"
abbreviation (input) RP1_REQUIRED_CAPABILITIES :: u32 where "RP1_REQUIRED_CAPABILITIES \<equiv> 0x1F"
abbreviation (input) RP1_PDI_IPI_PLATFORM_UNKNOWN :: u32 where "RP1_PDI_IPI_PLATFORM_UNKNOWN \<equiv> 0"
abbreviation (input) RP1_TERMINAL_ERROR_NODE_NONE :: u32 where "RP1_TERMINAL_ERROR_NODE_NONE \<equiv> 0xFFFFFFFF"
abbreviation (input) RP1_PROTOCOL_VERSION :: u32 where "RP1_PROTOCOL_VERSION \<equiv> 4"

text \<open>Capacities.\<close>

abbreviation (input) RP1_MAX_NODES :: u32 where "RP1_MAX_NODES \<equiv> 4096"
abbreviation (input) RP1_MAX_CQ_ENTRIES :: u32 where "RP1_MAX_CQ_ENTRIES \<equiv> 4096"
abbreviation (input) RP1_MAX_TRACE_ENTRIES :: u32 where "RP1_MAX_TRACE_ENTRIES \<equiv> 4096"
abbreviation (input) RP1_MAX_LOOPS :: u32 where "RP1_MAX_LOOPS \<equiv> 64"
abbreviation (input) RP1_MAX_INFLIGHT :: u32 where "RP1_MAX_INFLIGHT \<equiv> 32"
abbreviation (input) RP1_MAX_SIGNALS :: u32 where "RP1_MAX_SIGNALS \<equiv> 256"
abbreviation (input) RP1_MAX_BUCKETS :: u32 where "RP1_MAX_BUCKETS \<equiv> 32"
abbreviation (input) RP1_PMU_CYCLE_DIVISOR :: u32 where "RP1_PMU_CYCLE_DIVISOR \<equiv> 64"
abbreviation (input) RP1_DEFAULT_KERNEL_TIMEOUT_MS :: u32 where "RP1_DEFAULT_KERNEL_TIMEOUT_MS \<equiv> 1000"
abbreviation (input) RP1_DEFAULT_PDI_TIMEOUT_MS :: u32 where "RP1_DEFAULT_PDI_TIMEOUT_MS \<equiv> 5000"

section \<open>Node packets\<close>

record rp1_payload =
  pw0 :: u32
  pw1 :: u32
  pw2 :: u32
  pw3 :: u32
  pw4 :: u32
  pw5 :: u32
  pw6 :: u32
  pw7 :: u32
  pw8 :: u32
  pw9 :: u32
  pw10 :: u32
  pw11 :: u32

text \<open>\<open>rp1_payload_kernel_dispatch_t\<close>.\<close>

definition kd_kernel_base_addr :: "rp1_payload \<Rightarrow> u32" where
  "kd_kernel_base_addr p = pw0 p"

definition kd_arg_buffer_offset :: "rp1_payload \<Rightarrow> u32" where
  "kd_arg_buffer_offset p = pw1 p"

definition kd_arg_count :: "rp1_payload \<Rightarrow> u16" where
  "kd_arg_count p = lo16 (pw2 p)"

definition kd_timeout_cycles :: "rp1_payload \<Rightarrow> u32" where
  "kd_timeout_cycles p = pw3 p"

definition kd_expected_image_id :: "rp1_payload \<Rightarrow> u32" where
  "kd_expected_image_id p = pw4 p"

text \<open>\<open>rp1_payload_scalar_write_t\<close>: six (address, value) pairs.\<close>

definition sw_writes :: "rp1_payload \<Rightarrow> (u32 \<times> u32) list" where
  "sw_writes p = [(pw0 p, pw1 p), (pw2 p, pw3 p), (pw4 p, pw5 p),
                  (pw6 p, pw7 p), (pw8 p, pw9 p), (pw10 p, pw11 p)]"

text \<open>\<open>rp1_payload_scalar_read_t\<close> and \<open>rp1_payload_scalar_copy_t\<close>.\<close>

definition sr_source_addr :: "rp1_payload \<Rightarrow> u32" where
  "sr_source_addr p = pw0 p"

definition sr_target_slot :: "rp1_payload \<Rightarrow> u32" where
  "sr_target_slot p = pw1 p"

definition sc_source_slot :: "rp1_payload \<Rightarrow> u32" where
  "sc_source_slot p = pw0 p"

definition sc_dest_addr :: "rp1_payload \<Rightarrow> u32" where
  "sc_dest_addr p = pw1 p"

text \<open>\<open>rp1_payload_signal_t\<close> and \<open>rp1_payload_wait_t\<close>.\<close>

definition sg_target_slot :: "rp1_payload \<Rightarrow> u32" where
  "sg_target_slot p = pw0 p"

definition sg_value :: "rp1_payload \<Rightarrow> u32" where
  "sg_value p = pw1 p"

definition sg_operation :: "rp1_payload \<Rightarrow> u16" where
  "sg_operation p = lo16 (pw2 p)"

definition wt_condition_signal :: "rp1_payload \<Rightarrow> u32" where
  "wt_condition_signal p = pw0 p"

definition wt_condition_value :: "rp1_payload \<Rightarrow> u32" where
  "wt_condition_value p = pw1 p"

definition wt_condition_op :: "rp1_payload \<Rightarrow> u16" where
  "wt_condition_op p = lo16 (pw2 p)"

text \<open>\<open>rp1_payload_dma_copy_t\<close> and \<open>rp1_payload_dma_fill_t\<close> (the firmware uses the low
  address words only).\<close>

definition dc_src_addr_lo :: "rp1_payload \<Rightarrow> u32" where
  "dc_src_addr_lo p = pw0 p"

definition dc_dst_addr_lo :: "rp1_payload \<Rightarrow> u32" where
  "dc_dst_addr_lo p = pw2 p"

definition dc_length :: "rp1_payload \<Rightarrow> u32" where
  "dc_length p = pw4 p"

definition df_dst_addr_lo :: "rp1_payload \<Rightarrow> u32" where
  "df_dst_addr_lo p = pw0 p"

definition df_length :: "rp1_payload \<Rightarrow> u32" where
  "df_length p = pw2 p"

definition df_pattern :: "rp1_payload \<Rightarrow> u32" where
  "df_pattern p = pw3 p"

text \<open>\<open>rp1_payload_pdi_load_t\<close>.\<close>

definition pl_pdi_addr_lo :: "rp1_payload \<Rightarrow> u32" where
  "pl_pdi_addr_lo p = pw0 p"

definition pl_pdi_addr_hi :: "rp1_payload \<Rightarrow> u32" where
  "pl_pdi_addr_hi p = pw1 p"

definition pl_timeout_cycles :: "rp1_payload \<Rightarrow> u32" where
  "pl_timeout_cycles p = pw2 p"

definition pl_image_id :: "rp1_payload \<Rightarrow> u32" where
  "pl_image_id p = pw3 p"

text \<open>\<open>rp1_payload_loop_t\<close>.\<close>

definition lp_body_start :: "rp1_payload \<Rightarrow> u32" where
  "lp_body_start p = pw0 p"

definition lp_body_end :: "rp1_payload \<Rightarrow> u32" where
  "lp_body_end p = pw1 p"

definition lp_max_iterations :: "rp1_payload \<Rightarrow> u32" where
  "lp_max_iterations p = pw2 p"

definition lp_condition_signal :: "rp1_payload \<Rightarrow> u32" where
  "lp_condition_signal p = pw3 p"

definition lp_condition_value :: "rp1_payload \<Rightarrow> u32" where
  "lp_condition_value p = pw4 p"

definition lp_condition_op :: "rp1_payload \<Rightarrow> u16" where
  "lp_condition_op p = lo16 (pw5 p)"

definition lp_bucket_clear_start :: "rp1_payload \<Rightarrow> u8" where
  "lp_bucket_clear_start p = byte2 (pw5 p)"

definition lp_bucket_clear_end :: "rp1_payload \<Rightarrow> u8" where
  "lp_bucket_clear_end p = byte3 (pw5 p)"

definition lp_loop_id :: "rp1_payload \<Rightarrow> u8" where
  "lp_loop_id p = byte0 (pw6 p)"

text \<open>\<open>rp1_payload_cond_t\<close>.\<close>

definition cd_condition_signal :: "rp1_payload \<Rightarrow> u32" where
  "cd_condition_signal p = pw0 p"

definition cd_condition_value :: "rp1_payload \<Rightarrow> u32" where
  "cd_condition_value p = pw1 p"

definition cd_condition_op :: "rp1_payload \<Rightarrow> u16" where
  "cd_condition_op p = lo16 (pw2 p)"

definition cd_bucket_clear_start :: "rp1_payload \<Rightarrow> u8" where
  "cd_bucket_clear_start p = byte2 (pw2 p)"

definition cd_bucket_clear_end :: "rp1_payload \<Rightarrow> u8" where
  "cd_bucket_clear_end p = byte3 (pw2 p)"

definition cd_body_start :: "rp1_payload \<Rightarrow> u32" where
  "cd_body_start p = pw3 p"

definition cd_body_end :: "rp1_payload \<Rightarrow> u32" where
  "cd_body_end p = pw4 p"

definition cd_done_bucket :: "rp1_payload \<Rightarrow> u8" where
  "cd_done_bucket p = byte0 (pw5 p)"

definition cd_done_mask :: "rp1_payload \<Rightarrow> u32" where
  "cd_done_mask p = pw6 p"

text \<open>\<open>rp1_payload_rerun_t\<close>.\<close>

definition rr_target_node :: "rp1_payload \<Rightarrow> u32" where
  "rr_target_node p = pw0 p"

definition rr_rerun_flags :: "rp1_payload \<Rightarrow> u16" where
  "rr_rerun_flags p = lo16 (pw1 p)"

definition rr_loop_id :: "rp1_payload \<Rightarrow> u8" where
  "rr_loop_id p = byte2 (pw1 p)"

lemmas payload_defs [fw_defs] =
  kd_kernel_base_addr_def kd_arg_buffer_offset_def kd_arg_count_def kd_timeout_cycles_def
  kd_expected_image_id_def sw_writes_def sr_source_addr_def sr_target_slot_def
  sc_source_slot_def sc_dest_addr_def sg_target_slot_def sg_value_def sg_operation_def
  wt_condition_signal_def wt_condition_value_def wt_condition_op_def dc_src_addr_lo_def
  dc_dst_addr_lo_def dc_length_def df_dst_addr_lo_def df_length_def df_pattern_def
  pl_pdi_addr_lo_def pl_pdi_addr_hi_def pl_timeout_cycles_def pl_image_id_def
  lp_body_start_def lp_body_end_def lp_max_iterations_def lp_condition_signal_def
  lp_condition_value_def lp_condition_op_def lp_bucket_clear_start_def
  lp_bucket_clear_end_def lp_loop_id_def cd_condition_signal_def cd_condition_value_def
  cd_condition_op_def cd_bucket_clear_start_def cd_bucket_clear_end_def cd_body_start_def
  cd_body_end_def cd_done_bucket_def cd_done_mask_def rr_target_node_def rr_rerun_flags_def
  rr_loop_id_def lo16_def hi16_def byte0_def byte2_def byte3_def

text \<open>The 64-byte packet: the 16-byte header and the payload.\<close>

record rp1_node =
  opcode :: u16
  flags :: u16
  barrier_await_mask :: u32
  barrier_set_mask :: u32
  barrier_await_bucket :: u8
  barrier_set_bucket :: u8
  nstatus :: u16
  payload :: rp1_payload

section \<open>Control block\<close>

record rp1_ctrl =
  magic :: u32
  version :: u32
  node_count :: u32
  cq_size :: u32
  node_base_lo :: u32
  node_base_hi :: u32
  cq_base_lo :: u32
  cq_base_hi :: u32
  graph_seq :: u32
  graph_done_seq :: u32
  cq_write_idx :: u32
  cq_read_idx :: u32
  rp1_state :: u32
  rp1_error_code :: u32
  rp1_current_node :: u32
  heartbeat :: u32
  arg_buf_base_lo :: u32
  arg_buf_base_hi :: u32
  sig_array_base_lo :: u32
  sig_array_base_hi :: u32
  trace_enable :: u32
  trace_base_lo :: u32
  trace_base_hi :: u32
  trace_size :: u32
  trace_write_idx :: u32
  capabilities :: u32
  pdi_ipi_platform_id :: u32
  terminal_error_node :: u32
  terminal_error_detail :: u32
  terminal_error_aux :: u32

section \<open>Signal slots, completion, trace and in-flight entries\<close>

record rp1_signal_slot =
  sig_value :: u32
  sig_last_writer_node :: u32
  sig_flags :: u32

record rp1_cq_entry =
  cqe_node_index :: u32
  cqe_status :: u32
  cqe_error_detail :: u32
  cqe_timestamp :: u32

record rp1_trace_entry =
  tre_timestamp :: u32
  tre_event :: u16
  tre_node_index :: u16
  tre_aux0 :: u32
  tre_aux1 :: u32

record rp1_inflight =
  ki_base_addr :: u32
  ki_node_index :: u32
  ki_set_mask :: u32
  ki_timeout_start :: u32
  ki_timeout_cycles :: u32
  ki_set_bucket :: u8
  ki_infinite :: u8
  ki_settle_polls :: u8

text \<open>One (register offset, value) pair of a kernel's argument list.\<close>

record rp1_kernel_arg =
  reg_offset :: u32
  arg_value :: u32

section \<open>The shared DDR window\<close>

text \<open>
  Addresses are byte addresses in the RP1's 32-bit physical space. \<open>d_mem\<close> is the plain DDR
  memory the DMA packets copy and fill, one 32-bit word per address.
\<close>

record rp1_ddr =
  d_ctrl :: rp1_ctrl
  d_nodes :: "u32 \<Rightarrow> rp1_node"
  d_cq :: "u32 \<Rightarrow> rp1_cq_entry"
  d_signals :: "u32 \<Rightarrow> rp1_signal_slot"
  d_args :: "u32 \<Rightarrow> u32"
  d_trace :: "u32 \<Rightarrow> rp1_trace_entry"
  d_mem :: "u32 \<Rightarrow> u32"

text \<open>A structure of \<open>len\<close> bytes at \<open>addr\<close> lies inside the shared window.\<close>

definition in_window :: "u32 \<Rightarrow> nat \<Rightarrow> bool" where
  "in_window addr len \<longleftrightarrow>
     unat RP1_CTRL_PHYS_ADDR \<le> unat addr \<and>
     unat addr + len \<le> unat RP1_CTRL_PHYS_ADDR + unat RP1_CTRL_WINDOW_SIZE"

text \<open>The byte address of element \<open>i\<close> of an array of \<open>sz\<close>-byte structures at \<open>base\<close>.\<close>

definition elem_addr :: "u32 \<Rightarrow> nat \<Rightarrow> nat \<Rightarrow> u32" where
  "elem_addr base sz i = base + of_nat (sz * i)"

lemma unat_elem_addr:
  assumes "unat base + sz * i < 2 ^ 32"
  shows "unat (elem_addr base sz i) = unat base + sz * i"
proof -
  have "unat (of_nat (sz * i) :: u32) = sz * i"
    using assms by (simp add: unat_of_nat del: of_nat_mult)
  with assms show ?thesis
    by (simp add: elem_addr_def unat_word_ariths del: of_nat_mult)
qed

text \<open>Elements of an array that lies inside the window do not alias.\<close>

lemma elem_addr_inj:
  assumes "in_window base (sz * n)" and "i < n" and "j < n" and "0 < sz"
  shows "elem_addr base sz i = elem_addr base sz j \<longleftrightarrow> i = j"
proof -
  have ij: "sz * i \<le> sz * n" "sz * j \<le> sz * n"
    using assms(2,3) by simp_all
  have "unat base + sz * n < 2 ^ 32"
    using assms(1) by (simp add: in_window_def)
  with ij have "unat base + sz * i < 2 ^ 32" "unat base + sz * j < 2 ^ 32"
    by linarith+
  then have "unat (elem_addr base sz i) = unat base + sz * i"
    and "unat (elem_addr base sz j) = unat base + sz * j"
    by (simp_all only: unat_elem_addr)
  then show ?thesis using assms(4) by (metis add_left_cancel mult_left_cancel neq0_conv)
qed

lemma in_window_elem:
  assumes "in_window base (sz * n)" and "i < n"
  shows "in_window (elem_addr base sz i) sz"
proof -
  have le: "sz * i + sz \<le> sz * n"
    using assms(2) by (metis Suc_leI mult_Suc_right add.commute mult_le_mono2)
  have "unat base + sz * n < 2 ^ 32"
    using assms(1) by (simp add: in_window_def)
  then have "unat (elem_addr base sz i) = unat base + sz * i"
    using le by (intro unat_elem_addr) linarith
  then show ?thesis using assms(1) le by (simp add: in_window_def)
qed

end
