(* ===== verification/Rp1_Hal.thy ===== *)
theory Rp1_Hal
  imports Rp1_Protocol
begin

text \<open>
  The hardware abstraction layer of the RP1 firmware and its partial-reconfiguration helper:
  \<^verbatim>\<open>linker/slashkit/resources/aved/rp1/src/rp1_hal.c\<close>, \<^verbatim>\<open>rp1_hal.h\<close> and \<^verbatim>\<open>rp1_pdi.c\<close>.

  The world behind the HAL (the fabric registers, the PMU, the platform management
  controller) is a value of an arbitrary type \<open>'c\<close>; what it does on a read, a write, a barrier
  or a cycle-counter read is a parameter, as are the constants of the generated header
  \<^verbatim>\<open>rp1_platform_config.h\<close>. The callbacks of the test harness (\<open>rp1_hooks_t\<close>) are also the places
  where the host acts on the shared window in this model.

  Shown here: the wrap-safe deadline test, that frequency conversion never shortens a
  timeout, and that a PDI load returns within its deadline when the counter advances.
\<close>

section \<open>Hooks and platform parameters\<close>

record 'c rp1_hal_hooks =
  read32 :: "(u32 \<Rightarrow> 'c \<Rightarrow> u32 \<times> 'c) option"
  write32 :: "(u32 \<Rightarrow> u32 \<Rightarrow> 'c \<Rightarrow> 'c) option"
  barrier :: "('c \<Rightarrow> 'c) option"
  cycles :: "('c \<Rightarrow> u32 \<times> 'c) option"

text \<open>
  \<open>hw_*\<close> are the accesses the HAL falls back to when a hook is absent: volatile loads and
  stores, the \<open>dsb\<close> instruction and the coprocessor registers.
\<close>

record 'c rp1_env =
  hooks :: "'c rp1_hal_hooks"
  hw_read32 :: "u32 \<Rightarrow> 'c \<Rightarrow> u32 \<times> 'c"
  hw_write32 :: "u32 \<Rightarrow> u32 \<Rightarrow> 'c \<Rightarrow> 'c"
  hw_dsb :: "'c \<Rightarrow> 'c"
  hw_pmccntr :: "'c \<Rightarrow> u32 \<times> 'c"
  hw_read_pmcr :: "'c \<Rightarrow> u32 \<times> 'c"
  hw_write_pmcr :: "u32 \<Rightarrow> 'c \<Rightarrow> 'c"
  hw_write_pmcntenset :: "u32 \<Rightarrow> 'c \<Rightarrow> 'c"
  platform_id :: u32
  r5_freq_hz :: u32
  pdi_request_base :: u32
  pdi_response_base :: u32
  pdi_trigger_reg :: u32
  pdi_observation_reg :: u32
  pdi_target_mask :: u32
  on_scan_pass :: "(rp1_ddr \<times> 'c \<Rightarrow> rp1_ddr \<times> 'c) option"
  on_graph_done :: "(int \<Rightarrow> rp1_ddr \<times> 'c \<Rightarrow> bool \<times> rp1_ddr \<times> 'c) option"
  on_idle :: "(rp1_ddr \<times> 'c \<Rightarrow> bool \<times> rp1_ddr \<times> 'c) option"

definition rp1_hal_reset_hooks :: "'c rp1_env \<Rightarrow> 'c rp1_env" where
  "rp1_hal_reset_hooks E =
     E\<lparr>hooks := \<lparr>read32 = None, write32 = None, barrier = None, cycles = None\<rparr>\<rparr>"

definition rp1_hal_set_hooks :: "'c rp1_hal_hooks option \<Rightarrow> 'c rp1_env \<Rightarrow> 'c rp1_env" where
  "rp1_hal_set_hooks h E =
     (case h of Some h \<Rightarrow> E\<lparr>hooks := h\<rparr> | None \<Rightarrow> rp1_hal_reset_hooks E)"

section \<open>Accesses\<close>

definition rp1_mmio_read32 :: "'c rp1_env \<Rightarrow> u32 \<Rightarrow> 'c \<Rightarrow> u32 \<times> 'c" where
  "rp1_mmio_read32 E address c =
     (case read32 (hooks E) of Some f \<Rightarrow> f address c | None \<Rightarrow> hw_read32 E address c)"

definition rp1_mmio_write32 :: "'c rp1_env \<Rightarrow> u32 \<Rightarrow> u32 \<Rightarrow> 'c \<Rightarrow> 'c" where
  "rp1_mmio_write32 E address v c =
     (case write32 (hooks E) of Some f \<Rightarrow> f address v c | None \<Rightarrow> hw_write32 E address v c)"

definition rp1_barrier :: "'c rp1_env \<Rightarrow> 'c \<Rightarrow> 'c" where
  "rp1_barrier E c = (case barrier (hooks E) of Some f \<Rightarrow> f c | None \<Rightarrow> hw_dsb E c)"

definition rp1_cycles :: "'c rp1_env \<Rightarrow> 'c \<Rightarrow> u32 \<times> 'c" where
  "rp1_cycles E c = (case cycles (hooks E) of Some f \<Rightarrow> f c | None \<Rightarrow> hw_pmccntr E c)"

text \<open>Enable (bit 0), reset (bit 2) and divide by 64 (bit 3) the cycle counter.\<close>

definition rp1_pmu_init :: "'c rp1_env \<Rightarrow> 'c \<Rightarrow> 'c" where
  "rp1_pmu_init E c =
     (let (pmcr, c) = hw_read_pmcr E c;
          c = hw_write_pmcr E (pmcr OR (1 OR push_bit 2 1 OR push_bit 3 1)) c
      in hw_write_pmcntenset E (push_bit 31 1) c)"

section \<open>Deadlines\<close>

definition rp1_timeout_elapsed :: "u32 \<Rightarrow> u32 \<Rightarrow> u32 \<Rightarrow> bool" where
  "rp1_timeout_elapsed start timeout now \<longleftrightarrow> now - start \<ge> timeout"

text \<open>
  \<open>RP1_PMU_TICKS_PER_SECOND\<close> is computed in 32-bit arithmetic, \<open>RP1_TIMEOUT_TICKS\<close> in 64-bit
  arithmetic and then truncated.
\<close>

definition rp1_pmu_ticks_per_second :: "'c rp1_env \<Rightarrow> u32" where
  "rp1_pmu_ticks_per_second E =
     (r5_freq_hz E + RP1_PMU_CYCLE_DIVISOR - 1) div RP1_PMU_CYCLE_DIVISOR"

definition rp1_timeout_ticks :: "'c rp1_env \<Rightarrow> u32 \<Rightarrow> u32" where
  "rp1_timeout_ticks E ms =
     ucast (((ucast (rp1_pmu_ticks_per_second E) :: u64) * ucast ms + 999) div 1000)"

definition rp1_default_kernel_timeout_ticks :: "'c rp1_env \<Rightarrow> u32" where
  "rp1_default_kernel_timeout_ticks E = rp1_timeout_ticks E RP1_DEFAULT_KERNEL_TIMEOUT_MS"

definition rp1_default_pdi_timeout_ticks :: "'c rp1_env \<Rightarrow> u32" where
  "rp1_default_pdi_timeout_ticks E = rp1_timeout_ticks E RP1_DEFAULT_PDI_TIMEOUT_MS"

section \<open>Partial reconfiguration\<close>

datatype rp1_pdi_outcome = RP1_PDI_RESULT_OK | RP1_PDI_RESULT_TIMEOUT | RP1_PDI_RESULT_PLM_ERROR

record rp1_pdi_result =
  pdi_outcome :: rp1_pdi_outcome
  pdi_status :: u32
  pdi_detail :: u32

abbreviation (input) RP1_PDI_CMD_LOAD :: u32 where "RP1_PDI_CMD_LOAD \<equiv> 0x00030701"
abbreviation (input) RP1_PDI_SRC_DDR :: u32 where "RP1_PDI_SRC_DDR \<equiv> 0x0000000F"

text \<open>
  The polling loop of \<open>rp1_pdi_load\<close>; \<open>None\<close> when it polls for ever. The first component of
  the result is whether the observation bit cleared before the deadline.
\<close>

partial_function (option) pdi_poll ::
  "'c rp1_env \<Rightarrow> u32 \<Rightarrow> u32 \<Rightarrow> 'c \<Rightarrow> (bool \<times> 'c) option" where
  "pdi_poll E start timeout c =
     (let (obs, c) = rp1_mmio_read32 E (pdi_observation_reg E) c in
      if obs AND pdi_target_mask E \<noteq> 0
      then (let (now, c) = rp1_cycles E c in
            if rp1_timeout_elapsed start timeout now then Some (False, c)
            else pdi_poll E start timeout c)
      else Some (True, c))"

definition pdi_request :: "'c rp1_env \<Rightarrow> u32 \<Rightarrow> u32 \<Rightarrow> 'c \<Rightarrow> 'c" where
  "pdi_request E addr_lo addr_hi c =
     (let c = rp1_mmio_write32 E (pdi_request_base E + 0) RP1_PDI_CMD_LOAD c;
          c = rp1_mmio_write32 E (pdi_request_base E + 4) RP1_PDI_SRC_DDR c;
          c = rp1_mmio_write32 E (pdi_request_base E + 8) addr_hi c;
          c = rp1_mmio_write32 E (pdi_request_base E + 12) addr_lo c;
          c = rp1_barrier E c;
          c = rp1_mmio_write32 E (pdi_trigger_reg E) (pdi_target_mask E) c
      in rp1_barrier E c)"

definition pdi_response :: "'c rp1_env \<Rightarrow> 'c \<Rightarrow> rp1_pdi_result \<times> 'c" where
  "pdi_response E c =
     (let c = rp1_barrier E c;
          (st, c) = rp1_mmio_read32 E (pdi_response_base E + 0) c;
          (det, c) = rp1_mmio_read32 E (pdi_response_base E + 4) c
      in (\<lparr>pdi_outcome = (if st = 0 then RP1_PDI_RESULT_OK else RP1_PDI_RESULT_PLM_ERROR),
           pdi_status = st, pdi_detail = det\<rparr>, c))"

definition pdi_timeout :: "'c rp1_env \<Rightarrow> u32 \<Rightarrow> u32" where
  "pdi_timeout E timeout_cycles =
     (if timeout_cycles \<noteq> 0 then timeout_cycles else rp1_default_pdi_timeout_ticks E)"

definition rp1_pdi_load ::
  "'c rp1_env \<Rightarrow> u32 \<Rightarrow> u32 \<Rightarrow> u32 \<Rightarrow> 'c \<Rightarrow> (rp1_pdi_result \<times> 'c) option" where
  "rp1_pdi_load E addr_lo addr_hi timeout_cycles c =
     (let c = pdi_request E addr_lo addr_hi c;
          timeout = pdi_timeout E timeout_cycles;
          (start, c) = rp1_cycles E c
      in do {
        (cleared, c) \<leftarrow> pdi_poll E start timeout c;
        if \<not> cleared
        then Some (\<lparr>pdi_outcome = RP1_PDI_RESULT_TIMEOUT, pdi_status = 0, pdi_detail = 0\<rparr>, c)
        else Some (pdi_response E c)
      })"

section \<open>Deadlines are wrap-safe and never early\<close>

text \<open>
  \<open>a\<close> and \<open>b\<close> are readings of an unbounded clock of which the counter shows the low 32 bits.
\<close>

lemma timeout_elapsed_clock:
  assumes "a \<le> b" and "b - a < 2 ^ 32"
  shows "rp1_timeout_elapsed (of_nat a) timeout (of_nat b) \<longleftrightarrow> unat timeout \<le> b - a"
proof -
  have "(of_nat b - of_nat a :: u32) = of_nat (b - a)"
    using assms(1) by (simp add: of_nat_diff)
  moreover have "unat (of_nat (b - a) :: u32) = b - a"
    using assms(2) by (simp only: unat_of_nat) simp
  ultimately show ?thesis
    by (simp add: rp1_timeout_elapsed_def word_le_nat_alt)
qed

text \<open>Without the bound on \<open>b - a\<close> one direction remains: an expiry is never early.\<close>

lemma timeout_elapsed_not_early:
  assumes "a \<le> b" and "rp1_timeout_elapsed (of_nat a) timeout (of_nat b)"
  shows "unat timeout \<le> b - a"
proof -
  have "(of_nat b - of_nat a :: u32) = of_nat (b - a)"
    using assms(1) by (simp add: of_nat_diff)
  then have "unat timeout \<le> unat (of_nat (b - a) :: u32)"
    using assms(2) by (simp add: rp1_timeout_elapsed_def word_le_nat_alt)
  also have "\<dots> = (b - a) mod 2 ^ 32" by (simp only: unat_of_nat) simp
  also have "\<dots> \<le> b - a" by simp
  finally show ?thesis .
qed

lemma unat_ticks_per_second:
  assumes "unat (r5_freq_hz E) + 63 < 2 ^ 32"
  shows "unat (rp1_pmu_ticks_per_second E) = (unat (r5_freq_hz E) + 63) div 64"
proof -
  have "r5_freq_hz E + 64 - 1 = r5_freq_hz E + 63" by simp
  moreover have "unat (r5_freq_hz E + 63) = unat (r5_freq_hz E) + 63"
    using assms by (simp add: unat_word_ariths)
  ultimately show ?thesis
    by (simp only: rp1_pmu_ticks_per_second_def unat_div_distrib) simp
qed

lemma unat_timeout_ticks:
  assumes "unat (rp1_pmu_ticks_per_second E) * unat ms < 2 ^ 41"
  shows "unat (rp1_timeout_ticks E ms) =
         (unat (rp1_pmu_ticks_per_second E) * unat ms + 999) div 1000"
proof -
  let ?r = "rp1_pmu_ticks_per_second E"
  have u: "unat ((ucast ?r :: u64) * ucast ms) = unat ?r * unat ms"
    using assms by (simp add: unat_word_ariths unat_ucast_up)
  then have "unat ((ucast ?r :: u64) * ucast ms + 999) = unat ?r * unat ms + 999"
    using assms by (simp add: unat_word_ariths)
  then have "unat (((ucast ?r :: u64) * ucast ms + 999) div 1000) =
             (unat ?r * unat ms + 999) div 1000"
    by (simp add: unat_div_distrib)
  moreover have "(unat ?r * unat ms + 999) div 1000 < 2 ^ 32"
    using assms by (simp add: div_less_iff_less_mult)
  ultimately show ?thesis by (simp add: rp1_timeout_ticks_def unat_ucast_less)
qed

text \<open>One tick is 64 core cycles, so \<open>t\<close> ticks last \<open>64 * t / freq\<close> seconds.\<close>

lemma timeout_ticks_not_early:
  assumes "unat (r5_freq_hz E) + 63 < 2 ^ 32" and "unat ms \<le> 30000"
  shows "unat (r5_freq_hz E) * unat ms \<le> unat (rp1_timeout_ticks E ms) * 64 * 1000"
proof -
  let ?f = "unat (r5_freq_hz E)" and ?r = "unat (rp1_pmu_ticks_per_second E)"
  have r: "?r = (?f + 63) div 64" by (rule unat_ticks_per_second [OF assms(1)])
  then have "?r \<le> 2 ^ 26" using assms(1) by simp
  then have "?r * unat ms \<le> 2 ^ 26 * 30000" using assms(2) by (rule mult_le_mono)
  then have t: "unat (rp1_timeout_ticks E ms) = (?r * unat ms + 999) div 1000"
    by (intro unat_timeout_ticks) simp
  have "?f \<le> ?r * 64" using r by linarith
  then have "?f * unat ms \<le> ?r * 64 * unat ms" by (rule mult_le_mono1)
  also have "\<dots> = ?r * unat ms * 64" by simp
  also have "?r * unat ms \<le> (?r * unat ms + 999) div 1000 * 1000" by linarith
  finally show ?thesis using t by simp
qed

section \<open>A PDI load returns by its deadline\<close>

text \<open>
  What the loop relies on of the hardware: the counter shows an unbounded clock \<open>clk\<close> that a
  register read never sets back, that each counter read advances, and that gains at most \<open>D\<close>
  ticks from one poll to the next.
\<close>

definition pmu_clock :: "'c rp1_env \<Rightarrow> ('c \<Rightarrow> nat) \<Rightarrow> nat \<Rightarrow> bool" where
  "pmu_clock E clk D \<longleftrightarrow>
     (\<forall>c. fst (rp1_cycles E c) = of_nat (clk c)) \<and>
     (\<forall>c. clk c < clk (snd (rp1_cycles E c))) \<and>
     (\<forall>a c. clk c \<le> clk (snd (rp1_mmio_read32 E a c))) \<and>
     (\<forall>a c. clk (snd (rp1_mmio_read32 E a (snd (rp1_cycles E c)))) \<le> clk c + D)"

lemma pmu_clockD:
  assumes "pmu_clock E clk D"
  shows "rp1_cycles E c = (now, c') \<Longrightarrow> now = of_nat (clk c) \<and> clk c < clk c'"
    and "rp1_mmio_read32 E a c = (v, c') \<Longrightarrow> clk c \<le> clk c'"
    and "rp1_cycles E c = (now, c') \<Longrightarrow> rp1_mmio_read32 E a c' = (v, c'') \<Longrightarrow> clk c'' \<le> clk c + D"
  using assms unfolding pmu_clock_def by (metis fst_conv snd_conv)+

lemma pdi_poll_returns:
  assumes clk: "pmu_clock E clk D" and "unat T + D \<le> 2 ^ 32"
    and "rp1_cycles E c0 = (now, c)" and "a \<le> clk c0" and "clk c0 = a \<or> clk c0 < a + unat T"
  shows "\<exists>b c'. pdi_poll E (of_nat a) T c = Some (b, c') \<and> (\<not> b \<longrightarrow> a + unat T \<le> clk c')"
  using assms(3-)
proof (induction "a + unat T - clk c0" arbitrary: c0 c now rule: less_induct)
  case less
  obtain obs c1 where c1: "rp1_mmio_read32 E (pdi_observation_reg E) c = (obs, c1)" by fastforce
  obtain now' c2 where c2: "rp1_cycles E c1 = (now', c2)" by fastforce
  note adv = pmu_clockD [OF clk]
  have "clk c0 < clk c" using adv(1) [OF less.prems(1)] by simp
  then have gt: "clk c0 < clk c1" using adv(2) [OF c1] by linarith
  have le: "clk c1 \<le> clk c0 + D" using adv(3) [OF less.prems(1) c1] .
  have now': "now' = of_nat (clk c1)" and "clk c1 < clk c2" using adv(1) [OF c2] by simp_all
  show ?case
  proof (cases "obs AND pdi_target_mask E = 0")
    case True
    then have "pdi_poll E (of_nat a) T c = Some (True, c1)"
      by (subst pdi_poll.simps) (simp add: c1)
    then show ?thesis by blast
  next
    case pending: False
    show ?thesis
    proof (cases "rp1_timeout_elapsed (of_nat a) T now'")
      case True
      then have "unat T \<le> clk c1 - a"
        using timeout_elapsed_not_early [of a "clk c1" T] less.prems(2) gt now' by simp
      then have "a + unat T \<le> clk c2" using less.prems(2) gt \<open>clk c1 < clk c2\<close> by linarith
      moreover have "pdi_poll E (of_nat a) T c = Some (False, c2)"
        using True pending by (subst pdi_poll.simps) (simp add: c1 c2)
      ultimately show ?thesis by blast
    next
      case False
      have early: "clk c1 < a + unat T"
      proof (rule ccontr)
        assume late: "\<not> clk c1 < a + unat T"
        have "clk c1 - a < 2 ^ 32 \<or> unat T = 0"
          using le assms(2) less.prems(2,3) by linarith
        then have "rp1_timeout_elapsed (of_nat a) T now'"
        proof
          assume "clk c1 - a < 2 ^ 32"
          then show ?thesis using late less.prems(2) gt now'
            by (simp add: timeout_elapsed_clock)
        next
          assume "unat T = 0"
          then show ?thesis by (simp add: rp1_timeout_elapsed_def word_le_nat_alt)
        qed
        with False show False by simp
      qed
      have "pdi_poll E (of_nat a) T c = pdi_poll E (of_nat a) T c2"
        using False pending by (subst pdi_poll.simps) (simp add: c1 c2)
      then show ?thesis
        using less.hyps [OF _ c2] early gt less.prems(2) by auto
    qed
  qed
qed

text \<open>
  A PDI load always returns; a timeout is reported only after the full deadline, with both
  response words zero; otherwise the outcome is decided by the PLM status word.
\<close>

lemma rp1_pdi_load_outcome:
  assumes "pmu_clock E clk D" and "unat (pdi_timeout E t) + D \<le> 2 ^ 32"
  shows "\<exists>r c'. rp1_pdi_load E lo hi t c = Some (r, c') \<and>
    (pdi_outcome r = RP1_PDI_RESULT_TIMEOUT \<longrightarrow> pdi_status r = 0 \<and> pdi_detail r = 0 \<and>
       clk (pdi_request E lo hi c) + unat (pdi_timeout E t) \<le> clk c') \<and>
    (pdi_outcome r = RP1_PDI_RESULT_OK \<longrightarrow> pdi_status r = 0) \<and>
    (pdi_outcome r = RP1_PDI_RESULT_PLM_ERROR \<longrightarrow> pdi_status r \<noteq> 0)"
proof -
  let ?c = "pdi_request E lo hi c"
  obtain start c1 where s: "rp1_cycles E ?c = (start, c1)" by fastforce
  have start: "start = of_nat (clk ?c)" using pmu_clockD(1) [OF assms(1) s] by simp
  obtain b c2 where p: "pdi_poll E start (pdi_timeout E t) c1 = Some (b, c2)"
    and late: "\<not> b \<longrightarrow> clk ?c + unat (pdi_timeout E t) \<le> clk c2"
    using pdi_poll_returns [OF assms s, of "clk ?c"] start by auto
  show ?thesis
    using p late
    by (auto simp: rp1_pdi_load_def Let_def s pdi_response_def
        split: prod.split)
qed
text \<open>
  What makes every PDI load return, whatever its deadline: the platform controller clears the
  observation bit after finitely many polls, or the counter gains at most one tick per poll.
  (A deadline within \<open>D\<close> of \<open>2 ^ 32\<close> can be stepped over by a counter that gains \<open>D\<close> ticks.)
\<close>

fun poll_rounds :: "'c rp1_env \<Rightarrow> nat \<Rightarrow> 'c \<Rightarrow> 'c" where
  "poll_rounds E 0 c = c"
| "poll_rounds E (Suc k) c =
     poll_rounds E k (snd (rp1_cycles E (snd (rp1_mmio_read32 E (pdi_observation_reg E) c))))"

definition pmc_answers :: "'c rp1_env \<Rightarrow> bool" where
  "pmc_answers E \<longleftrightarrow>
     (\<forall>c. \<exists>k. fst (rp1_mmio_read32 E (pdi_observation_reg E) (poll_rounds E k c))
              AND pdi_target_mask E = 0)"

definition pdi_hw :: "'c rp1_env \<Rightarrow> bool" where
  "pdi_hw E \<longleftrightarrow> pmc_answers E \<or> (\<exists>clk. pmu_clock E clk 1)"

lemma pdi_poll_answered:
  "fst (rp1_mmio_read32 E (pdi_observation_reg E) (poll_rounds E k c)) AND pdi_target_mask E = 0
   \<Longrightarrow> pdi_poll E start T c \<noteq> None"
proof (induction k arbitrary: c)
  case 0
  then show ?case by (subst pdi_poll.simps) (simp add: split_beta)
next
  case (Suc k)
  then show ?case by (subst pdi_poll.simps) (auto simp: split_beta)
qed

lemma pdi_hw_returns:
  assumes "pdi_hw E"
  shows "rp1_pdi_load E lo hi t c \<noteq> None"
  using assms unfolding pdi_hw_def
proof
  assume answers: "pmc_answers E"
  have "pdi_poll E start T d \<noteq> None" for start T d
  proof -
    obtain k where "fst (rp1_mmio_read32 E (pdi_observation_reg E) (poll_rounds E k d))
        AND pdi_target_mask E = 0"
      using answers unfolding pmc_answers_def by blast
    then show ?thesis by (rule pdi_poll_answered)
  qed
  then show ?thesis
    by (simp add: rp1_pdi_load_def Let_def split_beta bind_eq_None_conv)
next
  assume "\<exists>clk. pmu_clock E clk 1"
  then obtain clk where clk: "pmu_clock E clk 1" ..
  have "unat (pdi_timeout E t) < 2 ^ 32" using unsigned_less [of "pdi_timeout E t"] by simp
  then have "unat (pdi_timeout E t) + 1 \<le> 2 ^ 32" by simp
  from rp1_pdi_load_outcome [OF clk this] show ?thesis by (metis option.distinct(1))
qed

end
