(* ===== verification/Rp1_Store.thy ===== *)
theory Rp1_Store
  imports Rp1_Hal
begin

unbundle bit_operations_syntax

text \<open>
  The RP1 firmware's storage, from \<^verbatim>\<open>linker/slashkit/resources/aved/rp1/src/rp1_store.c\<close>: the
  BTCM-resident tables, the pointers into the shared window that \<open>rp1_store_init\<close> resolves
  from the host's control block, and the first-error latch.

  A static C array is a total function together with accessors that return \<open>None\<close> outside the
  array's declared size; a structure reached through a resolved pointer is an element of the
  typed DDR store, with accessors that return \<open>None\<close> when its bytes are not inside the shared
  window. A theorem that an operation returns therefore shows that it makes no access out of
  bounds.

  Shown here: \<open>rp1_store_init\<close> accepts exactly the configurations of an arithmetic
  specification, names the first check that fails, leaves everything untouched on rejection,
  and establishes the in-window layout on success; the error latch keeps the first cause.
\<close>

section \<open>State\<close>

record 'c rp1 =
  ddr :: rp1_ddr
  ctx :: 'c
  g_barriers :: "nat \<Rightarrow> u32"
  g_node_status :: "nat \<Rightarrow> u8"
  g_loop_iters :: "nat \<Rightarrow> u32"
  g_inflight :: "nat \<Rightarrow> rp1_inflight"
  g_inflight_count :: u32
  g_graph_start_cycles :: u32
  g_trace_size :: u32
  g_trace_enable :: u32
  g_active_image_id :: u32
  g_nodes :: u32
  g_cq :: u32
  g_signals :: u32
  g_arg_buf :: u32
  g_trace :: u32
  g_cq_blocked :: u32

abbreviation ctrl :: "'c rp1 \<Rightarrow> rp1_ctrl" where
  "ctrl s \<equiv> d_ctrl (ddr s)"

definition upd_ctrl :: "(rp1_ctrl \<Rightarrow> rp1_ctrl) \<Rightarrow> 'c rp1 \<Rightarrow> 'c rp1" where
  "upd_ctrl f s = s\<lparr>ddr := (ddr s)\<lparr>d_ctrl := f (ctrl s)\<rparr>\<rparr>"

section \<open>Bounds-checked accesses\<close>

definition set_barrier :: "nat \<Rightarrow> u32 \<Rightarrow> 'c rp1 \<Rightarrow> 'c rp1" where
  "set_barrier b v s = s\<lparr>g_barriers := (g_barriers s)(b := v)\<rparr>"

definition barrier_read :: "nat \<Rightarrow> 'c rp1 \<Rightarrow> u32 option" where
  "barrier_read b s = (if b < unat RP1_MAX_BUCKETS then Some (g_barriers s b) else None)"

definition barrier_write :: "nat \<Rightarrow> u32 \<Rightarrow> 'c rp1 \<Rightarrow> 'c rp1 option" where
  "barrier_write b v s = (if b < unat RP1_MAX_BUCKETS then Some (set_barrier b v s) else None)"

definition node_addr :: "nat \<Rightarrow> 'c rp1 \<Rightarrow> u32" where
  "node_addr i s = elem_addr (g_nodes s) 64 i"

definition node_ref :: "nat \<Rightarrow> 'c rp1 \<Rightarrow> rp1_node" where
  "node_ref i s = d_nodes (ddr s) (node_addr i s)"

definition node_read :: "nat \<Rightarrow> 'c rp1 \<Rightarrow> rp1_node option" where
  "node_read i s = (if in_window (node_addr i s) 64 then Some (node_ref i s) else None)"

definition put_node_status :: "nat \<Rightarrow> u16 \<Rightarrow> 'c rp1 \<Rightarrow> 'c rp1" where
  "put_node_status i st s = s\<lparr>ddr := (ddr s)\<lparr>d_nodes :=
     (d_nodes (ddr s))(node_addr i s := (node_ref i s)\<lparr>nstatus := st\<rparr>)\<rparr>\<rparr>"

definition node_status_write :: "nat \<Rightarrow> u16 \<Rightarrow> 'c rp1 \<Rightarrow> 'c rp1 option" where
  "node_status_write i st s =
     (if in_window (node_addr i s) 64 then Some (put_node_status i st s) else None)"

definition signal_ref :: "nat \<Rightarrow> 'c rp1 \<Rightarrow> rp1_signal_slot" where
  "signal_ref i s = d_signals (ddr s) (elem_addr (g_signals s) 16 i)"

definition put_signal :: "nat \<Rightarrow> rp1_signal_slot \<Rightarrow> 'c rp1 \<Rightarrow> 'c rp1" where
  "put_signal i v s = s\<lparr>ddr := (ddr s)\<lparr>d_signals :=
     (d_signals (ddr s))(elem_addr (g_signals s) 16 i := v)\<rparr>\<rparr>"

definition signal_read :: "nat \<Rightarrow> 'c rp1 \<Rightarrow> rp1_signal_slot option" where
  "signal_read i s =
     (if in_window (elem_addr (g_signals s) 16 i) 16 then Some (signal_ref i s) else None)"

definition signal_write :: "nat \<Rightarrow> rp1_signal_slot \<Rightarrow> 'c rp1 \<Rightarrow> 'c rp1 option" where
  "signal_write i v s =
     (if in_window (elem_addr (g_signals s) 16 i) 16 then Some (put_signal i v s) else None)"

definition put_cq :: "nat \<Rightarrow> rp1_cq_entry \<Rightarrow> 'c rp1 \<Rightarrow> 'c rp1" where
  "put_cq i e s = s\<lparr>ddr := (ddr s)\<lparr>d_cq := (d_cq (ddr s))(elem_addr (g_cq s) 16 i := e)\<rparr>\<rparr>"

definition cq_write :: "nat \<Rightarrow> rp1_cq_entry \<Rightarrow> 'c rp1 \<Rightarrow> 'c rp1 option" where
  "cq_write i e s = (if in_window (elem_addr (g_cq s) 16 i) 16 then Some (put_cq i e s) else None)"

definition put_trace :: "nat \<Rightarrow> rp1_trace_entry \<Rightarrow> 'c rp1 \<Rightarrow> 'c rp1" where
  "put_trace i e s = s\<lparr>ddr := (ddr s)\<lparr>d_trace :=
     (d_trace (ddr s))(elem_addr (g_trace s) 16 i := e)\<rparr>\<rparr>"

definition trace_write :: "nat \<Rightarrow> rp1_trace_entry \<Rightarrow> 'c rp1 \<Rightarrow> 'c rp1 option" where
  "trace_write i e s =
     (if in_window (elem_addr (g_trace s) 16 i) 16 then Some (put_trace i e s) else None)"

definition arg_read :: "u32 \<Rightarrow> 'c rp1 \<Rightarrow> u32 option" where
  "arg_read a s = (if in_window a 4 then Some (d_args (ddr s) a) else None)"

section \<open>Error latch\<close>

definition rp1_clear_error_latch :: "'c rp1 \<Rightarrow> 'c rp1" where
  "rp1_clear_error_latch s =
     upd_ctrl (\<lambda>c. c\<lparr>rp1_error_code := 0, terminal_error_node := RP1_TERMINAL_ERROR_NODE_NONE,
                     terminal_error_detail := 0, terminal_error_aux := 0\<rparr>) s"

definition rp1_latch_error :: "u32 \<Rightarrow> u32 \<Rightarrow> u32 \<Rightarrow> u32 \<Rightarrow> 'c rp1 \<Rightarrow> 'c rp1" where
  "rp1_latch_error code node detail aux s =
     (if rp1_error_code (ctrl s) AND RP1_ERR_CODE_MASK \<noteq> 0 then s
      else upd_ctrl (\<lambda>c. c\<lparr>
             rp1_error_code := (rp1_error_code c AND RP1_ERR_RECOVERY_REQUIRED) OR code,
             terminal_error_node := node,
             terminal_error_detail := detail,
             terminal_error_aux := aux\<rparr>) s)"

definition rp1_mark_recovery_required :: "'c rp1 \<Rightarrow> 'c rp1" where
  "rp1_mark_recovery_required s =
     upd_ctrl (\<lambda>c. c\<lparr>rp1_error_code := rp1_error_code c OR RP1_ERR_RECOVERY_REQUIRED\<rparr>) s"

section \<open>Initialisation\<close>

definition make64 :: "u32 \<Rightarrow> u32 \<Rightarrow> u64" where
  "make64 lo hi = push_bit 32 (ucast hi) OR ucast lo"

definition is_power_of_two :: "u32 \<Rightarrow> bool" where
  "is_power_of_two v \<longleftrightarrow> v \<noteq> 0 \<and> v AND (v - 1) = 0"

definition valid_window_range :: "u32 \<Rightarrow> u32 \<Rightarrow> u32 \<Rightarrow> u32 \<Rightarrow> bool" where
  "valid_window_range lo hi sz alignment =
     (if hi \<noteq> 0 \<or> lo < RP1_CTRL_PHYS_ADDR \<or> sz > RP1_CTRL_WINDOW_SIZE then False
      else if alignment \<noteq> 0 \<and> lo AND (alignment - 1) \<noteq> 0 then False
      else lo - RP1_CTRL_PHYS_ADDR \<le> RP1_CTRL_WINDOW_SIZE - sz)"

text \<open>\<open>memzero\<close> of the BTCM tables.\<close>

definition zero_inflight :: rp1_inflight where
  "zero_inflight = \<lparr>ki_base_addr = 0, ki_node_index = 0, ki_set_mask = 0, ki_timeout_start = 0,
     ki_timeout_cycles = 0, ki_set_bucket = 0, ki_infinite = 0, ki_settle_polls = 0\<rparr>"

definition rp1_store_reset_graph :: "'c rp1 \<Rightarrow> 'c rp1" where
  "rp1_store_reset_graph s =
     s\<lparr>g_barriers := (\<lambda>_. 0), g_node_status := (\<lambda>_. 0), g_loop_iters := (\<lambda>_. 0),
       g_inflight := (\<lambda>_. zero_inflight), g_inflight_count := 0\<rparr>"

text \<open>The first phase of \<open>rp1_store_init\<close>: the first failing check as (detail, aux).\<close>

definition store_config_error :: "rp1_ctrl \<Rightarrow> (u32 \<times> u32) option" where
  "store_config_error c =
     (if node_count c = 0 \<or> node_count c > RP1_MAX_NODES
      then Some (RP1_CONFIG_NODE_COUNT, node_count c)
      else if \<not> valid_window_range (node_base_lo c) (node_base_hi c) (node_count c * 64) 64
      then Some (RP1_CONFIG_NODE_BASE, node_base_lo c)
      else if \<not> is_power_of_two (cq_size c) \<or> cq_size c > RP1_MAX_CQ_ENTRIES
      then Some (RP1_CONFIG_CQ_SIZE, cq_size c)
      else if \<not> valid_window_range (cq_base_lo c) (cq_base_hi c) (cq_size c * 16) 16
      then Some (RP1_CONFIG_CQ_BASE, cq_base_lo c)
      else if cq_write_idx c - cq_read_idx c > cq_size c
      then Some (RP1_CONFIG_CQ_CURSORS, cq_write_idx c - cq_read_idx c)
      else if \<not> valid_window_range (arg_buf_base_lo c) (arg_buf_base_hi c) 4 4
      then Some (RP1_CONFIG_ARG_BASE, arg_buf_base_lo c)
      else if \<not> valid_window_range (sig_array_base_lo c) (sig_array_base_hi c)
                 (RP1_MAX_SIGNALS * 16) 16
      then Some (RP1_CONFIG_SIGNAL_BASE, sig_array_base_lo c)
      else if trace_enable c \<noteq> 0 \<and>
              (\<not> is_power_of_two (trace_size c) \<or> trace_size c > RP1_MAX_TRACE_ENTRIES \<or>
               \<not> valid_window_range (trace_base_lo c) (trace_base_hi c) (trace_size c * 16) 16)
      then Some (RP1_CONFIG_TRACE, trace_size c)
      else None)"

text \<open>Pointers are 32 bits wide on the Cortex-R5: \<open>(uintptr_t)make64(...)\<close> truncates.\<close>

definition resolve_pointers :: "'c rp1 \<Rightarrow> 'c rp1" where
  "resolve_pointers s =
     (let c = ctrl s in
      upd_ctrl (\<lambda>c. c\<lparr>trace_write_idx := 0\<rparr>)
        (s\<lparr>g_nodes := ucast (make64 (node_base_lo c) (node_base_hi c)),
           g_cq := ucast (make64 (cq_base_lo c) (cq_base_hi c)),
           g_signals := ucast (make64 (sig_array_base_lo c) (sig_array_base_hi c)),
           g_arg_buf := ucast (make64 (arg_buf_base_lo c) (arg_buf_base_hi c)),
           g_trace := ucast (make64 (trace_base_lo c) (trace_base_hi c)),
           g_trace_size := trace_size c,
           g_trace_enable := trace_enable c\<rparr>))"

fun clear_node_statuses :: "nat list \<Rightarrow> 'c rp1 \<Rightarrow> 'c rp1 option" where
  "clear_node_statuses [] s = Some s"
| "clear_node_statuses (i # is) s = do {
     s \<leftarrow> node_status_write i RP1_NODE_PENDING s;
     clear_node_statuses is s
   }"

text \<open>The result, the two out-parameters and the state.\<close>

definition rp1_store_init :: "'c rp1 \<Rightarrow> (int \<times> u32 \<times> u32 \<times> 'c rp1) option" where
  "rp1_store_init s =
     (case store_config_error (ctrl s) of
        Some (detail, aux) \<Rightarrow> Some (-1, detail, aux, s)
      | None \<Rightarrow>
          (let n = unat (node_count (ctrl s));
               s = rp1_store_reset_graph (resolve_pointers s)
           in do {
             s \<leftarrow> clear_node_statuses [0..<n] s;
             Some (0, 0, 0, s)
           }))"

section \<open>The error latch keeps the first cause\<close>

text \<open>\<open>latched s t\<close>: if \<open>s\<close> holds an error cause, \<open>t\<close> holds the same one.\<close>

definition latched :: "rp1_ctrl \<Rightarrow> rp1_ctrl \<Rightarrow> bool" where
  "latched c d \<longleftrightarrow>
     (rp1_error_code c AND RP1_ERR_CODE_MASK \<noteq> 0 \<longrightarrow>
        rp1_error_code d AND RP1_ERR_CODE_MASK = rp1_error_code c AND RP1_ERR_CODE_MASK \<and>
        terminal_error_node d = terminal_error_node c \<and>
        terminal_error_detail d = terminal_error_detail c \<and>
        terminal_error_aux d = terminal_error_aux c)"

lemma latched_refl [simp]: "latched c c"
  by (simp add: latched_def)

lemma latched_trans: "latched c d \<Longrightarrow> latched d e \<Longrightarrow> latched c e"
  by (auto simp: latched_def)

lemma latched_same:
  "latched c d \<Longrightarrow>
   rp1_error_code e = rp1_error_code d \<Longrightarrow> terminal_error_node e = terminal_error_node d \<Longrightarrow>
   terminal_error_detail e = terminal_error_detail d \<Longrightarrow>
   terminal_error_aux e = terminal_error_aux d \<Longrightarrow> latched c e"
  by (auto simp: latched_def)

lemma latched_latch_error:
  "latched (ctrl s) (ctrl (rp1_latch_error code node detail aux s))"
  by (simp add: rp1_latch_error_def latched_def)

lemma mask_recovery: "(x OR 0x80000000) AND 0x7FFFFFFF = x AND (0x7FFFFFFF :: u32)"
  by (simp add: bit.conj_disj_distrib2)

lemma latched_mark_recovery:
  "latched (ctrl s) (ctrl (rp1_mark_recovery_required s))"
  by (simp add: rp1_mark_recovery_required_def upd_ctrl_def latched_def mask_recovery)

section \<open>Configuration checks in unbounded arithmetic\<close>

lemma is_power_of_two_iff: "is_power_of_two v \<longleftrightarrow> (\<exists>k < 32. v = 2 ^ k)"
proof
  assume "is_power_of_two v"
  then show "\<exists>k < 32. v = 2 ^ k"
    using pow2_word_and [of v] by (simp add: is_power_of_two_def)
next
  assume "\<exists>k < 32. v = 2 ^ k"
  then obtain k where k: "k < 32" "v = 2 ^ k" by blast
  have u: "unat (2 ^ k :: u32) = 2 ^ k" using k by (simp add: unat_pow2)
  have "unat (v AND (2 ^ k - 1)) = 0"
    using k u by (simp add: unat_and_pred_pow2)
  moreover have "v \<noteq> 0" using k u by auto
  ultimately show "is_power_of_two v"
    using k by (simp add: is_power_of_two_def unat_eq_0)
qed

text \<open>The range check has no wrap-around: it is the in-window test on the naturals.\<close>

definition range_spec :: "u32 \<Rightarrow> u32 \<Rightarrow> nat \<Rightarrow> nat \<Rightarrow> bool" where
  "range_spec lo hi len align \<longleftrightarrow> hi = 0 \<and> in_window lo len \<and> align dvd unat lo"

lemma valid_window_range_iff:
  assumes "k < 32"
  shows "valid_window_range lo hi sz (2 ^ k) \<longleftrightarrow> range_spec lo hi (unat sz) (2 ^ k)"
proof -
  have nz: "(2 ^ k :: u32) \<noteq> 0" using unat_pow2 [of k, where 'a=32] assms by auto
  have al: "lo AND (2 ^ k - 1) = 0 \<longleftrightarrow> 2 ^ k dvd unat lo"
    using unat_and_pred_pow2 [of lo k] by (simp add: unat_eq_0 [symmetric] dvd_eq_mod_eq_0)
  show ?thesis
  proof (cases "lo < 0x30000000 \<or> sz > 0x4000000")
    case True
    then show ?thesis
      by (auto simp: valid_window_range_def range_spec_def in_window_def word_less_nat_alt)
  next
    case False
    then have "unat (lo - 0x30000000) = unat lo - 0x30000000"
      and "unat (0x4000000 - sz) = 0x4000000 - unat sz"
      and "0x30000000 \<le> unat lo" and "unat sz \<le> 0x4000000"
      by (simp_all add: unat_sub_if' word_le_nat_alt word_less_nat_alt)
    then show ?thesis using nz al False
      by (auto simp: valid_window_range_def range_spec_def in_window_def word_le_nat_alt)
  qed
qed

text \<open>The configurations the firmware is meant to accept.\<close>

definition config_spec :: "rp1_ctrl \<Rightarrow> bool" where
  "config_spec c \<longleftrightarrow>
     1 \<le> unat (node_count c) \<and> unat (node_count c) \<le> 4096 \<and>
     range_spec (node_base_lo c) (node_base_hi c) (64 * unat (node_count c)) 64 \<and>
     (\<exists>k \<le> 12. unat (cq_size c) = 2 ^ k) \<and>
     range_spec (cq_base_lo c) (cq_base_hi c) (16 * unat (cq_size c)) 16 \<and>
     unat (cq_write_idx c - cq_read_idx c) \<le> unat (cq_size c) \<and>
     range_spec (arg_buf_base_lo c) (arg_buf_base_hi c) 4 4 \<and>
     range_spec (sig_array_base_lo c) (sig_array_base_hi c) (16 * 256) 16 \<and>
     (trace_enable c = 0 \<or>
       (\<exists>k \<le> 12. unat (trace_size c) = 2 ^ k) \<and>
       range_spec (trace_base_lo c) (trace_base_hi c) (16 * unat (trace_size c)) 16)"

lemma ring_size_iff:
  fixes v :: u32
  shows "is_power_of_two v \<and> \<not> v > 4096 \<longleftrightarrow> (\<exists>k \<le> 12. unat v = 2 ^ k)"
proof
  assume "is_power_of_two v \<and> \<not> v > 4096"
  then obtain k where k: "k < 32" "v = 2 ^ k" "unat v \<le> 2 ^ 12"
    by (auto simp: is_power_of_two_iff word_less_nat_alt not_less)
  then have u: "unat v = 2 ^ k" by (simp add: unat_pow2)
  with k(3) have "k \<le> 12" by (metis one_less_numeral_iff power_le_imp_le_exp semiring_norm(76))
  with u show "\<exists>k \<le> 12. unat v = 2 ^ k" by blast
next
  assume "\<exists>k \<le> 12. unat v = 2 ^ k"
  then obtain k where k: "k \<le> 12" "unat v = 2 ^ k" by blast
  then have "v = 2 ^ k" by (simp add: word_unat_eq_iff unat_pow2)
  moreover have "(2::nat) ^ k \<le> 2 ^ 12" using k(1) by (intro power_increasing) simp_all
  ultimately show "is_power_of_two v \<and> \<not> v > 4096"
    using k by (auto simp: is_power_of_two_iff word_less_nat_alt not_less intro!: exI [of _ k])
qed

lemma unat_mult_small:
  fixes v :: u32
  assumes "unat v \<le> 4096"
  shows "unat (v * 64) = 64 * unat v" and "unat (v * 16) = 16 * unat v"
  using assms by (simp_all add: unat_word_ariths)

lemma store_config_error_iff: "store_config_error c = None \<longleftrightarrow> config_spec c"
proof -
  note range = valid_window_range_iff [of 6, simplified] valid_window_range_iff [of 4, simplified]
    valid_window_range_iff [of 2, simplified]
  have cnt: "\<not> (node_count c = 0 \<or> node_count c > 4096) \<longleftrightarrow>
             1 \<le> unat (node_count c) \<and> unat (node_count c) \<le> 4096"
    by (auto simp: word_less_nat_alt Suc_le_eq unat_gt_0 not_less)
  have small: "unat v \<le> 4096" if "\<exists>k \<le> 12. unat v = 2 ^ k" for v :: u32
    using that ring_size_iff [of v] by (simp add: word_less_nat_alt not_less)
  have ring: "is_power_of_two v \<Longrightarrow> \<not> v > 4096 \<Longrightarrow> unat v \<le> 4096" for v :: u32
    by (simp add: word_less_nat_alt not_less)
  show ?thesis
  proof (cases "1 \<le> unat (node_count c) \<and> unat (node_count c) \<le> 4096 \<and>
                (\<exists>k \<le> 12. unat (cq_size c) = 2 ^ k)")
    case True
    then have nc: "\<not> (node_count c = 0 \<or> node_count c > 4096)"
      and cq: "is_power_of_two (cq_size c) \<and> \<not> cq_size c > 4096"
      using cnt ring_size_iff by blast+
    have "unat (node_count c) \<le> 4096" "unat (cq_size c) \<le> 4096"
      using True small by blast+
    note m = unat_mult_small(1) [OF this(1)] unat_mult_small(2) [OF this(2)]
    have tr: "is_power_of_two (trace_size c) \<and> \<not> trace_size c > 4096 \<and>
              valid_window_range lo hi (trace_size c * 16) 16 \<longleftrightarrow>
              (\<exists>k \<le> 12. unat (trace_size c) = 2 ^ k) \<and>
              range_spec lo hi (16 * unat (trace_size c)) 16" for lo hi
      using ring_size_iff [of "trace_size c"] small [of "trace_size c"]
      by (auto simp: range unat_mult_small(2))
    show ?thesis
      using True nc cq tr [of "trace_base_lo c" "trace_base_hi c"] m
      by (auto simp: store_config_error_def config_spec_def range word_less_nat_alt not_less)
  next
    case False
    then have "(node_count c = 0 \<or> node_count c > 4096) \<or>
               (\<not> is_power_of_two (cq_size c) \<or> cq_size c > 4096)"
      using cnt ring_size_iff by blast
    then have "store_config_error c \<noteq> None"
      by (auto simp: store_config_error_def)
    with False show ?thesis unfolding config_spec_def by blast
  qed
qed

section \<open>Initialisation establishes the layout\<close>

text \<open>
  Every region the scanner dereferences lies inside the window: \<open>n\<close> node packets, the
  completion ring, all signal slots, and the trace ring when tracing is on.
\<close>

definition layout_wf :: "nat \<Rightarrow> 'c rp1 \<Rightarrow> bool" where
  "layout_wf n s \<longleftrightarrow>
     0 < n \<and> n \<le> 4096 \<and> in_window (g_nodes s) (64 * n) \<and>
     (\<exists>k \<le> 12. cq_size (ctrl s) = 2 ^ k) \<and>
     in_window (g_cq s) (16 * unat (cq_size (ctrl s))) \<and>
     in_window (g_signals s) (16 * 256) \<and>
     in_window (arg_buf_base_lo (ctrl s)) 4 \<and> 4 dvd unat (arg_buf_base_lo (ctrl s)) \<and>
     g_arg_buf s = arg_buf_base_lo (ctrl s) \<and>
     (g_trace_enable s = 0 \<or> in_window (g_trace s) (16 * unat (g_trace_size s)))"

lemma layout_wf_upd_ctrl:
  assumes "cq_size (f (ctrl s)) = cq_size (ctrl s)"
    and "arg_buf_base_lo (f (ctrl s)) = arg_buf_base_lo (ctrl s)"
  shows "layout_wf n (upd_ctrl f s) = layout_wf n s"
  using assms by (simp add: layout_wf_def upd_ctrl_def)

lemma layout_wf_put [simp]:
  "layout_wf n (put_node_status i st s) = layout_wf n s"
  "layout_wf n (put_signal i v s) = layout_wf n s"
  "layout_wf n (put_cq i e s) = layout_wf n s"
  "layout_wf n (put_trace i te s) = layout_wf n s"
  "layout_wf n (set_barrier b w s) = layout_wf n s"
  by (simp_all add: layout_wf_def put_node_status_def put_signal_def put_cq_def put_trace_def
      set_barrier_def)

lemma layout_wf_node: "layout_wf n s \<Longrightarrow> i < n \<Longrightarrow> in_window (node_addr i s) 64"
  unfolding layout_wf_def node_addr_def by (rule in_window_elem) auto

lemma layout_wf_signal:
  "layout_wf n s \<Longrightarrow> i < 256 \<Longrightarrow> in_window (elem_addr (g_signals s) 16 i) 16"
  unfolding layout_wf_def by (rule in_window_elem) auto

lemma layout_wf_cq:
  "layout_wf n s \<Longrightarrow> i < unat (cq_size (ctrl s)) \<Longrightarrow> in_window (elem_addr (g_cq s) 16 i) 16"
  unfolding layout_wf_def by (rule in_window_elem) auto

lemma layout_wf_trace:
  "layout_wf n s \<Longrightarrow> g_trace_enable s \<noteq> 0 \<Longrightarrow> i < unat (g_trace_size s) \<Longrightarrow>
   in_window (elem_addr (g_trace s) 16 i) 16"
  unfolding layout_wf_def by (rule in_window_elem) auto

text \<open>Distinct node indices have distinct addresses, so a status write hits one packet.\<close>

lemma node_ref_put_node_status:
  assumes "layout_wf n s" and "i < n" and "j < n"
  shows "node_ref j (put_node_status i st s) =
         (if i = j then (node_ref j s)\<lparr>nstatus := st\<rparr> else node_ref j s)"
  using assms elem_addr_inj [of "g_nodes s" 64 n i j]
  by (auto simp: node_ref_def put_node_status_def node_addr_def layout_wf_def)

text \<open>What a status write leaves alone.\<close>

definition same_but_status :: "'c rp1 \<Rightarrow> 'c rp1 \<Rightarrow> bool" where
  "same_but_status s t \<longleftrightarrow> (\<exists>f. t = s\<lparr>ddr := (ddr s)\<lparr>d_nodes := f\<rparr>\<rparr>)"

lemma same_but_status_put:
  "same_but_status (put_node_status i st s) t \<Longrightarrow> same_but_status s t"
  by (auto simp: same_but_status_def put_node_status_def)

lemma clear_node_statuses_ok:
  assumes "layout_wf n s" and "set is \<subseteq> {..<n}"
  shows "ok (clear_node_statuses is s) (\<lambda>t. layout_wf n t \<and> same_but_status s t \<and>
           (\<forall>i \<in> set is. node_ref i t = (node_ref i s)\<lparr>nstatus := RP1_NODE_PENDING\<rparr>) \<and>
           (\<forall>i < n. i \<notin> set is \<longrightarrow> node_ref i t = node_ref i s))"
  using assms
proof (induction "is" arbitrary: s)
  case Nil
  then show ?case by (auto simp: same_but_status_def intro: exI [of _ "d_nodes (ddr s)"])
next
  case (Cons i "is")
  let ?t = "put_node_status i RP1_NODE_PENDING s"
  have i: "i < n" using Cons.prems(2) by simp
  have "layout_wf n ?t" using Cons.prems(1) by simp
  from Cons.IH [OF this] have "ok (clear_node_statuses is ?t) (\<lambda>t. layout_wf n t \<and>
      same_but_status ?t t \<and>
      (\<forall>i \<in> set is. node_ref i t = (node_ref i ?t)\<lparr>nstatus := RP1_NODE_PENDING\<rparr>) \<and>
      (\<forall>i < n. i \<notin> set is \<longrightarrow> node_ref i t = node_ref i ?t))"
    using Cons.prems(2) by simp
  then have "ok (clear_node_statuses is ?t) (\<lambda>t. layout_wf n t \<and> same_but_status s t \<and>
      (\<forall>j \<in> set (i # is). node_ref j t = (node_ref j s)\<lparr>nstatus := RP1_NODE_PENDING\<rparr>) \<and>
      (\<forall>j < n. j \<notin> set (i # is) \<longrightarrow> node_ref j t = node_ref j s))"
    using Cons.prems(2) i
    by (elim ok_mono) (auto simp: node_ref_put_node_status [OF Cons.prems(1)] subset_iff
        dest: same_but_status_put)
  then show ?case
    using layout_wf_node [OF Cons.prems(1) i] by (simp add: node_status_write_def)
qed

lemma ucast_make64: "ucast (make64 lo hi) = lo"
  by (rule bit_word_eqI)
    (auto simp: make64_def bit_simps)

lemma resolve_layout:
  assumes "config_spec (ctrl s)"
  shows "layout_wf (unat (node_count (ctrl s))) (rp1_store_reset_graph (resolve_pointers s))"
proof -
  obtain k where k: "k \<le> 12" "unat (cq_size (ctrl s)) = 2 ^ k"
    using assms by (auto simp: config_spec_def)
  then have "cq_size (ctrl s) = 2 ^ k" by (simp add: word_unat_eq_iff unat_pow2)
  with k(1) have pow: "\<exists>k \<le> 12. cq_size (ctrl s) = 2 ^ k" by blast
  show ?thesis
    using assms pow
    by (auto simp: layout_wf_def rp1_store_reset_graph_def resolve_pointers_def Let_def upd_ctrl_def
        ucast_make64 config_spec_def range_spec_def)
qed

lemma rp1_store_init_outcome:
  "ok (rp1_store_init s) (\<lambda>(r, detail, aux, t).
     if config_spec (ctrl s)
     then r = 0 \<and> layout_wf (unat (node_count (ctrl s))) t \<and>
          same_but_status (rp1_store_reset_graph (resolve_pointers s)) t \<and>
          (\<forall>i < unat (node_count (ctrl s)). nstatus (node_ref i t) = RP1_NODE_PENDING)
     else r = -1 \<and> store_config_error (ctrl s) = Some (detail, aux) \<and> t = s)"
proof (cases "config_spec (ctrl s)")
  case True
  then have "store_config_error (ctrl s) = None" by (simp add: store_config_error_iff)
  then show ?thesis
    using True clear_node_statuses_ok [OF resolve_layout [OF True],
        of "[0..<unat (node_count (ctrl s))]"]
    by (auto simp: rp1_store_init_def Let_def atLeast0LessThan elim!: ok_mono)
next
  case False
  then obtain detail aux where "store_config_error (ctrl s) = Some (detail, aux)"
    using store_config_error_iff [of "ctrl s"] by fastforce
  with False show ?thesis by (simp add: rp1_store_init_def)
qed

end
