(* ===== verification/Rp1_Loop.thy ===== *)
theory Rp1_Loop
  imports Rp1_Store
begin

unbundle bit_operations_syntax

text \<open>
  The graph dispatch loop of the RP1 firmware, function by function from
  \<^verbatim>\<open>linker/slashkit/resources/aved/rp1/src/rp1_loop.c\<close>: condition evaluation, the completion
  queue, the trace ring, the in-flight kernel table, kernel launch, the immediate opcodes,
  packet validation, the three phases of a scan pass, quiescence and the loop itself.

  Operations run in the option monad on the firmware state; \<open>None\<close> is an access out of bounds
  (or a PDI poll that never ends). The two loops that wait for the outside world, quiescence
  and the scan loop, take fuel: one unit per pass, and a result that says whether they
  returned. \<open>on_scan_pass\<close> is called where the source calls it, and stands for what the host
  does to the shared window between passes.
\<close>

section \<open>HAL accesses on the firmware state\<close>

definition mmio_read :: "'c rp1_env \<Rightarrow> u32 \<Rightarrow> 'c rp1 \<Rightarrow> u32 \<times> 'c rp1" where
  "mmio_read E a s = (let (v, c) = rp1_mmio_read32 E a (ctx s) in (v, s\<lparr>ctx := c\<rparr>))"

definition mmio_write :: "'c rp1_env \<Rightarrow> u32 \<Rightarrow> u32 \<Rightarrow> 'c rp1 \<Rightarrow> 'c rp1" where
  "mmio_write E a v s = s\<lparr>ctx := rp1_mmio_write32 E a v (ctx s)\<rparr>"

definition fence :: "'c rp1_env \<Rightarrow> 'c rp1 \<Rightarrow> 'c rp1" where
  "fence E s = s\<lparr>ctx := rp1_barrier E (ctx s)\<rparr>"

definition read_cycles :: "'c rp1_env \<Rightarrow> 'c rp1 \<Rightarrow> u32 \<times> 'c rp1" where
  "read_cycles E s = (let (v, c) = rp1_cycles E (ctx s) in (v, s\<lparr>ctx := c\<rparr>))"

section \<open>Condition evaluation\<close>

definition compare :: "u32 \<Rightarrow> u16 \<Rightarrow> u32 \<Rightarrow> bool" where
  "compare sig op val =
     (if op = RP1_COP_EQ then sig = val
      else if op = RP1_COP_NE then sig \<noteq> val
      else if op = RP1_COP_LT then sig < val
      else if op = RP1_COP_GE then sig \<ge> val
      else if op = RP1_COP_AND_NZ then sig AND val \<noteq> 0
      else if op = RP1_COP_AND_Z then sig AND val = 0
      else False)"

section \<open>Completion queue and trace\<close>

definition cq_can_write :: "u16 \<Rightarrow> 'c rp1 \<Rightarrow> int \<times> 'c rp1" where
  "cq_can_write fl s =
     (if fl AND RP1_FLAG_SILENT \<noteq> 0 then (1, s)
      else let used = cq_write_idx (ctrl s) - cq_read_idx (ctrl s) in
        if used > cq_size (ctrl s)
        then (-1, rp1_latch_error RP1_ERR_CQ_CORRUPT RP1_TERMINAL_ERROR_NODE_NONE
                    used (cq_size (ctrl s)) s)
        else (if used \<noteq> cq_size (ctrl s) then 1 else 0, s))"

definition write_cq_entry ::
  "'c rp1_env \<Rightarrow> u16 \<Rightarrow> u32 \<Rightarrow> u32 \<Rightarrow> u32 \<Rightarrow> 'c rp1 \<Rightarrow> (int \<times> 'c rp1) option" where
  "write_cq_entry E fl node_index status error_detail s =
     (let (available, s) = cq_can_write fl s in
      if available \<le> 0 then Some (available, s)
      else if fl AND RP1_FLAG_SILENT \<noteq> 0 then Some (1, s)
      else let idx = cq_write_idx (ctrl s) AND (cq_size (ctrl s) - 1);
               (now, s) = read_cycles E s
           in do {
             s \<leftarrow> cq_write (unat idx) \<lparr>cqe_node_index = node_index, cqe_status = status,
                    cqe_error_detail = error_detail,
                    cqe_timestamp = now - g_graph_start_cycles s\<rparr> s;
             let s = fence E s;
             let s = upd_ctrl (\<lambda>c. c\<lparr>cq_write_idx := cq_write_idx c + 1\<rparr>) s;
             Some (1, fence E s)
           })"

definition trace :: "'c rp1_env \<Rightarrow> u16 \<Rightarrow> u32 \<Rightarrow> u32 \<Rightarrow> u32 \<Rightarrow> 'c rp1 \<Rightarrow> 'c rp1 option" where
  "trace E event node_index aux0 aux1 s =
     (if g_trace_enable s = 0 \<or> g_trace s = 0 \<or> g_trace_size s = 0 then Some s
      else let idx = trace_write_idx (ctrl s) mod g_trace_size s;
               (now, s) = read_cycles E s
           in do {
             s \<leftarrow> trace_write (unat idx) \<lparr>tre_timestamp = now - g_graph_start_cycles s,
                    tre_event = event, tre_node_index = ucast node_index,
                    tre_aux0 = aux0, tre_aux1 = aux1\<rparr> s;
             let s = fence E s;
             let s = upd_ctrl (\<lambda>c. c\<lparr>trace_write_idx := trace_write_idx c + 1\<rparr>) s;
             Some (fence E s)
           })"

section \<open>In-flight kernels and node status\<close>

definition inflight_read :: "nat \<Rightarrow> 'c rp1 \<Rightarrow> rp1_inflight option" where
  "inflight_read i s = (if i < unat RP1_MAX_INFLIGHT then Some (g_inflight s i) else None)"

definition kernel_timeout :: "'c rp1_env \<Rightarrow> rp1_payload \<Rightarrow> u32" where
  "kernel_timeout E p =
     (if kd_timeout_cycles p \<noteq> 0 then kd_timeout_cycles p
      else rp1_default_kernel_timeout_ticks E)"

definition push_inflight :: "rp1_inflight \<Rightarrow> 'c rp1 \<Rightarrow> 'c rp1" where
  "push_inflight k s =
     s\<lparr>g_inflight := (g_inflight s)(unat (g_inflight_count s) := k),
       g_inflight_count := g_inflight_count s + 1\<rparr>"

definition add_inflight :: "'c rp1_env \<Rightarrow> rp1_node \<Rightarrow> nat \<Rightarrow> 'c rp1 \<Rightarrow> 'c rp1 option" where
  "add_inflight E node i s =
     (if unat (g_inflight_count s) < unat RP1_MAX_INFLIGHT
      then let (now, s) = read_cycles E s in
           Some (push_inflight
             \<lparr>ki_base_addr = kd_kernel_base_addr (payload node), ki_node_index = of_nat i,
              ki_set_mask = barrier_set_mask node, ki_timeout_start = now,
              ki_timeout_cycles = kernel_timeout E (payload node),
              ki_set_bucket = barrier_set_bucket node,
              ki_infinite = (if flags node AND RP1_FLAG_INFINITE \<noteq> 0 then 1 else 0),
              ki_settle_polls = 0\<rparr> s)
      else None)"

definition remove_inflight :: "nat \<Rightarrow> 'c rp1 \<Rightarrow> 'c rp1" where
  "remove_inflight idx s =
     (let s = s\<lparr>g_inflight_count := g_inflight_count s - 1\<rparr> in
      if idx < unat (g_inflight_count s)
      then s\<lparr>g_inflight := (g_inflight s)(idx := g_inflight s (unat (g_inflight_count s)))\<rparr>
      else s)"

definition status_read :: "nat \<Rightarrow> 'c rp1 \<Rightarrow> u8 option" where
  "status_read i s = (if i < unat RP1_MAX_NODES then Some (g_node_status s i) else None)"

definition put_status :: "nat \<Rightarrow> u16 \<Rightarrow> 'c rp1 \<Rightarrow> 'c rp1" where
  "put_status i st s = put_node_status i st (s\<lparr>g_node_status := (g_node_status s)(i := ucast st)\<rparr>)"

definition set_node_status :: "nat \<Rightarrow> u16 \<Rightarrow> 'c rp1 \<Rightarrow> 'c rp1 option" where
  "set_node_status i st s =
     (if i < unat RP1_MAX_NODES \<and> in_window (node_addr i s) 64 then Some (put_status i st s)
      else None)"

text \<open>\<open>g_barriers[b] |= m\<close>.\<close>

definition raise_barrier :: "u8 \<Rightarrow> u32 \<Rightarrow> 'c rp1 \<Rightarrow> 'c rp1 option" where
  "raise_barrier b m s = do {
     v \<leftarrow> barrier_read (unat b) s;
     barrier_write (unat b) (v OR m) s
   }"

section \<open>Kernel launch\<close>

fun write_args :: "'c rp1_env \<Rightarrow> u32 \<Rightarrow> u32 \<Rightarrow> nat list \<Rightarrow> 'c rp1 \<Rightarrow> 'c rp1 option" where
  "write_args E base args [] s = Some s"
| "write_args E base args (i # is) s = do {
     off \<leftarrow> arg_read (elem_addr args 8 i) s;
     v \<leftarrow> arg_read (elem_addr args 8 i + 4) s;
     write_args E base args is (mmio_write E (base + off) v s)
   }"

definition launch_kernel :: "'c rp1_env \<Rightarrow> rp1_node \<Rightarrow> 'c rp1 \<Rightarrow> 'c rp1 option" where
  "launch_kernel E node s =
     (let p = payload node;
          base = kd_kernel_base_addr p;
          args = g_arg_buf s + 4 * (kd_arg_buffer_offset p div 4);
          s = snd (mmio_read E (base + 0) s);
          s = fence E s
      in do {
        s \<leftarrow> write_args E base args [0..<unat (kd_arg_count p)] s;
        let s = fence E s;
        Some (mmio_write E (base + 0) 1 s)
      })"

section \<open>Immediate opcodes\<close>

fun scalar_writes :: "'c rp1_env \<Rightarrow> (u32 \<times> u32) list \<Rightarrow> 'c rp1 \<Rightarrow> 'c rp1" where
  "scalar_writes E [] s = s"
| "scalar_writes E ((a, v) # ws) s =
     (if a = 0 then s else scalar_writes E ws (mmio_write E a v s))"

fun dma_copy :: "u32 \<Rightarrow> u32 \<Rightarrow> nat list \<Rightarrow> 'c rp1 \<Rightarrow> 'c rp1" where
  "dma_copy src dst [] s = s"
| "dma_copy src dst (w # ws) s =
     dma_copy src dst ws (s\<lparr>ddr := (ddr s)\<lparr>d_mem :=
       (d_mem (ddr s))(elem_addr dst 4 w := d_mem (ddr s) (elem_addr src 4 w))\<rparr>\<rparr>)"

fun dma_fill :: "u32 \<Rightarrow> u32 \<Rightarrow> nat list \<Rightarrow> 'c rp1 \<Rightarrow> 'c rp1" where
  "dma_fill dst v [] s = s"
| "dma_fill dst v (w # ws) s =
     dma_fill dst v ws (s\<lparr>ddr := (ddr s)\<lparr>d_mem := (d_mem (ddr s))(elem_addr dst 4 w := v)\<rparr>\<rparr>)"

definition signal_op :: "u16 \<Rightarrow> u32 \<Rightarrow> u32 \<Rightarrow> u32" where
  "signal_op op old v =
     (if op = RP1_SIGOP_SET then v
      else if op = RP1_SIGOP_ADD then old + v
      else if op = RP1_SIGOP_OR then old OR v
      else if op = RP1_SIGOP_AND then old AND v
      else old)"

definition execute_immediate :: "'c rp1_env \<Rightarrow> rp1_node \<Rightarrow> nat \<Rightarrow> 'c rp1 \<Rightarrow> 'c rp1 option" where
  "execute_immediate E node i s =
     (let p = payload node; opc = opcode node in
      if opc = RP1_OP_NOP then Some s
      else if opc = RP1_OP_SIGNAL then do {
        slot \<leftarrow> signal_read (unat (sg_target_slot p)) s;
        signal_write (unat (sg_target_slot p))
          (slot\<lparr>sig_value := signal_op (sg_operation p) (sig_value slot) (sg_value p),
                sig_last_writer_node := of_nat i\<rparr>) s
      }
      else if opc = RP1_OP_SCALAR_WRITE then
        Some (fence E (scalar_writes E (sw_writes p) s))
      else if opc = RP1_OP_SCALAR_READ then do {
        let (v, s) = mmio_read E (sr_source_addr p) s;
        slot \<leftarrow> signal_read (unat (sr_target_slot p)) s;
        signal_write (unat (sr_target_slot p))
          (slot\<lparr>sig_value := v, sig_last_writer_node := of_nat i\<rparr>) s
      }
      else if opc = RP1_OP_SCALAR_COPY then do {
        slot \<leftarrow> signal_read (unat (sc_source_slot p)) s;
        Some (fence E (mmio_write E (sc_dest_addr p) (sig_value slot) s))
      }
      else if opc = RP1_OP_DMA_COPY then
        Some (fence E (dma_copy (dc_src_addr_lo p) (dc_dst_addr_lo p)
                         [0..<unat (dc_length p div 4)] s))
      else if opc = RP1_OP_DMA_FILL then
        Some (fence E (dma_fill (df_dst_addr_lo p) (df_pattern p)
                         [0..<unat (df_length p div 4)] s))
      else Some s)"

section \<open>Packet validation\<close>

definition valid_condition :: "u16 \<Rightarrow> bool" where
  "valid_condition op \<longleftrightarrow> op \<le> RP1_COP_AND_Z"

definition valid_signal_slot :: "u32 \<Rightarrow> bool" where
  "valid_signal_slot slot \<longleftrightarrow> slot < RP1_MAX_SIGNALS"

text \<open>
  The body of the loop in \<open>validate_nodes\<close>: what is wrong with one packet, as (detail, aux).
\<close>

definition node_error :: "u32 \<Rightarrow> u32 \<Rightarrow> rp1_node \<Rightarrow> (u32 \<times> u32) option" where
  "node_error cnt arg_available node =
     (let p = payload node; opc = opcode node in
      if unat (barrier_await_bucket node) \<ge> unat RP1_MAX_BUCKETS \<or>
         unat (barrier_set_bucket node) \<ge> unat RP1_MAX_BUCKETS
      then Some (RP1_NODE_BAD_BARRIER,
                 push_bit 8 (ucast (barrier_await_bucket node)) OR ucast (barrier_set_bucket node))
      else if opc = RP1_OP_NOP \<or> opc = RP1_OP_SCALAR_WRITE \<or> opc = RP1_OP_DMA_COPY \<or>
              opc = RP1_OP_DMA_FILL \<or> opc = RP1_OP_HALT then None
      else if opc = RP1_OP_SIGNAL then
        (if \<not> valid_signal_slot (sg_target_slot p)
         then Some (RP1_NODE_BAD_SIGNAL_SLOT, sg_target_slot p)
         else if sg_operation p > RP1_SIGOP_AND
         then Some (RP1_NODE_BAD_OPERATION, ucast (sg_operation p))
         else None)
      else if opc = RP1_OP_WAIT then
        (if \<not> valid_signal_slot (wt_condition_signal p)
         then Some (RP1_NODE_BAD_SIGNAL_SLOT, wt_condition_signal p)
         else if \<not> valid_condition (wt_condition_op p)
         then Some (RP1_NODE_BAD_OPERATION, ucast (wt_condition_op p))
         else None)
      else if opc = RP1_OP_SCALAR_READ then
        (if valid_signal_slot (sr_target_slot p) then None
         else Some (RP1_NODE_BAD_SIGNAL_SLOT, sr_target_slot p))
      else if opc = RP1_OP_SCALAR_COPY then
        (if valid_signal_slot (sc_source_slot p) then None
         else Some (RP1_NODE_BAD_SIGNAL_SLOT, sc_source_slot p))
      else if opc = RP1_OP_KERNEL_DISPATCH then
        (let bytes = ucast (kd_arg_count p) * 8 in
         if kd_kernel_base_addr p \<noteq> 0 \<and>
            kd_arg_buffer_offset p AND 7 = 0 \<and>
            kd_arg_buffer_offset p \<le> arg_available \<and>
            bytes \<le> arg_available - kd_arg_buffer_offset p
         then None
         else Some (RP1_NODE_BAD_ARGUMENTS, kd_arg_buffer_offset p))
      else if opc = RP1_OP_PDI_LOAD then
        (if flags node AND RP1_FLAG_SILENT = 0 then None
         else Some (RP1_NODE_PDI_WITHOUT_CQ, 0))
      else if opc = RP1_OP_LOOP then
        (if valid_signal_slot (lp_condition_signal p) \<and>
            valid_condition (lp_condition_op p) \<and>
            unat (lp_loop_id p) < unat RP1_MAX_LOOPS \<and>
            lp_body_start p \<le> lp_body_end p \<and>
            lp_body_end p < cnt \<and>
            lp_bucket_clear_start p \<le> lp_bucket_clear_end p \<and>
            unat (lp_bucket_clear_end p) < unat RP1_MAX_BUCKETS
         then None
         else Some (if valid_signal_slot (lp_condition_signal p)
                    then (RP1_NODE_BAD_LOOP_CONFIG, lp_body_end p)
                    else (RP1_NODE_BAD_SIGNAL_SLOT, lp_condition_signal p)))
      else if opc = RP1_OP_COND then
        (let empty_body = cd_body_start p > cd_body_end p;
             empty_buckets = cd_bucket_clear_start p > cd_bucket_clear_end p
         in
         if valid_signal_slot (cd_condition_signal p) \<and>
            valid_condition (cd_condition_op p) \<and>
            unat (cd_done_bucket p) < unat RP1_MAX_BUCKETS \<and>
            (empty_body \<or> cd_body_end p < cnt) \<and>
            (empty_buckets \<or> unat (cd_bucket_clear_end p) < unat RP1_MAX_BUCKETS)
         then None
         else Some (if valid_signal_slot (cd_condition_signal p)
                    then (RP1_NODE_BAD_LOOP_CONFIG, cd_body_end p)
                    else (RP1_NODE_BAD_SIGNAL_SLOT, cd_condition_signal p)))
      else if opc = RP1_OP_RERUN then
        (if rr_target_node p < cnt \<and>
            (rr_rerun_flags p AND RP1_RERUN_CLEAR_STATE = 0 \<or>
             unat (rr_loop_id p) < unat RP1_MAX_LOOPS)
         then None
         else Some (RP1_NODE_BAD_TARGET, rr_target_node p))
      else Some (RP1_NODE_BAD_OPERATION, ucast opc))"

definition arg_available :: "'c rp1 \<Rightarrow> u32" where
  "arg_available s = RP1_CTRL_PHYS_ADDR + RP1_CTRL_WINDOW_SIZE - arg_buf_base_lo (ctrl s)"

text \<open>The first bad packet as (index, detail, aux); \<open>Some None\<close> when all packets pass.\<close>

fun validate_from ::
  "u32 \<Rightarrow> nat list \<Rightarrow> 'c rp1 \<Rightarrow> (nat \<times> u32 \<times> u32) option option" where
  "validate_from cnt [] s = Some None"
| "validate_from cnt (i # is) s = do {
     node \<leftarrow> node_read i s;
     (case node_error cnt (arg_available s) node of
        Some (detail, aux) \<Rightarrow> Some (Some (i, detail, aux))
      | None \<Rightarrow> validate_from cnt is s)
   }"

definition validate_nodes :: "u32 \<Rightarrow> 'c rp1 \<Rightarrow> (nat \<times> u32 \<times> u32) option option" where
  "validate_nodes cnt s = validate_from cnt [0..<unat cnt] s"

section \<open>Polling in-flight kernels\<close>

text \<open>
  What one iteration of the loop in \<open>check_inflight\<close> does next: move on to the next entry,
  stay (the entry was replaced by the last one), or return -1.
\<close>

datatype poll_step = Advance | Removed | Fatal

definition finish_inflight ::
  "'c rp1_env \<Rightarrow> nat \<Rightarrow> rp1_inflight \<Rightarrow> u16 \<Rightarrow> 'c rp1 \<Rightarrow> (poll_step \<times> 'c rp1) option" where
  "finish_inflight E i k fl s = do {
     (r, s) \<leftarrow> (if ki_infinite k = 0 then do {
                   s \<leftarrow> set_node_status (unat (ki_node_index k)) RP1_NODE_DONE s;
                   s \<leftarrow> raise_barrier (ki_set_bucket k) (ki_set_mask k) s;
                   write_cq_entry E fl (ki_node_index k) RP1_CQ_OK 0 s
                 } else Some (1, s));
     if r < 0 then Some (Fatal, s)
     else do {
       s \<leftarrow> trace E RP1_TRACE_KERNEL_DONE (ki_node_index k) (ki_base_addr k)
              (ucast (ki_infinite k)) s;
       Some (Removed, remove_inflight i s)
     }
   }"

definition expire_inflight ::
  "'c rp1_env \<Rightarrow> nat \<Rightarrow> rp1_inflight \<Rightarrow> u16 \<Rightarrow> 'c rp1 \<Rightarrow> (poll_step \<times> 'c rp1) option" where
  "expire_inflight E i k fl s = do {
     s \<leftarrow> set_node_status (unat (ki_node_index k)) RP1_NODE_ERROR s;
     let s = rp1_latch_error RP1_ERR_KERNEL_TIMEOUT (ki_node_index k)
               (ki_base_addr k) (ki_timeout_cycles k) s;
     (r, s) \<leftarrow> write_cq_entry E fl (ki_node_index k) RP1_CQ_TIMEOUT (ki_base_addr k) s;
     if r < 0 then Some (Fatal, s)
     else do {
       s \<leftarrow> trace E RP1_TRACE_KERNEL_TIMEOUT (ki_node_index k) (ki_base_addr k)
              (ki_timeout_cycles k) s;
       if fl AND RP1_FLAG_HALT_ON_ERROR \<noteq> 0 then Some (Fatal, s)
       else do {
         s \<leftarrow> raise_barrier (ki_set_bucket k) (ki_set_mask k) s;
         Some (Removed, remove_inflight i s)
       }
     }
   }"

definition check_inflight_one ::
  "'c rp1_env \<Rightarrow> nat \<Rightarrow> 'c rp1 \<Rightarrow> (poll_step \<times> 'c rp1) option" where
  "check_inflight_one E i s = do {
     k \<leftarrow> inflight_read i s;
     node \<leftarrow> node_read (unat (ki_node_index k)) s;
     let fl = flags node;
     let (available, s) = cq_can_write fl s;
     if available < 0 then Some (Fatal, s)
     else if ki_infinite k = 0 \<and> available = 0 then Some (Advance, s\<lparr>g_cq_blocked := 1\<rparr>)
     else do {
       let (control, s) = mmio_read E (ki_base_addr k + 0) s;
       if control AND 2 \<noteq> 0 then finish_inflight E i k fl s
       else do {
         let (now, s) = read_cycles E s;
         if rp1_timeout_elapsed (ki_timeout_start k) (ki_timeout_cycles k) now then
           (if available = 0 then Some (Advance, s\<lparr>g_cq_blocked := 1\<rparr>)
            else expire_inflight E i k fl s)
         else Some (Advance, s)
       }
     }
   }"

text \<open>
  Each iteration advances the index or removes an entry, so the number of tracked kernels is
  enough fuel; running out of it would be \<open>None\<close>.
\<close>

fun check_inflight_loop ::
  "'c rp1_env \<Rightarrow> nat \<Rightarrow> nat \<Rightarrow> bool \<Rightarrow> 'c rp1 \<Rightarrow> (int \<times> 'c rp1) option" where
  "check_inflight_loop E fuel i made_progress s =
     (if i < unat (g_inflight_count s) then
        (case fuel of
           0 \<Rightarrow> None
         | Suc fuel \<Rightarrow> do {
             (r, s) \<leftarrow> check_inflight_one E i s;
             (case r of
                Advance \<Rightarrow> check_inflight_loop E fuel (i + 1) made_progress s
              | Removed \<Rightarrow> check_inflight_loop E fuel i True s
              | Fatal \<Rightarrow> Some (-1, s))
           })
      else Some (if made_progress then 1 else 0, s))"

declare check_inflight_loop.simps [simp del]

definition check_inflight :: "'c rp1_env \<Rightarrow> 'c rp1 \<Rightarrow> (int \<times> 'c rp1) option" where
  "check_inflight E s = check_inflight_loop E (unat (g_inflight_count s)) 0 False s"

section \<open>Node activation\<close>

text \<open>One node of a scan: go on with the next one (with or without progress), or return.\<close>

datatype scan_step = Next bool | Ret int

text \<open>
  The epilogue most opcodes share: status DONE, raise the barriers, publish a completion.
\<close>

definition complete_node ::
  "'c rp1_env \<Rightarrow> rp1_node \<Rightarrow> nat \<Rightarrow> 'c rp1 \<Rightarrow> (scan_step \<times> 'c rp1) option" where
  "complete_node E node i s = do {
     s \<leftarrow> set_node_status i RP1_NODE_DONE s;
     s \<leftarrow> raise_barrier (barrier_set_bucket node) (barrier_set_mask node) s;
     (r, s) \<leftarrow> write_cq_entry E (flags node) (of_nat i) RP1_CQ_OK 0 s;
     Some (if r < 0 then Ret (-1) else Next True, s)
   }"

definition activate_image_mismatch ::
  "'c rp1_env \<Rightarrow> rp1_node \<Rightarrow> nat \<Rightarrow> 'c rp1 \<Rightarrow> (scan_step \<times> 'c rp1) option" where
  "activate_image_mismatch E node i s = do {
     let expected = kd_expected_image_id (payload node);
     s \<leftarrow> set_node_status i RP1_NODE_ERROR s;
     let s = rp1_latch_error RP1_ERR_IMAGE_MISMATCH (of_nat i) expected (g_active_image_id s) s;
     (r, s) \<leftarrow> write_cq_entry E (flags node) (of_nat i) RP1_CQ_ERROR (g_active_image_id s) s;
     if r < 0 then Some (Ret (-1), s)
     else do {
       s \<leftarrow> trace E RP1_TRACE_IMAGE_MISMATCH (of_nat i) expected (g_active_image_id s) s;
       if flags node AND RP1_FLAG_HALT_ON_ERROR \<noteq> 0 then Some (Ret (-1), s)
       else do {
         s \<leftarrow> raise_barrier (barrier_set_bucket node) (barrier_set_mask node) s;
         Some (Next True, s)
       }
     }
   }"

definition activate_kernel ::
  "'c rp1_env \<Rightarrow> rp1_node \<Rightarrow> nat \<Rightarrow> 'c rp1 \<Rightarrow> (scan_step \<times> 'c rp1) option" where
  "activate_kernel E node i s =
     (let p = payload node in
      if kd_expected_image_id p \<noteq> 0 \<and> kd_expected_image_id p \<noteq> g_active_image_id s
      then activate_image_mismatch E node i s
      else if g_inflight_count s \<ge> RP1_MAX_INFLIGHT then do {
        s \<leftarrow> set_node_status i RP1_NODE_ERROR s;
        let s = rp1_latch_error RP1_ERR_INFLIGHT_FULL (of_nat i)
                  (g_inflight_count s) RP1_MAX_INFLIGHT s;
        (r, s) \<leftarrow> write_cq_entry E (flags node) (of_nat i) RP1_CQ_ERROR (g_inflight_count s) s;
        Some (Ret (-1), s)
      }
      else do {
        s \<leftarrow> launch_kernel E node s;
        s \<leftarrow> trace E RP1_TRACE_KERNEL_LAUNCH (of_nat i) (kd_kernel_base_addr p)
               (ucast (kd_arg_count p)) s;
        (r, s) \<leftarrow> (if flags node AND RP1_FLAG_INFINITE \<noteq> 0 then do {
                      s \<leftarrow> set_node_status i RP1_NODE_DONE s;
                      s \<leftarrow> raise_barrier (barrier_set_bucket node) (barrier_set_mask node) s;
                      write_cq_entry E (flags node) (of_nat i) RP1_CQ_OK 0 s
                    } else do {
                      s \<leftarrow> set_node_status i RP1_NODE_DISPATCHED s;
                      Some (1, s)
                    });
        if r < 0 then Some (Ret (-1), s)
        else do {
          s \<leftarrow> add_inflight E node i s;
          Some (Next True, s)
        }
      })"

definition activate_pdi ::
  "'c rp1_env \<Rightarrow> rp1_node \<Rightarrow> nat \<Rightarrow> 'c rp1 \<Rightarrow> (scan_step \<times> 'c rp1) option" where
  "activate_pdi E node i s = do {
     let p = payload node;
     (result, c) \<leftarrow> rp1_pdi_load E (pl_pdi_addr_lo p) (pl_pdi_addr_hi p) (pl_timeout_cycles p)
                     (ctx s);
     let s = s\<lparr>ctx := c\<rparr>;
     s \<leftarrow> trace E RP1_TRACE_PDI_LOAD (of_nat i) (pdi_status result) (pdi_detail result) s;
     if pdi_outcome result = RP1_PDI_RESULT_OK
     then complete_node E node i (s\<lparr>g_active_image_id := pl_image_id p\<rparr>)
     else do {
       s \<leftarrow> set_node_status i RP1_NODE_ERROR s;
       (r, s) \<leftarrow> (if pdi_outcome result = RP1_PDI_RESULT_TIMEOUT
                  then write_cq_entry E (flags node) (of_nat i) RP1_CQ_TIMEOUT 0
                         (rp1_latch_error RP1_ERR_PDI_TIMEOUT (of_nat i) 0
                            (pdi_timeout E (pl_timeout_cycles p)) s)
                  else write_cq_entry E (flags node) (of_nat i) RP1_CQ_ERROR (pdi_status result)
                         (rp1_latch_error RP1_ERR_PDI_FAILED (of_nat i) (pdi_status result)
                            (pdi_detail result) s));
       if r < 0 then Some (Ret (-1), s)
       else if flags node AND RP1_FLAG_HALT_ON_ERROR \<noteq> 0 then Some (Ret (-1), s)
       else do {
         s \<leftarrow> raise_barrier (barrier_set_bucket node) (barrier_set_mask node) s;
         Some (Next True, s)
       }
     }
   }"

text \<open>
  \<open>for (uint8_t b = b0; b <= e; b++) g_barriers[b] = 0\<close>. The counter has eight bits, so the
  loop ends only because an index past the array is never reached.
\<close>

function clear_buckets :: "u8 \<Rightarrow> u8 \<Rightarrow> 'c rp1 \<Rightarrow> 'c rp1 option" where
  "clear_buckets b e s =
     (if b \<le> e
      then if unat b < unat RP1_MAX_BUCKETS
           then clear_buckets (b + 1) e (set_barrier (unat b) 0 s)
           else None
      else Some s)"
  by auto
termination
proof (relation "measure (\<lambda>(b, e, s). 32 - unat b)")
  fix b e :: u8 and s :: "'c rp1"
  assume "unat b < unat RP1_MAX_BUCKETS"
  then have "unat (b + 1) = unat b + 1" and "unat b < 32"
    by (simp_all add: unat_word_ariths)
  then show "((b + 1, e, set_barrier (unat b) 0 s), (b, e, s)) \<in> measure (\<lambda>(b, e, s). 32 - unat b)"
    by simp
qed simp

text \<open>\<open>for (uint32_t n = n0; n <= e; n++) set_node_status(n, RP1_NODE_PENDING)\<close>.\<close>

function rearm_nodes :: "u32 \<Rightarrow> u32 \<Rightarrow> 'c rp1 \<Rightarrow> 'c rp1 option" where
  "rearm_nodes n e s =
     (if n \<le> e
      then if unat n < unat RP1_MAX_NODES
           then do {
             s \<leftarrow> set_node_status (unat n) RP1_NODE_PENDING s;
             rearm_nodes (n + 1) e s
           }
           else None
      else Some s)"
  by auto
termination
proof (relation "measure (\<lambda>(n, e, s). 4096 - unat n)")
  fix n e :: u32 and s t :: "'c rp1"
  assume "unat n < unat RP1_MAX_NODES"
  then have "unat (n + 1) = unat n + 1" and "unat n < 4096"
    by (simp_all add: unat_word_ariths)
  then show "((n + 1, e, t), (n, e, s)) \<in> measure (\<lambda>(n, e, s). 4096 - unat n)"
    by simp
qed simp

declare clear_buckets.simps [simp del] rearm_nodes.simps [simp del]

definition loop_iters_read :: "nat \<Rightarrow> 'c rp1 \<Rightarrow> u32 option" where
  "loop_iters_read i s = (if i < unat RP1_MAX_LOOPS then Some (g_loop_iters s i) else None)"

definition put_loop_iters :: "nat \<Rightarrow> u32 \<Rightarrow> 'c rp1 \<Rightarrow> 'c rp1" where
  "put_loop_iters i v s = s\<lparr>g_loop_iters := (g_loop_iters s)(i := v)\<rparr>"

definition loop_iters_write :: "nat \<Rightarrow> u32 \<Rightarrow> 'c rp1 \<Rightarrow> 'c rp1 option" where
  "loop_iters_write i v s =
     (if i < unat RP1_MAX_LOOPS then Some (put_loop_iters i v s) else None)"

definition activate_loop ::
  "'c rp1_env \<Rightarrow> rp1_node \<Rightarrow> nat \<Rightarrow> 'c rp1 \<Rightarrow> (scan_step \<times> 'c rp1) option" where
  "activate_loop E node i s = do {
     let p = payload node;
     old \<leftarrow> loop_iters_read (unat (lp_loop_id p)) s;
     let iters = old + 1;
     s \<leftarrow> loop_iters_write (unat (lp_loop_id p)) iters s;
     slot \<leftarrow> signal_read (unat (lp_condition_signal p)) s;
     let exit_loop = (lp_max_iterations p > 0 \<and> iters > lp_max_iterations p \<or>
                      compare (sig_value slot) (lp_condition_op p) (lp_condition_value p));
     s \<leftarrow> trace E RP1_TRACE_LOOP_ITER (of_nat i) (ucast (lp_loop_id p))
            (push_bit 1 iters OR (if exit_loop then 1 else 0)) s;
     if exit_loop then complete_node E node i s
     else do {
       s \<leftarrow> clear_buckets (lp_bucket_clear_start p) (lp_bucket_clear_end p) s;
       s \<leftarrow> rearm_nodes (lp_body_start p) (lp_body_end p) s;
       s \<leftarrow> set_node_status i RP1_NODE_DONE s;
       Some (Next True, s)
     }
   }"

definition activate_cond ::
  "'c rp1_env \<Rightarrow> rp1_node \<Rightarrow> nat \<Rightarrow> 'c rp1 \<Rightarrow> (scan_step \<times> 'c rp1) option" where
  "activate_cond E node i s = do {
     let p = payload node;
     slot \<leftarrow> signal_read (unat (cd_condition_signal p)) s;
     let cond_met = compare (sig_value slot) (cd_condition_op p) (cd_condition_value p);
     s \<leftarrow> trace E RP1_TRACE_COND_EVAL (of_nat i) (cd_condition_signal p)
            (if cond_met then 1 else 0) s;
     s \<leftarrow> (if cond_met then raise_barrier (cd_done_bucket p) (cd_done_mask p) s
            else do {
              s \<leftarrow> clear_buckets (cd_bucket_clear_start p) (cd_bucket_clear_end p) s;
              rearm_nodes (cd_body_start p) (cd_body_end p) s
            });
     complete_node E node i s
   }"

definition activate_rerun ::
  "'c rp1_env \<Rightarrow> rp1_node \<Rightarrow> nat \<Rightarrow> 'c rp1 \<Rightarrow> (scan_step \<times> 'c rp1) option" where
  "activate_rerun E node i s = do {
     let p = payload node;
     s \<leftarrow> set_node_status (unat (rr_target_node p)) RP1_NODE_PENDING s;
     s \<leftarrow> (if rr_rerun_flags p AND RP1_RERUN_CLEAR_STATE \<noteq> 0
            then loop_iters_write (unat (rr_loop_id p)) 0 s else Some s);
     complete_node E node i s
   }"

definition activate_wait ::
  "'c rp1_env \<Rightarrow> rp1_node \<Rightarrow> nat \<Rightarrow> 'c rp1 \<Rightarrow> (scan_step \<times> 'c rp1) option" where
  "activate_wait E node i s = do {
     let p = payload node;
     slot \<leftarrow> signal_read (unat (wt_condition_signal p)) s;
     if compare (sig_value slot) (wt_condition_op p) (wt_condition_value p)
     then complete_node E node i s
     else do {
       s \<leftarrow> set_node_status i RP1_NODE_WAITING s;
       s \<leftarrow> trace E RP1_TRACE_WAIT_PARK (of_nat i) (wt_condition_signal p)
              (wt_condition_value p) s;
       Some (Next False, s)
     }
   }"

definition activate_halt ::
  "'c rp1_env \<Rightarrow> rp1_node \<Rightarrow> nat \<Rightarrow> 'c rp1 \<Rightarrow> (scan_step \<times> 'c rp1) option" where
  "activate_halt E node i s = do {
     s \<leftarrow> set_node_status i RP1_NODE_DONE s;
     (r, s) \<leftarrow> write_cq_entry E (flags node) (of_nat i) RP1_CQ_OK 0 s;
     Some (if r < 0 then Ret (-1) else Ret (-2), s)
   }"

definition activate_immediate ::
  "'c rp1_env \<Rightarrow> rp1_node \<Rightarrow> nat \<Rightarrow> 'c rp1 \<Rightarrow> (scan_step \<times> 'c rp1) option" where
  "activate_immediate E node i s = do {
     s \<leftarrow> execute_immediate E node i s;
     complete_node E node i s
   }"

text \<open>The switch of \<open>activate_nodes\<close>.\<close>

definition run_opcode ::
  "'c rp1_env \<Rightarrow> rp1_node \<Rightarrow> nat \<Rightarrow> 'c rp1 \<Rightarrow> (scan_step \<times> 'c rp1) option" where
  "run_opcode E node i s =
     (let opc = opcode node in
      if opc = RP1_OP_KERNEL_DISPATCH then activate_kernel E node i s
      else if opc = RP1_OP_PDI_LOAD then activate_pdi E node i s
      else if opc = RP1_OP_LOOP then activate_loop E node i s
      else if opc = RP1_OP_COND then activate_cond E node i s
      else if opc = RP1_OP_RERUN then activate_rerun E node i s
      else if opc = RP1_OP_WAIT then activate_wait E node i s
      else if opc = RP1_OP_HALT then activate_halt E node i s
      else activate_immediate E node i s)"

text \<open>A node whose barriers are satisfied: reserve a completion slot, then run it.\<close>

definition activate_ready ::
  "'c rp1_env \<Rightarrow> rp1_node \<Rightarrow> nat \<Rightarrow> 'c rp1 \<Rightarrow> (scan_step \<times> 'c rp1) option" where
  "activate_ready E node i s = do {
     let (available, s) = cq_can_write (flags node) s;
     if available < 0 then Some (Ret (-1), s)
     else if available = 0 then Some (Next False, s\<lparr>g_cq_blocked := 1\<rparr>)
     else do {
       let s = upd_ctrl (\<lambda>c. c\<lparr>rp1_current_node := of_nat i\<rparr>) s;
       s \<leftarrow> trace E RP1_TRACE_NODE_ACTIVATE (of_nat i) (ucast (opcode node))
              (ucast (flags node)) s;
       run_opcode E node i s
     }
   }"

definition activate_node :: "'c rp1_env \<Rightarrow> nat \<Rightarrow> 'c rp1 \<Rightarrow> (scan_step \<times> 'c rp1) option" where
  "activate_node E i s = do {
     st \<leftarrow> status_read i s;
     if st \<noteq> ucast RP1_NODE_PENDING then Some (Next False, s)
     else do {
       node \<leftarrow> node_read i s;
       bar \<leftarrow> barrier_read (unat (barrier_await_bucket node)) s;
       if bar AND barrier_await_mask node \<noteq> barrier_await_mask node then Some (Next False, s)
       else activate_ready E node i s
     }
   }"

text \<open>A loop over the node indices that stops at the first \<open>Ret\<close>.\<close>

fun scan_nodes ::
  "(nat \<Rightarrow> 'c rp1 \<Rightarrow> (scan_step \<times> 'c rp1) option) \<Rightarrow> nat list \<Rightarrow> bool \<Rightarrow> 'c rp1
    \<Rightarrow> (int \<times> 'c rp1) option" where
  "scan_nodes f [] made_progress s = Some (if made_progress then 1 else 0, s)"
| "scan_nodes f (i # is) made_progress s = do {
     (r, s) \<leftarrow> f i s;
     (case r of
        Ret v \<Rightarrow> Some (v, s)
      | Next p \<Rightarrow> scan_nodes f is (made_progress \<or> p) s)
   }"

definition activate_nodes :: "'c rp1_env \<Rightarrow> nat \<Rightarrow> 'c rp1 \<Rightarrow> (int \<times> 'c rp1) option" where
  "activate_nodes E n s = scan_nodes (activate_node E) [0..<n] False s"

section \<open>Polling parked waits\<close>

definition check_wait :: "'c rp1_env \<Rightarrow> nat \<Rightarrow> 'c rp1 \<Rightarrow> (scan_step \<times> 'c rp1) option" where
  "check_wait E i s = do {
     st \<leftarrow> status_read i s;
     if st \<noteq> ucast RP1_NODE_WAITING then Some (Next False, s)
     else do {
       node \<leftarrow> node_read i s;
       let p = payload node;
       let (available, s) = cq_can_write (flags node) s;
       if available < 0 then Some (Ret (-1), s)
       else if available = 0 then Some (Next False, s\<lparr>g_cq_blocked := 1\<rparr>)
       else do {
         slot \<leftarrow> signal_read (unat (wt_condition_signal p)) s;
         if compare (sig_value slot) (wt_condition_op p) (wt_condition_value p) then do {
           (r, s) \<leftarrow> complete_node E node i s;
           (case r of
              Ret v \<Rightarrow> Some (Ret v, s)
            | Next b \<Rightarrow> do {
                s \<leftarrow> trace E RP1_TRACE_WAIT_WAKE (of_nat i) (wt_condition_signal p)
                       (sig_value slot) s;
                Some (Next True, s)
              })
         }
         else Some (Next False, s)
       }
     }
   }"

definition check_waits :: "'c rp1_env \<Rightarrow> nat \<Rightarrow> 'c rp1 \<Rightarrow> (int \<times> 'c rp1) option" where
  "check_waits E n s = scan_nodes (check_wait E) [0..<n] False s"

section \<open>Quiescence\<close>

definition scan_hook :: "'c rp1_env \<Rightarrow> 'c rp1 \<Rightarrow> 'c rp1" where
  "scan_hook E s =
     (case on_scan_pass E of
        None \<Rightarrow> s
      | Some f \<Rightarrow> let (d, c) = f (ddr s, ctx s) in s\<lparr>ddr := d, ctx := c\<rparr>)"

definition beat :: "'c rp1 \<Rightarrow> 'c rp1" where
  "beat s = upd_ctrl (\<lambda>c. c\<lparr>heartbeat := heartbeat c + 1\<rparr>) s"

text \<open>
  Publish a final status for a tracked kernel unless it already carries an error. A
  completion that cannot be written marks the device for recovery.
\<close>

definition quiesce_publish ::
  "'c rp1_env \<Rightarrow> rp1_inflight \<Rightarrow> u16 \<Rightarrow> u16 \<Rightarrow> u32 \<Rightarrow> u32 \<Rightarrow> 'c rp1 \<Rightarrow> 'c rp1 option" where
  "quiesce_publish E k fl node_st cq_st error_detail s = do {
     st \<leftarrow> status_read (unat (ki_node_index k)) s;
     if st \<noteq> ucast RP1_NODE_ERROR then do {
       s \<leftarrow> set_node_status (unat (ki_node_index k)) node_st s;
       (r, s) \<leftarrow> write_cq_entry E fl (ki_node_index k) cq_st error_detail s;
       Some (if r < 0 then rp1_mark_recovery_required s else s)
     }
     else Some s
   }"

definition quiesce_one :: "'c rp1_env \<Rightarrow> nat \<Rightarrow> 'c rp1 \<Rightarrow> (poll_step \<times> 'c rp1) option" where
  "quiesce_one E i s = do {
     k \<leftarrow> inflight_read i s;
     node \<leftarrow> node_read (unat (ki_node_index k)) s;
     let fl = flags node;
     if ki_infinite k \<noteq> 0
     then Some (Removed, remove_inflight i (rp1_mark_recovery_required s))
     else do {
       let (available, s) = cq_can_write fl s;
       if available < 0
       then Some (Removed, remove_inflight i (rp1_mark_recovery_required s))
       else if available = 0 then Some (Advance, s)
       else do {
         let (control, s) = mmio_read E (ki_base_addr k + 0) s;
         if control AND 2 \<noteq> 0 then do {
           s \<leftarrow> quiesce_publish E k fl RP1_NODE_DONE RP1_CQ_OK 0 s;
           s \<leftarrow> trace E RP1_TRACE_KERNEL_DONE (ki_node_index k) (ki_base_addr k) 0 s;
           Some (Removed, remove_inflight i s)
         }
         else do {
           let (now, s) = read_cycles E s;
           if rp1_timeout_elapsed (ki_timeout_start k) (ki_timeout_cycles k) now then do {
             s \<leftarrow> quiesce_publish E k fl RP1_NODE_ERROR RP1_CQ_TIMEOUT (ki_base_addr k) s;
             Some (Removed, remove_inflight i (rp1_mark_recovery_required s))
           }
           else Some (Advance, s)
         }
       }
     }
   }"

fun quiesce_pass :: "'c rp1_env \<Rightarrow> nat \<Rightarrow> nat \<Rightarrow> 'c rp1 \<Rightarrow> 'c rp1 option" where
  "quiesce_pass E fuel i s =
     (if i < unat (g_inflight_count s) then
        (case fuel of
           0 \<Rightarrow> None
         | Suc fuel \<Rightarrow> do {
             (r, s) \<leftarrow> quiesce_one E i s;
             quiesce_pass E fuel (if r = Removed then i else i + 1) s
           })
      else Some s)"

declare quiesce_pass.simps [simp del]

text \<open>The first component of the result says whether quiescence finished within the fuel.\<close>

fun quiesce_inflight :: "'c rp1_env \<Rightarrow> nat \<Rightarrow> 'c rp1 \<Rightarrow> (bool \<times> 'c rp1) option" where
  "quiesce_inflight E fuel s =
     (if g_inflight_count s \<noteq> 0 then
        (case fuel of
           0 \<Rightarrow> Some (False, s)
         | Suc fuel \<Rightarrow> do {
             s \<leftarrow> quiesce_pass E (unat (g_inflight_count s)) 0 s;
             quiesce_inflight E fuel (beat (scan_hook E s))
           })
      else Some (True, s))"

declare quiesce_inflight.simps [simp del]

section \<open>The dispatch loop\<close>

text \<open>
  Publishing the one completion of a rejected graph: retried while the ring is full.
\<close>

fun report_bad_node ::
  "'c rp1_env \<Rightarrow> nat \<Rightarrow> u32 \<Rightarrow> u32 \<Rightarrow> 'c rp1 \<Rightarrow> (bool \<times> 'c rp1) option" where
  "report_bad_node E fuel bad_node detail s = do {
     (r, s) \<leftarrow> write_cq_entry E 0 bad_node RP1_CQ_ERROR detail s;
     if r = 0 then
       (case fuel of
          0 \<Rightarrow> Some (False, s)
        | Suc fuel \<Rightarrow> report_bad_node E fuel bad_node detail (beat (scan_hook E s)))
     else Some (True, s)
   }"

declare report_bad_node.simps [simp del]

definition quiesce_and_return ::
  "'c rp1_env \<Rightarrow> nat \<Rightarrow> int \<Rightarrow> 'c rp1 \<Rightarrow> (int option \<times> 'c rp1) option" where
  "quiesce_and_return E fuel result s = do {
     (finished, s) \<leftarrow> quiesce_inflight E fuel s;
     Some (if finished then Some result else None, s)
   }"

fun any_active :: "nat list \<Rightarrow> 'c rp1 \<Rightarrow> bool option" where
  "any_active [] s = Some False"
| "any_active (i # is) s = do {
     st \<leftarrow> status_read i s;
     rest \<leftarrow> any_active is s;
     Some (st = ucast RP1_NODE_DISPATCHED \<or> st = ucast RP1_NODE_WAITING \<or> rest)
   }"

text \<open>One pass of the scan loop: quiesce and return a value, return 0, or go on.\<close>

datatype pass_result = Quiesce int | Complete | Again

definition scan_pass :: "'c rp1_env \<Rightarrow> nat \<Rightarrow> 'c rp1 \<Rightarrow> (pass_result \<times> 'c rp1) option" where
  "scan_pass E n s = do {
     let s = s\<lparr>g_cq_blocked := 0\<rparr>;
     (activated, s) \<leftarrow> activate_nodes E n s;
     if activated < 0 then Some (Quiesce activated, scan_hook E s)
     else do {
       (inflight_progress, s) \<leftarrow> check_inflight E s;
       if inflight_progress < 0 then Some (Quiesce inflight_progress, scan_hook E s)
       else do {
         (wait_progress, s) \<leftarrow> check_waits E n s;
         if wait_progress < 0 then Some (Quiesce (-1), s)
         else do {
           let s = scan_hook E s;
           if activated = 0 \<and> inflight_progress = 0 \<and> wait_progress = 0 \<and> g_cq_blocked s = 0
           then do {
             active \<leftarrow> any_active [0..<n] s;
             Some (if \<not> active then (Complete, s) else (Again, beat s))
           }
           else Some (Again, beat s)
         }
       }
     }
   }"

fun scan_loop :: "'c rp1_env \<Rightarrow> nat \<Rightarrow> nat \<Rightarrow> 'c rp1 \<Rightarrow> (int option \<times> 'c rp1) option" where
  "scan_loop E n 0 s = Some (None, s)"
| "scan_loop E n (Suc fuel) s = do {
     (r, s) \<leftarrow> scan_pass E n s;
     (case r of
        Quiesce v \<Rightarrow> quiesce_and_return E fuel v s
      | Complete \<Rightarrow> Some (Some 0, s)
      | Again \<Rightarrow> scan_loop E n fuel s)
   }"

definition rp1_loop :: "'c rp1_env \<Rightarrow> nat \<Rightarrow> 'c rp1 \<Rightarrow> (int option \<times> 'c rp1) option" where
  "rp1_loop E fuel s = do {
     let cnt = node_count (ctrl s);
     verdict \<leftarrow> validate_nodes cnt s;
     (case verdict of
        Some (bad_node, detail, aux) \<Rightarrow> do {
          let s = rp1_latch_error RP1_ERR_INVALID_NODE (of_nat bad_node) detail aux s;
          s \<leftarrow> set_node_status bad_node RP1_NODE_ERROR s;
          (finished, s) \<leftarrow> report_bad_node E fuel (of_nat bad_node) detail s;
          Some (if finished then Some (-1) else None, s)
        }
      | None \<Rightarrow> scan_loop E (unat cnt) fuel s)
   }"

end
