(* ===== verification/Rp1_Steps.thy ===== *)
theory Rp1_Steps
  imports Rp1_Loop
begin

unbundle bit_operations_syntax

text \<open>
  The primitive steps of the dispatch loop as an inductive relation, and the well-formedness
  invariant of a running graph.

  \<open>fw_steps E h n s t\<close> holds when \<open>t\<close> is reached from \<open>s\<close> by atomic updates the firmware makes
  while it runs an \<open>n\<close>-node graph, and, when \<open>h\<close> is true, by turns of the host. Each update
  carries the guard under which the code makes it. That every operation of the loop, run from
  a well-formed state, returns (no access out of bounds) and is such a sequence is shown in
  \<open>Rp1_Loop_Safety\<close>; what the sequences preserve is shown by rule induction.
\<close>

section \<open>Well-formed running states\<close>

definition valid_graph :: "nat \<Rightarrow> 'c rp1 \<Rightarrow> bool" where
  "valid_graph n s \<longleftrightarrow> (\<forall>i < n. node_error (of_nat n) (arg_available s) (node_ref i s) = None)"

definition inflight_wf :: "nat \<Rightarrow> 'c rp1 \<Rightarrow> bool" where
  "inflight_wf n s \<longleftrightarrow>
     unat (g_inflight_count s) \<le> 32 \<and>
     (\<forall>i < unat (g_inflight_count s).
        unat (ki_node_index (g_inflight s i)) < n \<and> unat (ki_set_bucket (g_inflight s i)) < 32)"

text \<open>Only WAIT packets are ever parked.\<close>

definition waiting_wf :: "nat \<Rightarrow> 'c rp1 \<Rightarrow> bool" where
  "waiting_wf n s \<longleftrightarrow>
     (\<forall>i < n. g_node_status s i = ucast RP1_NODE_WAITING \<longrightarrow> opcode (node_ref i s) = RP1_OP_WAIT)"

definition graph_wf :: "nat \<Rightarrow> 'c rp1 \<Rightarrow> bool" where
  "graph_wf n s \<longleftrightarrow>
     layout_wf n s \<and> valid_graph n s \<and> inflight_wf n s \<and> waiting_wf n s"

text \<open>
  What the loop relies on of the host while a graph runs: the node packets, the ring size and
  the argument base stay as submitted. The read cursor and the signal slots may change.
\<close>

definition host_ok :: "'c rp1_env \<Rightarrow> bool" where
  "host_ok E \<longleftrightarrow>
     (\<forall>f d c d' c'. on_scan_pass E = Some f \<longrightarrow> f (d, c) = (d', c') \<longrightarrow>
        d_nodes d' = d_nodes d \<and> cq_size (d_ctrl d') = cq_size (d_ctrl d) \<and>
        arg_buf_base_lo (d_ctrl d') = arg_buf_base_lo (d_ctrl d))"

text \<open>A PDI load returns; shown from the behaviour of the counter in \<open>Rp1_Hal\<close>.\<close>

definition pdi_returns :: "'c rp1_env \<Rightarrow> bool" where
  "pdi_returns E \<longleftrightarrow> (\<forall>lo hi t c. rp1_pdi_load E lo hi t c \<noteq> None)"

section \<open>Primitive steps\<close>

definition cq_space :: "'c rp1 \<Rightarrow> bool" where
  "cq_space s \<longleftrightarrow> cq_write_idx (ctrl s) - cq_read_idx (ctrl s) < cq_size (ctrl s)"

definition cq_slot :: "'c rp1 \<Rightarrow> nat" where
  "cq_slot s = unat (cq_write_idx (ctrl s) AND (cq_size (ctrl s) - 1))"

definition cq_publish :: "'c rp1_env \<Rightarrow> rp1_cq_entry \<Rightarrow> 'c rp1 \<Rightarrow> 'c rp1" where
  "cq_publish E e s =
     upd_ctrl (\<lambda>c. c\<lparr>cq_write_idx := cq_write_idx c + 1\<rparr>) (fence E (put_cq (cq_slot s) e s))"

definition put_mem :: "u32 \<Rightarrow> u32 \<Rightarrow> 'c rp1 \<Rightarrow> 'c rp1" where
  "put_mem a v s = s\<lparr>ddr := (ddr s)\<lparr>d_mem := (d_mem (ddr s))(a := v)\<rparr>\<rparr>"

inductive fw_steps :: "'c rp1_env \<Rightarrow> bool \<Rightarrow> nat \<Rightarrow> 'c rp1 \<Rightarrow> 'c rp1 \<Rightarrow> bool"
  for E h n s where
  refl: "fw_steps E h n s s"
| status: "fw_steps E h n s t \<Longrightarrow> i < n \<Longrightarrow>
    st \<noteq> RP1_NODE_WAITING \<or> opcode (node_ref i t) = RP1_OP_WAIT \<Longrightarrow>
    st \<in> {0, 1, 2, 3, 255} \<Longrightarrow> fw_steps E h n s (put_status i st t)"
| barrier: "fw_steps E h n s t \<Longrightarrow> b < 32 \<Longrightarrow> fw_steps E h n s (set_barrier b v t)"
| signal: "fw_steps E h n s t \<Longrightarrow> i < 256 \<Longrightarrow> fw_steps E h n s (put_signal i sl t)"
| publish: "fw_steps E h n s t \<Longrightarrow> cq_space t \<Longrightarrow> fw_steps E h n s (cq_publish E e t)"
| trace_slot: "fw_steps E h n s t \<Longrightarrow> g_trace_enable t \<noteq> 0 \<Longrightarrow> i < unat (g_trace_size t) \<Longrightarrow>
    fw_steps E h n s (put_trace i te t)"
| trace_idx: "fw_steps E h n s t \<Longrightarrow>
    fw_steps E h n s (upd_ctrl (\<lambda>c. c\<lparr>trace_write_idx := trace_write_idx c + 1\<rparr>) t)"
| current: "fw_steps E h n s t \<Longrightarrow> fw_steps E h n s (upd_ctrl (\<lambda>c. c\<lparr>rp1_current_node := v\<rparr>) t)"
| beat: "fw_steps E h n s t \<Longrightarrow> fw_steps E h n s (beat t)"
| latch: "fw_steps E h n s t \<Longrightarrow> fw_steps E h n s (rp1_latch_error code nd dt ax t)"
| recovery: "fw_steps E h n s t \<Longrightarrow> fw_steps E h n s (rp1_mark_recovery_required t)"
| blocked: "fw_steps E h n s t \<Longrightarrow> fw_steps E h n s (t\<lparr>g_cq_blocked := v\<rparr>)"
| iters: "fw_steps E h n s t \<Longrightarrow> i < 64 \<Longrightarrow> fw_steps E h n s (put_loop_iters i v t)"
| image: "fw_steps E h n s t \<Longrightarrow> fw_steps E h n s (t\<lparr>g_active_image_id := v\<rparr>)"
| track: "fw_steps E h n s t \<Longrightarrow> unat (g_inflight_count t) < 32 \<Longrightarrow>
    unat (ki_node_index k) < n \<Longrightarrow> unat (ki_set_bucket k) < 32 \<Longrightarrow>
    fw_steps E h n s (push_inflight k t)"
| untrack: "fw_steps E h n s t \<Longrightarrow> i < unat (g_inflight_count t) \<Longrightarrow>
    fw_steps E h n s (remove_inflight i t)"
| mem: "fw_steps E h n s t \<Longrightarrow> fw_steps E h n s (put_mem a v t)"
| read: "fw_steps E h n s t \<Longrightarrow> fw_steps E h n s (snd (mmio_read E a t))"
| mwrite: "fw_steps E h n s t \<Longrightarrow> fw_steps E h n s (mmio_write E a v t)"
| fence: "fw_steps E h n s t \<Longrightarrow> fw_steps E h n s (fence E t)"
| clock: "fw_steps E h n s t \<Longrightarrow> fw_steps E h n s (snd (read_cycles E t))"
| pdi: "fw_steps E h n s t \<Longrightarrow> rp1_pdi_load E lo hi tm (ctx t) = Some (r, c) \<Longrightarrow>
    fw_steps E h n s (t\<lparr>ctx := c\<rparr>)"
| host: "fw_steps E h n s t \<Longrightarrow> h \<Longrightarrow> fw_steps E h n s (scan_hook E t)"

lemma fw_steps_trans: "fw_steps E h n t u \<Longrightarrow> fw_steps E h n s t \<Longrightarrow> fw_steps E h n s u"
  by (induction rule: fw_steps.induct) (blast intro: fw_steps.intros)+

lemma fw_steps_host: "fw_steps E False n s t \<Longrightarrow> fw_steps E h n s t"
  by (induction rule: fw_steps.induct) (auto intro: fw_steps.intros)

section \<open>Frame facts\<close>

lemmas prim_defs =
  put_status_def put_node_status_def set_barrier_def put_signal_def put_trace_def put_cq_def
  upd_ctrl_def beat_def rp1_mark_recovery_required_def put_loop_iters_def push_inflight_def
  put_mem_def mmio_read_def mmio_write_def fence_def read_cycles_def cq_publish_def

text \<open>HAL accesses change nothing but the world behind the HAL.\<close>

lemma hal_ctx_only:
  "\<exists>c. snd (mmio_read E a s) = s\<lparr>ctx := c\<rparr>" "\<exists>c. mmio_write E a v s = s\<lparr>ctx := c\<rparr>"
  "\<exists>c. fence E s = s\<lparr>ctx := c\<rparr>" "\<exists>c. snd (read_cycles E s) = s\<lparr>ctx := c\<rparr>"
  by (auto simp: mmio_read_def mmio_write_def fence_def read_cycles_def split_beta)

lemma hal_frame [simp]:
  "ddr (snd (mmio_read E a s)) = ddr s" "ddr (mmio_write E a v s) = ddr s"
  "ddr (fence E s) = ddr s" "ddr (snd (read_cycles E s)) = ddr s"
  "g_inflight_count (snd (mmio_read E a s)) = g_inflight_count s"
  "g_inflight_count (mmio_write E a v s) = g_inflight_count s"
  "g_inflight_count (fence E s) = g_inflight_count s"
  "g_inflight_count (snd (read_cycles E s)) = g_inflight_count s"
  by (simp_all add: mmio_read_def mmio_write_def fence_def read_cycles_def split_beta)
section \<open>Every primitive keeps the state well formed\<close>

lemma node_error_status [simp]: "node_error cnt av (nd\<lparr>nstatus := st\<rparr>) = node_error cnt av nd"
  by (cases nd) (simp only: rp1_node.update_convs node_error_def rp1_node.select_convs)

lemma layout_wf_status [simp]: "layout_wf n (put_status i st s) = layout_wf n s"
  unfolding put_status_def layout_wf_put by (auto simp: layout_wf_def)

lemma node_ref_put_status:
  assumes "layout_wf n s" and "i < n" and "j < n"
  shows "node_ref j (put_status i st s) =
         (if i = j then (node_ref j s)\<lparr>nstatus := st\<rparr> else node_ref j s)"
proof -
  let ?s = "s\<lparr>g_node_status := (g_node_status s)(i := ucast st)\<rparr>"
  have "layout_wf n ?s" using assms(1) by (simp add: layout_wf_def)
  moreover have "node_ref j (s\<lparr>g_node_status := f\<rparr>) = node_ref j s" for f
    by (simp add: node_ref_def node_addr_def)
  ultimately show ?thesis
    using node_ref_put_node_status [of n ?s i j st] assms by (simp add: put_status_def)
qed

lemma graph_wf_put_status:
  assumes wf: "graph_wf n s" and i: "i < n" and st: "st \<in> {0, 1, 2, 3, 255}"
    and wait: "st \<noteq> RP1_NODE_WAITING \<or> opcode (node_ref i s) = RP1_OP_WAIT"
  shows "graph_wf n (put_status i st s)"
proof -
  have lay: "layout_wf n s" using wf by (simp add: graph_wf_def)
  have "valid_graph n (put_status i st s)"
    using wf node_ref_put_status [OF lay i]
    by (auto simp: graph_wf_def valid_graph_def arg_available_def put_status_def
        put_node_status_def)
  moreover have "inflight_wf n (put_status i st s)"
    using wf by (simp add: graph_wf_def inflight_wf_def put_status_def put_node_status_def)
  moreover have "g_node_status (put_status i st s) = (g_node_status s)(i := ucast st)"
    by (simp add: put_status_def put_node_status_def)
  then have "waiting_wf n (put_status i st s)"
    using wf st wait node_ref_put_status [OF lay i]
    by (auto simp: graph_wf_def waiting_wf_def)
  ultimately show ?thesis using lay by (simp add: graph_wf_def)
qed

text \<open>Updates that touch neither the layout, nor the packets, nor the in-flight table.\<close>

lemma graph_wf_cong:
  assumes "d_nodes (ddr t) = d_nodes (ddr s)" and "cq_size (ctrl t) = cq_size (ctrl s)"
    and "arg_buf_base_lo (ctrl t) = arg_buf_base_lo (ctrl s)"
    and "g_nodes t = g_nodes s" and "g_cq t = g_cq s" and "g_signals t = g_signals s"
    and "g_arg_buf t = g_arg_buf s" and "g_trace t = g_trace s"
    and "g_trace_size t = g_trace_size s" and "g_trace_enable t = g_trace_enable s"
    and "g_inflight t = g_inflight s" and "g_inflight_count t = g_inflight_count s"
    and "g_node_status t = g_node_status s"
  shows "graph_wf n t = graph_wf n s"
  using assms
  by (simp add: graph_wf_def layout_wf_def valid_graph_def inflight_wf_def waiting_wf_def
      arg_available_def node_ref_def node_addr_def)

lemma graph_wf_prim [simp]:
  "graph_wf n (set_barrier b v s) = graph_wf n s"
  "graph_wf n (put_signal i sl s) = graph_wf n s"
  "graph_wf n (cq_publish E e s) = graph_wf n s"
  "graph_wf n (put_trace i te s) = graph_wf n s"
  "graph_wf n (beat s) = graph_wf n s"
  "graph_wf n (rp1_latch_error code nd dt ax s) = graph_wf n s"
  "graph_wf n (rp1_mark_recovery_required s) = graph_wf n s"
  "graph_wf n (put_loop_iters i v s) = graph_wf n s"
  "graph_wf n (put_mem a w s) = graph_wf n s"
  "graph_wf n (snd (mmio_read E a s)) = graph_wf n s"
  "graph_wf n (mmio_write E a w s) = graph_wf n s"
  "graph_wf n (fence E s) = graph_wf n s"
  "graph_wf n (snd (read_cycles E s)) = graph_wf n s"
  by (rule graph_wf_cong; simp add: prim_defs rp1_latch_error_def split_beta)+

lemma graph_wf_fields [simp]:
  "graph_wf n (s\<lparr>g_cq_blocked := v\<rparr>) = graph_wf n s"
  "graph_wf n (s\<lparr>g_active_image_id := v\<rparr>) = graph_wf n s"
  "graph_wf n (s\<lparr>ctx := c\<rparr>) = graph_wf n s"
  "graph_wf n (upd_ctrl (\<lambda>c. c\<lparr>trace_write_idx := f c\<rparr>) s) = graph_wf n s"
  "graph_wf n (upd_ctrl (\<lambda>c. c\<lparr>rp1_current_node := f c\<rparr>) s) = graph_wf n s"
  by (rule graph_wf_cong; simp add: upd_ctrl_def)+

lemma graph_wf_push_inflight:
  assumes "graph_wf n s" and "unat (g_inflight_count s) < 32"
    and "unat (ki_node_index k) < n" and "unat (ki_set_bucket k) < 32"
  shows "graph_wf n (push_inflight k s)"
proof -
  have "unat (g_inflight_count s + 1) = unat (g_inflight_count s) + 1"
    using assms(2) by (simp add: unat_word_ariths)
  then have "inflight_wf n (push_inflight k s)"
    using assms by (auto simp: graph_wf_def inflight_wf_def push_inflight_def less_Suc_eq)
  moreover have "layout_wf n (push_inflight k s)" "valid_graph n (push_inflight k s)"
    "waiting_wf n (push_inflight k s)"
    using assms(1)
    by (simp_all add: graph_wf_def layout_wf_def valid_graph_def waiting_wf_def push_inflight_def
        arg_available_def node_ref_def node_addr_def)
  ultimately show ?thesis by (simp add: graph_wf_def)
qed

lemma unat_pred: "(x :: u32) \<noteq> 0 \<Longrightarrow> unat (x - 1) = unat x - 1"
  by (simp add: unat_minus_one)

lemma remove_inflight_count [simp]:
  "g_inflight_count (remove_inflight i s) = g_inflight_count s - 1"
  by (simp add: remove_inflight_def Let_def)

lemma graph_wf_remove_inflight:
  assumes "graph_wf n s" and "i < unat (g_inflight_count s)"
  shows "graph_wf n (remove_inflight i s)"
proof -
  have "g_inflight_count s \<noteq> 0" using assms(2) by auto
  then have "unat (g_inflight_count s - 1) = unat (g_inflight_count s) - 1" by (rule unat_pred)
  then have "inflight_wf n (remove_inflight i s)"
    using assms by (auto simp: graph_wf_def inflight_wf_def remove_inflight_def Let_def)
  moreover have "layout_wf n (remove_inflight i s)" "valid_graph n (remove_inflight i s)"
    "waiting_wf n (remove_inflight i s)"
    using assms(1)
    by (simp_all add: graph_wf_def layout_wf_def valid_graph_def waiting_wf_def remove_inflight_def
        arg_available_def node_ref_def node_addr_def Let_def)
  ultimately show ?thesis by (simp add: graph_wf_def)
qed

lemma graph_wf_scan_hook: "host_ok E \<Longrightarrow> graph_wf n s \<Longrightarrow> graph_wf n (scan_hook E s)"
proof (cases "on_scan_pass E")
  case None
  then show "graph_wf n s \<Longrightarrow> graph_wf n (scan_hook E s)" by (simp add: scan_hook_def)
next
  case (Some f)
  assume ok: "host_ok E" and wf: "graph_wf n s"
  obtain d c where dc: "f (ddr s, ctx s) = (d, c)" by fastforce
  then have "d_nodes d = d_nodes (ddr s)" "cq_size (d_ctrl d) = cq_size (ctrl s)"
    "arg_buf_base_lo (d_ctrl d) = arg_buf_base_lo (ctrl s)"
    using ok Some unfolding host_ok_def by blast+
  then have "graph_wf n (s\<lparr>ddr := d, ctx := c\<rparr>) = graph_wf n s" by (intro graph_wf_cong) simp_all
  then show ?thesis using wf Some dc by (simp add: scan_hook_def)
qed

lemma fw_steps_wf:
  "fw_steps E h n s t \<Longrightarrow> (h \<longrightarrow> host_ok E) \<Longrightarrow> graph_wf n s \<Longrightarrow> graph_wf n t"
  by (induction rule: fw_steps.induct)
    (simp_all add: graph_wf_put_status graph_wf_push_inflight graph_wf_remove_inflight graph_wf_scan_hook)

section \<open>Packets are immutable\<close>

text \<open>A packet without its status field, which alone the firmware writes.\<close>

definition packet :: "nat \<Rightarrow> 'c rp1 \<Rightarrow> rp1_node" where
  "packet i s = (node_ref i s)\<lparr>nstatus := 0\<rparr>"

lemma packet_opcode: "opcode (node_ref i s) = opcode (packet i s)"
  by (simp add: packet_def)

lemma packet_cong:
  "d_nodes (ddr t) = d_nodes (ddr s) \<Longrightarrow> g_nodes t = g_nodes s \<Longrightarrow> packet i t = packet i s"
  by (simp add: packet_def node_ref_def node_addr_def)

lemma packet_put_status:
  "layout_wf n s \<Longrightarrow> i < n \<Longrightarrow> j < n \<Longrightarrow> packet j (put_status i st s) = packet j s"
  by (simp add: packet_def node_ref_put_status)

lemma packet_prim [simp]:
  "packet j (set_barrier b v s) = packet j s"
  "packet j (put_signal i sl s) = packet j s"
  "packet j (cq_publish E e s) = packet j s"
  "packet j (put_trace i te s) = packet j s"
  "packet j (upd_ctrl f s) = packet j s"
  "packet j (beat s) = packet j s"
  "packet j (rp1_latch_error code nd dt ax s) = packet j s"
  "packet j (rp1_mark_recovery_required s) = packet j s"
  "packet j (put_loop_iters i v s) = packet j s"
  "packet j (push_inflight k s) = packet j s"
  "packet j (remove_inflight i s) = packet j s"
  "packet j (put_mem a w s) = packet j s"
  "packet j (snd (mmio_read E a s)) = packet j s"
  "packet j (mmio_write E a w s) = packet j s"
  "packet j (fence E s) = packet j s"
  "packet j (snd (read_cycles E s)) = packet j s"
  "packet j (s\<lparr>g_cq_blocked := v\<rparr>) = packet j s"
  "packet j (s\<lparr>g_active_image_id := v\<rparr>) = packet j s"
  "packet j (s\<lparr>ctx := c\<rparr>) = packet j s"
  by (rule packet_cong; simp add: prim_defs rp1_latch_error_def remove_inflight_def Let_def
      split_beta)+

lemma packet_scan_hook: "host_ok E \<Longrightarrow> packet j (scan_hook E s) = packet j s"
  by (rule packet_cong) (auto simp: scan_hook_def host_ok_def split: option.split prod.split)

end
