(* ===== verification/Rp1_Loop_Safety.thy ===== *)
theory Rp1_Loop_Safety
  imports Rp1_Steps
begin

unbundle bit_operations_syntax

text \<open>
  Memory safety of the dispatch loop. Every operation of \<open>Rp1_Loop\<close>, run in a well-formed
  state, returns: no static table and no structure in the shared window is accessed out of
  bounds, and no counter loop fails to end. Its effect is a sequence of the primitive steps of
  \<open>Rp1_Steps\<close>, so what those steps keep, the operations keep.

  The rules are proved bottom up, one per function of \<^verbatim>\<open>rp1_loop.c\<close>, and are collected in
  \<open>fw_ok\<close>; each handler's proof unfolds its body and lets the rules of its callees chain. What
  packet validation established about a node's fields enters through the \<open>node_error\<close> lemmas.
\<close>

section \<open>Invariant and rules for the accessors\<close>

text \<open>
  \<open>fw_inv E h n s0 s\<close>: \<open>s\<close> is well formed and reached from \<open>s0\<close> by primitive steps. Each rule
  below says that an operation, run where the invariant holds, returns and keeps it; it is
  stated with the continuation \<open>P\<close>, so that the rules chain along a handler's body.
\<close>

definition fw_inv :: "'c rp1_env \<Rightarrow> bool \<Rightarrow> nat \<Rightarrow> 'c rp1 \<Rightarrow> 'c rp1 \<Rightarrow> bool" where
  "fw_inv E h n s0 s \<longleftrightarrow>
     (h \<longrightarrow> host_ok E) \<and> pdi_returns E \<and> graph_wf n s \<and> fw_steps E h n s0 s \<and>
     (\<forall>i < n. packet i s = packet i s0)"

lemma fw_inv_layout: "fw_inv E h n s0 s \<Longrightarrow> layout_wf n s"
  by (simp add: fw_inv_def graph_wf_def)

lemma fw_inv_n: "fw_inv E h n s0 s \<Longrightarrow> 0 < n \<and> n \<le> 4096"
  by (simp add: fw_inv_def graph_wf_def layout_wf_def)

lemma fw_inv_node_error:
  "fw_inv E h n s0 s \<Longrightarrow> i < n \<Longrightarrow> node_error (of_nat n) (arg_available s) (node_ref i s) = None"
  by (simp add: fw_inv_def graph_wf_def valid_graph_def)

lemma fw_inv_inflight:
  "fw_inv E h n s0 s \<Longrightarrow> i < unat (g_inflight_count s) \<Longrightarrow>
   i < 32 \<and> unat (ki_node_index (g_inflight s i)) < n \<and> unat (ki_set_bucket (g_inflight s i)) < 32"
  by (auto simp: fw_inv_def graph_wf_def inflight_wf_def)

lemma fw_inv_opcode:
  "fw_inv E h n s0 s \<Longrightarrow> i < n \<Longrightarrow> opcode (node_ref i s) = opcode (node_ref i s0)"
  by (simp add: fw_inv_def packet_opcode)

lemma fw_inv_put_status [fw_ok]:
  assumes "fw_inv E h n s0 s" and "i < n" and "st \<in> {0, 1, 2, 3, 255}"
    and "st \<noteq> RP1_NODE_WAITING \<or> opcode (node_ref i s0) = RP1_OP_WAIT"
  shows "fw_inv E h n s0 (put_status i st s)"
  using assms fw_inv_opcode [OF assms(1,2)] packet_put_status [OF fw_inv_layout [OF assms(1)]]
  by (auto simp: fw_inv_def graph_wf_put_status fw_steps.status)

lemma fw_inv_prim [fw_ok]:
  "fw_inv E h n s0 s \<Longrightarrow> b < 32 \<Longrightarrow> fw_inv E h n s0 (set_barrier b v s)"
  "fw_inv E h n s0 s \<Longrightarrow> j < 256 \<Longrightarrow> fw_inv E h n s0 (put_signal j sl s)"
  "fw_inv E h n s0 s \<Longrightarrow> cq_space s \<Longrightarrow> fw_inv E h n s0 (cq_publish E e s)"
  "fw_inv E h n s0 s \<Longrightarrow> g_trace_enable s \<noteq> 0 \<Longrightarrow> j < unat (g_trace_size s) \<Longrightarrow>
    fw_inv E h n s0 (put_trace j te s)"
  "fw_inv E h n s0 s \<Longrightarrow>
    fw_inv E h n s0 (upd_ctrl (\<lambda>c. c\<lparr>trace_write_idx := trace_write_idx c + 1\<rparr>) s)"
  "fw_inv E h n s0 s \<Longrightarrow> fw_inv E h n s0 (upd_ctrl (\<lambda>c. c\<lparr>rp1_current_node := v\<rparr>) s)"
  "fw_inv E h n s0 s \<Longrightarrow> fw_inv E h n s0 (beat s)"
  "fw_inv E h n s0 s \<Longrightarrow> fw_inv E h n s0 (rp1_latch_error code nd dt ax s)"
  "fw_inv E h n s0 s \<Longrightarrow> fw_inv E h n s0 (rp1_mark_recovery_required s)"
  "fw_inv E h n s0 s \<Longrightarrow> fw_inv E h n s0 (s\<lparr>g_cq_blocked := v\<rparr>)"
  "fw_inv E h n s0 s \<Longrightarrow> j < 64 \<Longrightarrow> fw_inv E h n s0 (put_loop_iters j v s)"
  "fw_inv E h n s0 s \<Longrightarrow> fw_inv E h n s0 (s\<lparr>g_active_image_id := v\<rparr>)"
  "fw_inv E h n s0 s \<Longrightarrow> fw_inv E h n s0 (put_mem a v s)"
  "fw_inv E h n s0 s \<Longrightarrow> fw_inv E h n s0 (snd (mmio_read E a s))"
  "fw_inv E h n s0 s \<Longrightarrow> fw_inv E h n s0 (mmio_write E a v s)"
  "fw_inv E h n s0 s \<Longrightarrow> fw_inv E h n s0 (fence E s)"
  "fw_inv E h n s0 s \<Longrightarrow> fw_inv E h n s0 (snd (read_cycles E s))"
  by (simp_all add: fw_inv_def fw_steps.intros)

lemma fw_inv_track [fw_ok]:
  "fw_inv E h n s0 s \<Longrightarrow> unat (g_inflight_count s) < 32 \<Longrightarrow> unat (ki_node_index k) < n \<Longrightarrow>
   unat (ki_set_bucket k) < 32 \<Longrightarrow> fw_inv E h n s0 (push_inflight k s)"
  by (simp add: fw_inv_def graph_wf_push_inflight fw_steps.track)

lemma fw_inv_untrack [fw_ok]:
  "fw_inv E h n s0 s \<Longrightarrow> i < unat (g_inflight_count s) \<Longrightarrow> fw_inv E h n s0 (remove_inflight i s)"
  by (simp add: fw_inv_def graph_wf_remove_inflight fw_steps.untrack)

lemma fw_inv_host [fw_ok]: "fw_inv E True n s0 s \<Longrightarrow> fw_inv E True n s0 (scan_hook E s)"
  by (simp add: fw_inv_def graph_wf_scan_hook packet_scan_hook fw_steps.host)

lemma fw_inv_can_write [fw_ok]:
  "fw_inv E h n s0 s \<Longrightarrow> fw_inv E h n s0 (snd (cq_can_write fl s))"
  by (auto simp: cq_can_write_def Let_def intro: fw_ok)

text \<open>What the operations leave alone: the number of tracked kernels and the argument base.\<close>

lemma frame_simps [simp]:
  "g_inflight_count (put_status i st s) = g_inflight_count s"
  "g_inflight_count (set_barrier b v s) = g_inflight_count s"
  "g_inflight_count (put_signal j sl s) = g_inflight_count s"
  "g_inflight_count (cq_publish E e s) = g_inflight_count s"
  "g_inflight_count (put_trace j te s) = g_inflight_count s"
  "g_inflight_count (upd_ctrl f s) = g_inflight_count s"
  "g_inflight_count (beat s) = g_inflight_count s"
  "g_inflight_count (rp1_latch_error code nd dt ax s) = g_inflight_count s"
  "g_inflight_count (rp1_mark_recovery_required s) = g_inflight_count s"
  "g_inflight_count (put_loop_iters j v s) = g_inflight_count s"
  "g_inflight_count (put_mem a v s) = g_inflight_count s"
  "g_inflight_count (snd (cq_can_write fl s)) = g_inflight_count s"
  by (simp_all add: prim_defs rp1_latch_error_def cq_can_write_def Let_def)

lemma arg_available_simps [simp]:
  "arg_available (put_status i st s) = arg_available s"
  "arg_available (set_barrier b v s) = arg_available s"
  "arg_available (put_signal j sl s) = arg_available s"
  "arg_available (cq_publish E e s) = arg_available s"
  "arg_available (put_trace j te s) = arg_available s"
  "arg_available (upd_ctrl (\<lambda>c. c\<lparr>trace_write_idx := f c\<rparr>) s) = arg_available s"
  "arg_available (upd_ctrl (\<lambda>c. c\<lparr>rp1_current_node := f c\<rparr>) s) = arg_available s"
  "arg_available (rp1_latch_error code nd dt ax s) = arg_available s"
  "arg_available (put_loop_iters j w s) = arg_available s"
  "arg_available (put_mem a w s) = arg_available s"
  "arg_available (s\<lparr>g_active_image_id := w\<rparr>) = arg_available s"
  "arg_available (s\<lparr>g_cq_blocked := w\<rparr>) = arg_available s"
  "arg_available (s\<lparr>ctx := ct\<rparr>) = arg_available s"
  "arg_available (snd (cq_can_write fl s)) = arg_available s"
  "arg_available (snd (mmio_read E a s)) = arg_available s"
  "arg_available (mmio_write E a w s) = arg_available s"
  "arg_available (fence E s) = arg_available s"
  "arg_available (snd (read_cycles E s)) = arg_available s"
  by (simp_all add: prim_defs rp1_latch_error_def cq_can_write_def Let_def arg_available_def
      split_beta)

section \<open>Accessors and publishing\<close>

lemma node_read_ok [fw_ok]:
  "fw_inv E h n s0 s \<Longrightarrow> i < n \<Longrightarrow> P (node_ref i s) \<Longrightarrow> ok (node_read i s) P"
  by (simp add: node_read_def layout_wf_node [OF fw_inv_layout])

lemma status_read_ok [fw_ok]:
  "fw_inv E h n s0 s \<Longrightarrow> i < n \<Longrightarrow> P (g_node_status s i) \<Longrightarrow> ok (status_read i s) P"
  using fw_inv_n [of E h n s0 s] by (simp add: status_read_def)

lemma set_node_status_ok [fw_ok]:
  "fw_inv E h n s0 s \<Longrightarrow> i < n \<Longrightarrow> st \<in> {0, 1, 2, 3, 255} \<Longrightarrow>
   st \<noteq> RP1_NODE_WAITING \<or> opcode (node_ref i s0) = RP1_OP_WAIT \<Longrightarrow>
   (fw_inv E h n s0 (put_status i st s) \<Longrightarrow> P (put_status i st s)) \<Longrightarrow>
   ok (set_node_status i st s) P"
  using fw_inv_n [of E h n s0 s]
  by (simp add: set_node_status_def layout_wf_node [OF fw_inv_layout] fw_inv_put_status)

lemma raise_barrier_ok [fw_ok]:
  assumes "fw_inv E h n s0 s" and "unat b < 32"
    and "\<And>t. fw_inv E h n s0 t \<Longrightarrow> g_inflight_count t = g_inflight_count s \<Longrightarrow>
           arg_available t = arg_available s \<Longrightarrow> P t"
  shows "ok (raise_barrier b m s) P"
  using assms
  by (simp add: raise_barrier_def barrier_read_def barrier_write_def fw_inv_prim(1))

lemma signal_read_ok [fw_ok]:
  "fw_inv E h n s0 s \<Longrightarrow> i < 256 \<Longrightarrow> P (signal_ref i s) \<Longrightarrow> ok (signal_read i s) P"
  by (simp add: signal_read_def layout_wf_signal [OF fw_inv_layout])

lemma signal_write_ok [fw_ok]:
  "fw_inv E h n s0 s \<Longrightarrow> i < 256 \<Longrightarrow> (fw_inv E h n s0 (put_signal i v s) \<Longrightarrow> P (put_signal i v s)) \<Longrightarrow>
   ok (signal_write i v s) P"
  by (simp add: signal_write_def layout_wf_signal [OF fw_inv_layout] fw_inv_prim(2))

lemma trace_ok [fw_ok]:
  assumes inv: "fw_inv E h n s0 s"
    and P: "\<And>t. fw_inv E h n s0 t \<Longrightarrow> g_inflight_count t = g_inflight_count s \<Longrightarrow>
           arg_available t = arg_available s \<Longrightarrow> P t"
  shows "ok (trace E ev ni a0 a1 s) P"
proof (cases "g_trace_enable s = 0 \<or> g_trace s = 0 \<or> g_trace_size s = 0")
  case True
  then show ?thesis using inv P by (simp add: trace_def)
next
  case False
  let ?idx = "unat (trace_write_idx (ctrl s) mod g_trace_size s)"
  let ?s = "snd (read_cycles E s)"
  have lt: "?idx < unat (g_trace_size s)"
    using False by (simp add: unat_mod_distrib unat_gt_0)
  have same: "g_trace ?s = g_trace s" "g_trace_enable ?s = g_trace_enable s"
    "g_trace_size ?s = g_trace_size s"
    by (simp_all add: read_cycles_def split_beta)
  have "in_window (elem_addr (g_trace ?s) 16 ?idx) 16"
    using layout_wf_trace [OF fw_inv_layout [OF inv] _ lt] False same by simp
  moreover have "fw_inv E h n s0 (fence E (upd_ctrl (\<lambda>c. c\<lparr>trace_write_idx := trace_write_idx c + 1\<rparr>)
      (fence E (put_trace ?idx te ?s))))" for te
    using inv False lt same by (intro fw_ok) simp_all
  ultimately show ?thesis
    using False by (auto simp: trace_def Let_def split_beta trace_write_def intro!: P)
qed

lemma cq_slot_less:
  assumes "layout_wf n s"
  shows "cq_slot s < unat (cq_size (ctrl s))"
proof -
  obtain k where k: "k \<le> 12" "cq_size (ctrl s) = 2 ^ k"
    using assms by (auto simp: layout_wf_def)
  have "cq_slot s = unat (cq_write_idx (ctrl s)) mod 2 ^ k"
    unfolding cq_slot_def k(2) by (rule unat_and_pred_pow2)
  moreover have "unat (cq_size (ctrl s)) = 2 ^ k" using k by (simp add: unat_pow2)
  ultimately show ?thesis by simp
qed

text \<open>What a call of \<open>write_cq_entry\<close> does on each of its branches.\<close>

lemma write_cq_entry_cases:
  assumes "layout_wf n s"
  shows "write_cq_entry E fl ni st dt s =
    (if fl AND RP1_FLAG_SILENT \<noteq> 0 then Some (1, s)
     else if cq_write_idx (ctrl s) - cq_read_idx (ctrl s) > cq_size (ctrl s)
     then Some (-1, snd (cq_can_write fl s))
     else if \<not> cq_space s then Some (0, s)
     else let (now, t) = read_cycles E s in
       Some (1, fence E (cq_publish E \<lparr>cqe_node_index = ni, cqe_status = st, cqe_error_detail = dt,
         cqe_timestamp = now - g_graph_start_cycles s\<rparr> t)))"
proof -
  have frame: "g_cq (snd (read_cycles E s)) = g_cq s"
    "g_graph_start_cycles (snd (read_cycles E s)) = g_graph_start_cycles s"
    "cq_slot (snd (read_cycles E s)) = cq_slot s"
    by (simp_all add: read_cycles_def split_beta cq_slot_def)
  have win: "in_window (elem_addr (g_cq s) 16 (cq_slot s)) 16"
    using layout_wf_cq [OF assms cq_slot_less [OF assms]] .
  show ?thesis
    using win
    by (auto simp: write_cq_entry_def cq_can_write_def cq_space_def Let_def split_beta cq_write_def
        cq_publish_def frame cq_slot_def [symmetric])
qed

lemma write_cq_entry_ok [fw_ok]:
  assumes inv: "fw_inv E h n s0 s"
    and P: "\<And>r t. fw_inv E h n s0 t \<Longrightarrow> g_inflight_count t = g_inflight_count s \<Longrightarrow>
           arg_available t = arg_available s \<Longrightarrow> P (r, t)"
  shows "ok (write_cq_entry E fl ni st dt s) P"
  using inv
  by (auto simp: write_cq_entry_cases [OF fw_inv_layout [OF inv]] split_beta Let_def cq_space_def
      intro!: P fw_ok)

section \<open>What validation gives the handlers\<close>

lemma node_error_buckets:
  "node_error cnt av nd = None \<Longrightarrow>
   unat (barrier_await_bucket nd) < 32 \<and> unat (barrier_set_bucket nd) < 32"
  by (auto simp: node_error_def Let_def split: if_splits)

lemma node_error_fields:
  assumes "node_error cnt av nd = None"
  shows "opcode nd = RP1_OP_SIGNAL \<Longrightarrow> unat (sg_target_slot (payload nd)) < 256"
    and "opcode nd = RP1_OP_SCALAR_READ \<Longrightarrow> unat (sr_target_slot (payload nd)) < 256"
    and "opcode nd = RP1_OP_SCALAR_COPY \<Longrightarrow> unat (sc_source_slot (payload nd)) < 256"
    and "opcode nd = RP1_OP_WAIT \<Longrightarrow> unat (wt_condition_signal (payload nd)) < 256"
  using assms
  by (auto simp: node_error_def Let_def valid_signal_slot_def word_less_nat_alt split: if_splits)

lemma node_error_loop:
  assumes "node_error cnt av nd = None" and "opcode nd = RP1_OP_LOOP"
  shows "unat (lp_condition_signal (payload nd)) < 256" "unat (lp_loop_id (payload nd)) < 64"
    "lp_body_end (payload nd) < cnt" "unat (lp_bucket_clear_end (payload nd)) < 32"
  using assms
  by (auto simp: node_error_def Let_def valid_signal_slot_def word_less_nat_alt split: if_splits)

lemma node_error_cond:
  assumes "node_error cnt av nd = None" and "opcode nd = RP1_OP_COND"
  shows "unat (cd_condition_signal (payload nd)) < 256" "unat (cd_done_bucket (payload nd)) < 32"
    "cd_body_start (payload nd) \<le> cd_body_end (payload nd) \<Longrightarrow> cd_body_end (payload nd) < cnt"
    "cd_bucket_clear_start (payload nd) \<le> cd_bucket_clear_end (payload nd) \<Longrightarrow>
       unat (cd_bucket_clear_end (payload nd)) < 32"
  using assms
  by (auto simp: node_error_def Let_def valid_signal_slot_def word_less_nat_alt word_le_nat_alt split: if_splits)

lemma node_error_rerun:
  assumes "node_error cnt av nd = None" and "opcode nd = RP1_OP_RERUN"
  shows "rr_target_node (payload nd) < cnt"
    "rr_rerun_flags (payload nd) AND RP1_RERUN_CLEAR_STATE \<noteq> 0 \<Longrightarrow>
       unat (rr_loop_id (payload nd)) < 64"
  using assms by (auto simp: node_error_def Let_def split: if_splits)

lemma node_error_kernel:
  assumes "node_error cnt av nd = None" and "opcode nd = RP1_OP_KERNEL_DISPATCH"
  shows "kd_arg_buffer_offset (payload nd) AND 7 = 0"
    "kd_arg_buffer_offset (payload nd) \<le> av"
    "ucast (kd_arg_count (payload nd)) * 8 \<le> av - kd_arg_buffer_offset (payload nd)"
  using assms by (auto simp: node_error_def Let_def split: if_splits)

lemma of_nat_less_word:
  assumes "x < (of_nat n :: u32)" and "n \<le> 4096"
  shows "unat x < n"
proof -
  have "unat (of_nat n :: u32) = n" using assms(2) by (simp only: unat_of_nat) simp
  with assms(1) show ?thesis by (simp add: word_less_nat_alt)
qed

text \<open>The argument pairs of a validated dispatch lie inside the window.\<close>

lemma args_in_window:
  assumes lay: "layout_wf n s" and nd: "node_error cnt (arg_available s) nd = None"
    and opc: "opcode nd = RP1_OP_KERNEL_DISPATCH"
  shows "in_window (g_arg_buf s + 4 * (kd_arg_buffer_offset (payload nd) div 4))
           (8 * unat (kd_arg_count (payload nd)))"
proof -
  let ?off = "kd_arg_buffer_offset (payload nd)" and ?c = "kd_arg_count (payload nd)"
  let ?b = "arg_buf_base_lo (ctrl s)"
  note v = node_error_kernel [OF nd opc]
  have base: "g_arg_buf s = ?b" "0x30000000 \<le> unat ?b" "unat ?b + 4 \<le> 0x34000000"
    using lay by (auto simp: layout_wf_def in_window_def)
  then have av: "unat (arg_available s) = 0x34000000 - unat ?b"
    by (simp add: arg_available_def unat_sub_if')
  have off: "unat ?off \<le> unat (arg_available s)" using v(2) by (simp add: word_le_nat_alt)
  have "unat ?off mod 8 = 0" using unat_and_pred_pow2 [of ?off 3] v(1) by simp
  then have "4 * (unat ?off div 4) = unat ?off" by presburger
  moreover have "unat ?off < 2 ^ 32" using unsigned_less [of ?off] by simp
  ultimately have "unat (4 * (?off div 4)) = unat ?off"
    by (simp add: unat_mult_lem [THEN iffD1] unat_div_distrib)
  then have aligned: "4 * (?off div 4) = ?off" by (simp add: word_unat_eq_iff)
  have "unat ?c < 2 ^ 16" using unsigned_less [of ?c] by simp
  then have "unat (ucast ?c * 8 :: u32) = 8 * unat ?c"
    by (simp add: unat_word_ariths)
  moreover have "unat (ucast ?c * 8 :: u32) \<le> unat (arg_available s - ?off)"
    using v(3) by (simp add: word_le_nat_alt)
  moreover have "unat (arg_available s - ?off) = unat (arg_available s) - unat ?off"
    using off by (simp add: unat_sub_if')
  ultimately have bytes: "8 * unat ?c \<le> unat (arg_available s) - unat ?off" by simp
  have "unat (?b + ?off) = unat ?b + unat ?off"
    using av off base by (simp add: unat_word_ariths)
  then show ?thesis
    using aligned base av off bytes by (simp add: in_window_def)
qed

section \<open>The handlers\<close>

lemma write_args_ok:
  assumes "fw_inv E h n s0 s" and "in_window args (8 * m)" and "set is \<subseteq> {..<m}"
    and "\<And>t. fw_inv E h n s0 t \<Longrightarrow> g_inflight_count t = g_inflight_count s \<Longrightarrow>
           arg_available t = arg_available s \<Longrightarrow> P t"
  shows "ok (write_args E base args is s) P"
  using assms
proof (induction "is" arbitrary: s)
  case Nil
  then show ?case by simp
next
  case (Cons i "is")
  have w: "in_window (elem_addr args 8 i) 8"
    using in_window_elem [OF Cons.prems(2), of i] Cons.prems(3) by simp
  then have "unat (elem_addr args 8 i + 4) = unat (elem_addr args 8 i) + 4"
    by (simp add: in_window_def unat_word_ariths)
  with w have "in_window (elem_addr args 8 i) 4" "in_window (elem_addr args 8 i + 4) 4"
    by (simp_all add: in_window_def)
  then show ?case
    using Cons.IH [OF fw_inv_prim(15) [OF Cons.prems(1)] Cons.prems(2)] Cons.prems(3,4)
    by (simp add: arg_read_def)
qed

lemma launch_kernel_ok [fw_ok]:
  assumes inv: "fw_inv E h n s0 s" and nd: "node_error cnt (arg_available s) nd = None"
    and opc: "opcode nd = RP1_OP_KERNEL_DISPATCH"
    and P: "\<And>t. fw_inv E h n s0 t \<Longrightarrow> g_inflight_count t = g_inflight_count s \<Longrightarrow>
           arg_available t = arg_available s \<Longrightarrow> P t"
  shows "ok (launch_kernel E nd s) P"
proof -
  note w = args_in_window [OF fw_inv_layout [OF inv] nd opc]
  show ?thesis
    using inv
    by (auto simp: launch_kernel_def Let_def intro!: write_args_ok [OF _ w] P fw_ok)
qed

lemma add_inflight_ok [fw_ok]:
  assumes inv: "fw_inv E h n s0 s" and "unat (g_inflight_count s) < 32" and i: "i < n"
    and "unat (barrier_set_bucket nd) < 32"
    and P: "\<And>t. fw_inv E h n s0 t \<Longrightarrow> P t"
  shows "ok (add_inflight E nd i s) P"
proof -
  have "unat (of_nat i :: u32) = i"
    using fw_inv_n [OF inv] i by (simp only: unat_of_nat) simp
  then show ?thesis
    using assms by (auto simp: add_inflight_def Let_def split_beta intro!: P fw_ok)
qed

lemma scalar_writes_inv [fw_ok]:
  "fw_inv E h n s0 s \<Longrightarrow> fw_inv E h n s0 (scalar_writes E ws s)"
  by (induction E ws s rule: scalar_writes.induct) (auto intro: fw_ok)

lemma scalar_writes_frame [simp]:
  "g_inflight_count (scalar_writes E ws s) = g_inflight_count s"
  "arg_available (scalar_writes E ws s) = arg_available s"
  by (induction E ws s rule: scalar_writes.induct) auto

lemma dma_put_mem:
  "dma_copy src dst (w # ws) s =
     dma_copy src dst ws (put_mem (elem_addr dst 4 w) (d_mem (ddr s) (elem_addr src 4 w)) s)"
  "dma_fill dst v (w # ws) s = dma_fill dst v ws (put_mem (elem_addr dst 4 w) v s)"
  by (simp_all add: put_mem_def)

lemma dma_inv [fw_ok]:
  "fw_inv E h n s0 s \<Longrightarrow> fw_inv E h n s0 (dma_copy src dst ws s)"
  "fw_inv E h n s0 s \<Longrightarrow> fw_inv E h n s0 (dma_fill dst v ws s)"
  by (induction ws arbitrary: s)
    (simp_all add: dma_put_mem fw_inv_prim del: dma_copy.simps(2) dma_fill.simps(2))

lemma dma_frame [simp]:
  "g_inflight_count (dma_copy src dst ws s) = g_inflight_count s"
  "arg_available (dma_copy src dst ws s) = arg_available s"
  "g_inflight_count (dma_fill dst v ws s) = g_inflight_count s"
  "arg_available (dma_fill dst v ws s) = arg_available s"
  by (induction ws arbitrary: s)
    (simp_all add: dma_put_mem del: dma_copy.simps(2) dma_fill.simps(2))

lemma execute_immediate_ok [fw_ok]:
  assumes inv: "fw_inv E h n s0 s" and nd: "node_error cnt av nd = None"
    and P: "\<And>t. fw_inv E h n s0 t \<Longrightarrow> g_inflight_count t = g_inflight_count s \<Longrightarrow>
           arg_available t = arg_available s \<Longrightarrow> P t"
  shows "ok (execute_immediate E nd i s) P"
  using inv
  by (auto simp: execute_immediate_def Let_def split_beta node_error_fields [OF nd]
      intro!: P fw_ok)

lemma complete_node_ok [fw_ok]:
  assumes "fw_inv E h n s0 s" and "i < n" and "unat (barrier_set_bucket nd) < 32"
    and "\<And>r t. fw_inv E h n s0 t \<Longrightarrow> g_inflight_count t = g_inflight_count s \<Longrightarrow> P (r, t)"
  shows "ok (complete_node E nd i s) P"
  using assms by (auto simp: complete_node_def intro!: fw_ok)

lemma clear_buckets_ok [fw_ok]:
  assumes "fw_inv E h n s0 s" and "b \<le> e \<Longrightarrow> unat e < 32"
    and "\<And>t. fw_inv E h n s0 t \<Longrightarrow> g_inflight_count t = g_inflight_count s \<Longrightarrow> P t"
  shows "ok (clear_buckets b e s) P"
  using assms
proof (induction b e s rule: clear_buckets.induct)
  case (1 b e s)
  show ?case
  proof (cases "b \<le> e")
    case True
    then have "unat b < 32" using "1.prems"(2) by (simp add: word_le_nat_alt)
    then show ?thesis
      using "1.IH" [OF True] "1.prems" True
      by (subst clear_buckets.simps) (simp add: fw_inv_prim(1))
  next
    case False
    then show ?thesis using "1.prems" by (subst clear_buckets.simps) simp
  qed
qed

lemma rearm_nodes_ok [fw_ok]:
  assumes "fw_inv E h n s0 s" and "m \<le> e \<Longrightarrow> unat e < n"
    and "\<And>t. fw_inv E h n s0 t \<Longrightarrow> g_inflight_count t = g_inflight_count s \<Longrightarrow> P t"
  shows "ok (rearm_nodes m e s) P"
  using assms
proof (induction m e s rule: rearm_nodes.induct)
  case (1 m e s)
  show ?case
  proof (cases "m \<le> e")
    case True
    then have m: "unat m < n" using "1.prems"(2) by (simp add: word_le_nat_alt)
    then have "unat m < 4096" using fw_inv_n [OF "1.prems"(1)] by simp
    then have st: "set_node_status (unat m) 0 s = Some (put_status (unat m) 0 s)"
      using layout_wf_node [OF fw_inv_layout [OF "1.prems"(1)] m]
      by (simp add: set_node_status_def)
    have "rearm_nodes m e s = rearm_nodes (m + 1) e (put_status (unat m) 0 s)"
      using True \<open>unat m < 4096\<close> st by (subst rearm_nodes.simps) simp
    then show ?thesis
      using "1.IH" [OF True _ st] \<open>unat m < 4096\<close> True fw_inv_put_status [OF "1.prems"(1) m]
        "1.prems"(2,3) by simp
  next
    case False
    then show ?thesis using "1.prems" by (subst rearm_nodes.simps) simp
  qed
qed

lemma activate_kernel_ok [fw_ok]:
  assumes inv: "fw_inv E h n s0 s" and i: "i < n"
    and nd: "node_error cnt (arg_available s) nd = None"
    and opc: "opcode nd = RP1_OP_KERNEL_DISPATCH"
    and P: "\<And>r t. fw_inv E h n s0 t \<Longrightarrow> P (r, t)"
  shows "ok (activate_kernel E nd i s) P"
proof -
  note b = node_error_buckets [OF nd]
  have "g_inflight_count s < 32 \<Longrightarrow> unat (g_inflight_count s) < 32"
    by (simp add: word_less_nat_alt)
  then show ?thesis
    using inv i b
    by (auto simp: activate_kernel_def activate_image_mismatch_def Let_def not_le
        intro!: P fw_ok launch_kernel_ok [OF inv nd opc])
qed

lemma activate_pdi_ok [fw_ok]:
  assumes inv: "fw_inv E h n s0 s" and i: "i < n" and nd: "node_error cnt av nd = None"
    and P: "\<And>r t. fw_inv E h n s0 t \<Longrightarrow> P (r, t)"
  shows "ok (activate_pdi E nd i s) P"
proof -
  let ?p = "payload nd"
  obtain r c where rc: "rp1_pdi_load E (pl_pdi_addr_lo ?p) (pl_pdi_addr_hi ?p)
      (pl_timeout_cycles ?p) (ctx s) = Some (r, c)"
    using inv by (fastforce simp: fw_inv_def pdi_returns_def)
  have "fw_inv E h n s0 (s\<lparr>ctx := c\<rparr>)"
    using inv fw_steps.pdi [OF _ rc] by (simp add: fw_inv_def)
  then show ?thesis
    using i node_error_buckets [OF nd]
    by (auto simp: activate_pdi_def Let_def rc intro!: P fw_ok)
qed

lemma activate_loop_ok [fw_ok]:
  assumes inv: "fw_inv E h n s0 s" and i: "i < n" and nd: "node_error (of_nat n) av nd = None"
    and opc: "opcode nd = RP1_OP_LOOP"
    and P: "\<And>r t. fw_inv E h n s0 t \<Longrightarrow> P (r, t)"
  shows "ok (activate_loop E nd i s) P"
proof -
  note v = node_error_loop [OF nd opc] node_error_buckets [OF nd]
  have "unat (lp_body_end (payload nd)) < n"
    using of_nat_less_word [OF v(3)] fw_inv_n [OF inv] by simp
  then show ?thesis
    using inv i v
    by (auto simp: activate_loop_def Let_def loop_iters_read_def loop_iters_write_def
        intro!: P fw_ok)
qed

lemma activate_cond_ok [fw_ok]:
  assumes inv: "fw_inv E h n s0 s" and i: "i < n" and nd: "node_error (of_nat n) av nd = None"
    and opc: "opcode nd = RP1_OP_COND"
    and P: "\<And>r t. fw_inv E h n s0 t \<Longrightarrow> P (r, t)"
  shows "ok (activate_cond E nd i s) P"
proof -
  note v = node_error_cond [OF nd opc] node_error_buckets [OF nd]
  have "cd_body_start (payload nd) \<le> cd_body_end (payload nd) \<Longrightarrow>
        unat (cd_body_end (payload nd)) < n"
    using of_nat_less_word v(3) fw_inv_n [OF inv] by blast
  then show ?thesis
    using inv i v by (auto simp: activate_cond_def Let_def intro!: P fw_ok)
qed

lemma activate_rerun_ok [fw_ok]:
  assumes inv: "fw_inv E h n s0 s" and i: "i < n" and nd: "node_error (of_nat n) av nd = None"
    and opc: "opcode nd = RP1_OP_RERUN"
    and P: "\<And>r t. fw_inv E h n s0 t \<Longrightarrow> P (r, t)"
  shows "ok (activate_rerun E nd i s) P"
proof -
  note v = node_error_rerun [OF nd opc] node_error_buckets [OF nd]
  have "unat (rr_target_node (payload nd)) < n"
    using of_nat_less_word [OF v(1)] fw_inv_n [OF inv] by simp
  then show ?thesis
    using inv i v by (auto simp: activate_rerun_def Let_def loop_iters_write_def intro!: P fw_ok)
qed

lemma activate_wait_ok [fw_ok]:
  assumes inv: "fw_inv E h n s0 s" and i: "i < n" and nd: "node_error cnt av nd = None"
    and opc: "opcode nd = RP1_OP_WAIT" and same: "opcode (node_ref i s0) = opcode nd"
    and P: "\<And>r t. fw_inv E h n s0 t \<Longrightarrow> P (r, t)"
  shows "ok (activate_wait E nd i s) P"
  using inv i node_error_fields(4) [OF nd opc] node_error_buckets [OF nd] same opc
  by (auto simp: activate_wait_def Let_def intro!: P fw_ok)

lemma activate_halt_ok [fw_ok]:
  assumes "fw_inv E h n s0 s" and "i < n" and "\<And>r t. fw_inv E h n s0 t \<Longrightarrow> P (r, t)"
  shows "ok (activate_halt E nd i s) P"
  using assms by (auto simp: activate_halt_def intro!: fw_ok)

lemma activate_immediate_ok [fw_ok]:
  assumes inv: "fw_inv E h n s0 s" and i: "i < n" and nd: "node_error cnt av nd = None"
    and P: "\<And>r t. fw_inv E h n s0 t \<Longrightarrow> P (r, t)"
  shows "ok (activate_immediate E nd i s) P"
  using inv i node_error_buckets [OF nd]
  by (auto simp: activate_immediate_def intro!: P fw_ok execute_immediate_ok [OF inv nd])

lemma run_opcode_ok [fw_ok]:
  assumes inv: "fw_inv E h n s0 s" and i: "i < n"
    and nd: "node_error (of_nat n) (arg_available s) nd = None"
    and same: "opcode (node_ref i s0) = opcode nd"
    and P: "\<And>r t. fw_inv E h n s0 t \<Longrightarrow> P (r, t)"
  shows "ok (run_opcode E nd i s) P"
  using P same
  by (auto simp: run_opcode_def Let_def intro: activate_kernel_ok [OF inv i nd]
      activate_pdi_ok [OF inv i nd] activate_loop_ok [OF inv i nd] activate_cond_ok [OF inv i nd]
      activate_rerun_ok [OF inv i nd] activate_wait_ok [OF inv i nd]
      activate_halt_ok [OF inv i] activate_immediate_ok [OF inv i nd])

lemma activate_node_ok:
  assumes inv: "fw_inv E h n s0 s" and i: "i < n"
    and P: "\<And>r t. fw_inv E h n s0 t \<Longrightarrow> P (r, t)"
  shows "ok (activate_node E i s) P"
proof -
  note nd = fw_inv_node_error [OF inv i]
  show ?thesis
    using inv i nd node_error_buckets [OF nd] fw_inv_opcode [OF inv i]
    by (auto simp: activate_node_def activate_ready_def Let_def split_beta barrier_read_def intro!: P fw_ok)
qed

lemma check_wait_ok:
  assumes inv: "fw_inv E h n s0 s" and i: "i < n"
    and P: "\<And>r t. fw_inv E h n s0 t \<Longrightarrow> P (r, t)"
  shows "ok (check_wait E i s) P"
proof -
  note nd = fw_inv_node_error [OF inv i]
  have "g_node_status s i = 3 \<Longrightarrow> opcode (node_ref i s) = RP1_OP_WAIT"
    using inv i by (simp add: fw_inv_def graph_wf_def waiting_wf_def)
  then have "g_node_status s i = 3 \<Longrightarrow> unat (wt_condition_signal (payload (node_ref i s))) < 256"
    using node_error_fields(4) [OF nd] by simp
  then show ?thesis
    using inv i nd node_error_buckets [OF nd]
    by (auto simp: check_wait_def Let_def split_beta split: scan_step.split intro!: P fw_ok)
qed

lemma scan_nodes_ok:
  assumes "\<And>i s Q. fw_inv E h n s0 s \<Longrightarrow> i < n \<Longrightarrow> (\<And>r t. fw_inv E h n s0 t \<Longrightarrow> Q (r, t)) \<Longrightarrow>
             ok (f i s) Q"
    and "fw_inv E h n s0 s" and "set is \<subseteq> {..<n}"
    and "\<And>r t. fw_inv E h n s0 t \<Longrightarrow> P (r, t)"
  shows "ok (scan_nodes f is m s) P"
  using assms(2-)
proof (induction "is" arbitrary: m s)
  case Nil
  then show ?case by simp
next
  case (Cons i "is")
  then show ?case
    by (auto split: scan_step.split intro!: assms(1))
qed

section \<open>Polling, quiescence and the loop\<close>

text \<open>What one iteration over the in-flight table does to its length.\<close>

definition poll_count :: "poll_step \<Rightarrow> 'c rp1 \<Rightarrow> 'c rp1 \<Rightarrow> bool" where
  "poll_count r s t \<longleftrightarrow>
     (case r of
        Advance \<Rightarrow> g_inflight_count t = g_inflight_count s
      | Removed \<Rightarrow> g_inflight_count t = g_inflight_count s - 1
      | Fatal \<Rightarrow> True)"

lemma poll_count_simps [simp]:
  "poll_count Advance s t \<longleftrightarrow> g_inflight_count t = g_inflight_count s"
  "poll_count Removed s t \<longleftrightarrow> g_inflight_count t = g_inflight_count s - 1"
  "poll_count Fatal s t"
  by (simp_all add: poll_count_def)

lemma poll_count_cong:
  "poll_count r s' t \<Longrightarrow> g_inflight_count s' = g_inflight_count s \<Longrightarrow> poll_count r s t"
  by (cases r) simp_all

lemma finish_inflight_ok [fw_ok]:
  assumes "fw_inv E h n s0 s" and "i < unat (g_inflight_count s)"
    and "unat (ki_node_index k) < n" and "unat (ki_set_bucket k) < 32"
    and P: "\<And>r t. fw_inv E h n s0 t \<Longrightarrow> poll_count r s t \<Longrightarrow> P (r, t)"
  shows "ok (finish_inflight E i k fl s) P"
  using assms(1-4) by (auto simp: finish_inflight_def intro!: P fw_ok)

lemma expire_inflight_ok [fw_ok]:
  assumes "fw_inv E h n s0 s" and "i < unat (g_inflight_count s)"
    and "unat (ki_node_index k) < n" and "unat (ki_set_bucket k) < 32"
    and P: "\<And>r t. fw_inv E h n s0 t \<Longrightarrow> poll_count r s t \<Longrightarrow> P (r, t)"
  shows "ok (expire_inflight E i k fl s) P"
  using assms(1-4) by (auto simp: expire_inflight_def Let_def intro!: P fw_ok)

lemma check_inflight_one_ok:
  assumes inv: "fw_inv E h n s0 s" and i: "i < unat (g_inflight_count s)"
    and P: "\<And>r t. fw_inv E h n s0 t \<Longrightarrow> poll_count r s t \<Longrightarrow> P (r, t)"
  shows "ok (check_inflight_one E i s) P"
proof -
  let ?k = "g_inflight s i"
  note k = fw_inv_inflight [OF inv i]
  have "ok (node_read (unat (ki_node_index ?k)) s) (\<lambda>nd. nd = node_ref (unat (ki_node_index ?k)) s)"
    using k by (intro node_read_ok [OF inv]) auto
  then show ?thesis
    using inv i k
    by (auto simp: check_inflight_one_def inflight_read_def Let_def split_beta
        elim!: ok_mono poll_count_cong intro!: P fw_ok)
qed

lemma check_inflight_loop_ok:
  assumes "fw_inv E h n s0 s" and "unat (g_inflight_count s) - i \<le> fuel"
    and "\<And>r t. fw_inv E h n s0 t \<Longrightarrow> P (r, t)"
  shows "ok (check_inflight_loop E fuel i m s) P"
  using assms(1,2)
proof (induction fuel arbitrary: i m s)
  case 0
  then show ?case using assms(3) by (subst check_inflight_loop.simps) simp
next
  case (Suc fuel)
  show ?case
  proof (cases "i < unat (g_inflight_count s)")
    case True
    then have "unat (g_inflight_count s - 1) = unat (g_inflight_count s) - 1"
      by (intro unat_pred) auto
    then show ?thesis
      using True Suc assms(3)
      by (subst check_inflight_loop.simps)
        (auto split: poll_step.split intro!: check_inflight_one_ok [OF Suc.prems(1)] Suc.IH)
  next
    case False
    then show ?thesis using Suc.prems assms(3) by (subst check_inflight_loop.simps) simp
  qed
qed

lemma check_inflight_ok [fw_ok]:
  "fw_inv E h n s0 s \<Longrightarrow> (\<And>r t. fw_inv E h n s0 t \<Longrightarrow> P (r, t)) \<Longrightarrow> ok (check_inflight E s) P"
  unfolding check_inflight_def by (rule check_inflight_loop_ok) auto

lemma activate_nodes_ok [fw_ok]:
  "fw_inv E h n s0 s \<Longrightarrow> (\<And>r t. fw_inv E h n s0 t \<Longrightarrow> P (r, t)) \<Longrightarrow> ok (activate_nodes E n s) P"
  unfolding activate_nodes_def by (rule scan_nodes_ok [OF activate_node_ok]) auto

lemma check_waits_ok [fw_ok]:
  "fw_inv E h n s0 s \<Longrightarrow> (\<And>r t. fw_inv E h n s0 t \<Longrightarrow> P (r, t)) \<Longrightarrow> ok (check_waits E n s) P"
  unfolding check_waits_def by (rule scan_nodes_ok [OF check_wait_ok]) auto

lemma quiesce_publish_ok [fw_ok]:
  assumes "fw_inv E h n s0 s" and "unat (ki_node_index k) < n" and "nst \<in> {2, 255}"
    and P: "\<And>t. fw_inv E h n s0 t \<Longrightarrow> g_inflight_count t = g_inflight_count s \<Longrightarrow> P t"
  shows "ok (quiesce_publish E k fl nst cst dt s) P"
  using assms(1-3) by (auto simp: quiesce_publish_def intro!: P fw_ok)

lemma quiesce_one_ok:
  assumes inv: "fw_inv E h n s0 s" and i: "i < unat (g_inflight_count s)"
    and P: "\<And>r t. fw_inv E h n s0 t \<Longrightarrow> poll_count r s t \<Longrightarrow> r \<noteq> Fatal \<Longrightarrow> P (r, t)"
  shows "ok (quiesce_one E i s) P"
proof -
  let ?k = "g_inflight s i"
  note k = fw_inv_inflight [OF inv i]
  have "ok (node_read (unat (ki_node_index ?k)) s) (\<lambda>nd. nd = node_ref (unat (ki_node_index ?k)) s)"
    using k by (intro node_read_ok [OF inv]) auto
  then show ?thesis
    using inv i k
    by (auto simp: quiesce_one_def inflight_read_def Let_def split_beta
        elim!: ok_mono intro!: P fw_ok)
qed

lemma quiesce_pass_ok:
  assumes "fw_inv E h n s0 s" and "unat (g_inflight_count s) - i \<le> fuel"
    and "\<And>t. fw_inv E h n s0 t \<Longrightarrow> P t"
  shows "ok (quiesce_pass E fuel i s) P"
  using assms(1,2)
proof (induction fuel arbitrary: i s)
  case 0
  then show ?case using assms(3) by (subst quiesce_pass.simps) simp
next
  case (Suc fuel)
  show ?case
  proof (cases "i < unat (g_inflight_count s)")
    case True
    then have pred: "unat (g_inflight_count s - 1) = unat (g_inflight_count s) - 1"
      by (intro unat_pred) auto
    have "ok (quiesce_pass E fuel (if r = Removed then i else i + 1) t) P"
      if "fw_inv E h n s0 t" "poll_count r s t" "r \<noteq> Fatal" for r t
      using that True pred Suc.prems(2) by (cases r) (auto intro!: Suc.IH)
    then show ?thesis
      using True
      by (subst quiesce_pass.simps) (auto intro!: quiesce_one_ok [OF Suc.prems(1)])
  next
    case False
    then show ?thesis using Suc.prems assms(3) by (subst quiesce_pass.simps) simp
  qed
qed

lemma quiesce_inflight_ok [fw_ok]:
  assumes "fw_inv E True n s0 s"
    and P: "\<And>b t. fw_inv E True n s0 t \<Longrightarrow> (b \<longrightarrow> g_inflight_count t = 0) \<Longrightarrow> P (b, t)"
  shows "ok (quiesce_inflight E fuel s) P"
  using assms(1)
proof (induction fuel arbitrary: s)
  case 0
  then show ?case by (subst quiesce_inflight.simps) (auto intro!: P)
next
  case (Suc fuel)
  then show ?case
    by (subst quiesce_inflight.simps)
      (auto intro!: P quiesce_pass_ok [OF Suc.prems] Suc.IH fw_inv_host fw_inv_prim)
qed

lemma any_active_ok:
  assumes "fw_inv E h n s0 s" and "set is \<subseteq> {..<n}"
  shows "any_active is s =
    Some (\<exists>i \<in> set is. g_node_status s i = ucast RP1_NODE_DISPATCHED \<or>
                      g_node_status s i = ucast RP1_NODE_WAITING)"
  using assms(2) fw_inv_n [OF assms(1)]
  by (induction "is") (auto simp: status_read_def)

lemma scan_pass_ok:
  assumes "fw_inv E True n s0 s" and P: "\<And>r t. fw_inv E True n s0 t \<Longrightarrow> P (r, t)"
  shows "ok (scan_pass E n s) P"
proof -
  have active: "ok (any_active [0..<n] t) Q" if "fw_inv E True n s0 t" "\<And>b. Q b" for t Q
    using any_active_ok [OF that(1), of "[0..<n]"] that(2) by (simp add: atLeast0LessThan)
  show ?thesis
    using assms(1)
    by (auto simp: scan_pass_def Let_def intro!: P active fw_ok)
qed

lemma scan_loop_ok:
  assumes "fw_inv E True n s0 s"
    and P: "\<And>r t. fw_inv E True n s0 t \<Longrightarrow> P (r, t)"
  shows "ok (scan_loop E n fuel s) P"
  using assms(1)
proof (induction fuel arbitrary: s)
  case 0
  then show ?case by (simp add: P)
next
  case (Suc fuel)
  then show ?case
    by (auto simp: quiesce_and_return_def split: pass_result.split intro!: scan_pass_ok P fw_ok
        Suc.IH)
qed

section \<open>Validation\<close>

text \<open>\<open>validate_nodes\<close> reports the first packet that is in error.\<close>

lemma validate_from_find:
  assumes "layout_wf n s" and "set is \<subseteq> {..<n}"
  shows "validate_from cnt is s =
    Some (map_option (\<lambda>i. (i, the (node_error cnt (arg_available s) (node_ref i s))))
      (List.find (\<lambda>i. node_error cnt (arg_available s) (node_ref i s) \<noteq> None) is))"
  using assms(2)
proof (induction "is")
  case Nil
  then show ?case by simp
next
  case (Cons i "is")
  then have "node_read i s = Some (node_ref i s)"
    using layout_wf_node [OF assms(1)] by (simp add: node_read_def)
  then show ?case using Cons by (auto split: option.split)
qed

lemma validate_nodes_iff:
  assumes "layout_wf (unat cnt) s"
  obtains "validate_nodes cnt s = Some None" "valid_graph (unat cnt) s"
  | i d a where "validate_nodes cnt s = Some (Some (i, d, a))" "i < unat cnt"
    "node_error cnt (arg_available s) (node_ref i s) = Some (d, a)"
    "\<And>j. j < i \<Longrightarrow> node_error cnt (arg_available s) (node_ref j s) = None"
    "\<not> valid_graph (unat cnt) s"
proof (cases "List.find (\<lambda>i. node_error cnt (arg_available s) (node_ref i s) \<noteq> None) [0..<unat cnt]")
  case None
  then have "\<forall>i < unat cnt. node_error cnt (arg_available s) (node_ref i s) = None"
    unfolding find_None_iff by (metis atLeast_upt lessThan_iff)
  then have "valid_graph (unat cnt) s" by (simp add: valid_graph_def)
  moreover have "validate_nodes cnt s = Some None"
    using None validate_from_find [OF assms, of "[0..<unat cnt]" cnt]
    by (simp add: validate_nodes_def atLeast0LessThan)
  ultimately show ?thesis using that(1) by blast
next
  case (Some i)
  then have i: "i < unat cnt" "node_error cnt (arg_available s) (node_ref i s) \<noteq> None"
    "\<And>j. j < i \<Longrightarrow> node_error cnt (arg_available s) (node_ref j s) = None"
    unfolding find_Some_iff by (auto simp del: not_None_eq)
  obtain d a where da: "node_error cnt (arg_available s) (node_ref i s) = Some (d, a)"
    using i(2) by fastforce
  have "validate_nodes cnt s = Some (Some (i, d, a))"
    using Some da validate_from_find [OF assms, of "[0..<unat cnt]" cnt]
    by (simp add: validate_nodes_def atLeast0LessThan)
  moreover have "\<not> valid_graph (unat cnt) s" using i da by (auto simp: valid_graph_def)
  ultimately show ?thesis using that(2) i da by blast
qed

section \<open>The loop from an initialised store\<close>

text \<open>The state \<open>rp1_store_init\<close> hands to \<open>rp1_loop\<close>.\<close>

definition fresh :: "nat \<Rightarrow> 'c rp1 \<Rightarrow> bool" where
  "fresh n s \<longleftrightarrow> layout_wf n s \<and> n = unat (node_count (ctrl s)) \<and> g_inflight_count s = 0 \<and>
     (\<forall>i < n. g_node_status s i = 0)"

lemma fresh_graph_wf: "fresh n s \<Longrightarrow> valid_graph n s \<Longrightarrow> graph_wf n s"
  by (auto simp: fresh_def graph_wf_def inflight_wf_def waiting_wf_def)

lemma fresh_fw_inv:
  "fresh n s \<Longrightarrow> valid_graph n s \<Longrightarrow> (h \<longrightarrow> host_ok E) \<Longrightarrow> pdi_returns E \<Longrightarrow> fw_inv E h n s s"
  by (simp add: fw_inv_def fresh_graph_wf fw_steps.refl)

lemma rp1_loop_valid:
  assumes "fresh n s" and "valid_graph n s"
  shows "rp1_loop E fuel s = scan_loop E n fuel s"
proof -
  have n: "n = unat (node_count (ctrl s))" and lay: "layout_wf (unat (node_count (ctrl s))) s"
    using assms(1) by (auto simp: fresh_def)
  show ?thesis
    using lay by (rule validate_nodes_iff) (use n assms(2) in \<open>simp_all add: rp1_loop_def\<close>)
qed

end
