(* ===== verification/Rp1_Loop_Props.thy ===== *)
theory Rp1_Loop_Props
  imports Rp1_Loop_Safety
begin

unbundle bit_operations_syntax

text \<open>
  What the dispatch loop guarantees beyond memory safety: a rejected graph has no effect on
  the fabric, the first error cause survives, the completion queue is a bounded first-in
  first-out list, a full queue back-pressures without side effects, a graph reported complete
  has nothing left to run, straight-line graphs complete within a bounded number of passes,
  and fatal quiescence releases no barrier and demands recovery for what it abandons.
\<close>

section \<open>Rejected graphs have no fabric effect\<close>

text \<open>
  \<open>quiet E Q\<close>: the property \<open>Q\<close> of the world survives barriers, counter reads and host turns.
  That it survives an operation for every such \<open>Q\<close> says that the operation reads and writes no
  device register.
\<close>

definition quiet :: "'c rp1_env \<Rightarrow> ('c \<Rightarrow> bool) \<Rightarrow> bool" where
  "quiet E Q \<longleftrightarrow>
     (\<forall>c. Q c \<longrightarrow> Q (rp1_barrier E c)) \<and> (\<forall>c. Q c \<longrightarrow> Q (snd (rp1_cycles E c))) \<and>
     (\<forall>f d c. on_scan_pass E = Some f \<longrightarrow> Q c \<longrightarrow> Q (snd (f (d, c))))"

lemma scan_hook_frame [simp]:
  "g_inflight_count (scan_hook E s) = g_inflight_count s"
  "g_inflight (scan_hook E s) = g_inflight s"
  "g_barriers (scan_hook E s) = g_barriers s"
  "g_node_status (scan_hook E s) = g_node_status s"
  "g_active_image_id (scan_hook E s) = g_active_image_id s"
  "g_nodes (scan_hook E s) = g_nodes s"
  by (simp_all add: scan_hook_def split: option.split prod.split)

lemma layout_wf_scan_hook: "host_ok E \<Longrightarrow> layout_wf n s \<Longrightarrow> layout_wf n (scan_hook E s)"
  unfolding layout_wf_def scan_hook_def host_ok_def
  by (auto split: option.split prod.split)

lemma layout_wf_prim [simp]:
  "layout_wf n (cq_publish E e s) = layout_wf n s"
  "layout_wf n (fence E s) = layout_wf n s"
  "layout_wf n (beat s) = layout_wf n s"
  "layout_wf n (snd (read_cycles E s)) = layout_wf n s"
  "layout_wf n (rp1_latch_error code nd dt ax s) = layout_wf n s"
  by (simp_all add: layout_wf_def prim_defs rp1_latch_error_def split_beta)

text \<open>The part of the state that reporting a bad node leaves alone.\<close>

definition idle_tables :: "'c rp1 \<Rightarrow> 'c rp1 \<Rightarrow> bool" where
  "idle_tables s t \<longleftrightarrow> g_inflight_count t = g_inflight_count s \<and> g_barriers t = g_barriers s \<and>
     g_active_image_id t = g_active_image_id s"

lemma publish_frame [simp]:
  "ctx (cq_publish E e s) = rp1_barrier E (ctx s)" "ctx (fence E s) = rp1_barrier E (ctx s)"
  "ctx (snd (read_cycles E s)) = snd (rp1_cycles E (ctx s))"
  "ctx (rp1_latch_error code nd dt ax s) = ctx s"
  "g_barriers (cq_publish E e s) = g_barriers s" "g_barriers (fence E s) = g_barriers s"
  "g_barriers (snd (read_cycles E s)) = g_barriers s"
  "g_barriers (rp1_latch_error code nd dt ax s) = g_barriers s"
  "g_active_image_id (cq_publish E e s) = g_active_image_id s"
  "g_active_image_id (fence E s) = g_active_image_id s"
  "g_active_image_id (snd (read_cycles E s)) = g_active_image_id s"
  "g_active_image_id (rp1_latch_error code nd dt ax s) = g_active_image_id s"
  by (simp_all add: prim_defs rp1_latch_error_def split_beta)

lemma report_bad_node_quiet:
  assumes "layout_wf n s" and "host_ok E" and "quiet E Q" and "Q (ctx s)"
  shows "ok (report_bad_node E fuel bad dt s)
    (\<lambda>(b, t). layout_wf n t \<and> Q (ctx t) \<and> idle_tables s t)"
  using assms(1,4)
proof (induction fuel arbitrary: s)
  have once: "ok (write_cq_entry E fl ni st dt s)
      (\<lambda>(b, t). layout_wf n t \<and> Q (ctx t) \<and> idle_tables s t)" if "layout_wf n s" "Q (ctx s)"
    for fl ni st dt s
    using that assms(3)
    by (auto simp: write_cq_entry_cases [OF that(1)] Let_def split_beta cq_can_write_def quiet_def
        idle_tables_def)
  have hook: "Q (ctx (beat (scan_hook E t)))" "idle_tables t (beat (scan_hook E t))"
    if "Q (ctx t)" for t
    using that assms(3)
    by (auto simp: beat_def upd_ctrl_def scan_hook_def quiet_def idle_tables_def
        split: option.split prod.split) (metis snd_conv)
  {
    case 0
    show ?case
      using once [OF 0, of 0 bad RP1_CQ_ERROR dt]
      by (subst report_bad_node.simps) (auto elim!: ok_mono)
  next
    case (Suc fuel)
    show ?case
      using once [OF Suc.prems, of 0 bad RP1_CQ_ERROR dt]
      by (subst report_bad_node.simps)
        (auto elim!: ok_mono intro!: ok_mono [OF Suc.IH] layout_wf_scan_hook assms(2) hook
          simp: idle_tables_def hook [unfolded idle_tables_def])
  }
qed

lemma rp1_loop_invalid:
  assumes "fresh n s" and "\<not> valid_graph n s" and "host_ok E" and "quiet E Q" and "Q (ctx s)"
  shows "ok (rp1_loop E fuel s) (\<lambda>(r, t). (r = None \<or> r = Some (-1)) \<and> Q (ctx t) \<and>
           layout_wf n t \<and> idle_tables s t)"
proof -
  have n: "n = unat (node_count (ctrl s))" and lay: "layout_wf (unat (node_count (ctrl s))) s"
    using assms(1) by (auto simp: fresh_def)
  show ?thesis
    using lay
  proof (rule validate_nodes_iff)
    assume "valid_graph (unat (node_count (ctrl s))) s"
    with assms(2) n show ?thesis by simp
  next
    fix i d a
    assume v: "validate_nodes (node_count (ctrl s)) s = Some (Some (i, d, a))"
      and i: "i < unat (node_count (ctrl s))"
    let ?s = "rp1_latch_error RP1_ERR_INVALID_NODE (of_nat i) d a s"
    have lay': "layout_wf n ?s" using lay n by simp
    have st: "set_node_status i RP1_NODE_ERROR ?s = Some (put_status i RP1_NODE_ERROR ?s)"
      using layout_wf_node [OF lay'] lay' i n by (simp add: set_node_status_def layout_wf_def)
    have fr: "ctx (put_status i RP1_NODE_ERROR ?s) = ctx s"
      "idle_tables s (put_status i RP1_NODE_ERROR ?s)"
      by (simp_all add: idle_tables_def put_status_def put_node_status_def)
    have "layout_wf n (put_status i RP1_NODE_ERROR ?s)" using lay' by simp
    from report_bad_node_quiet [OF this assms(3,4), of fuel "of_nat i" d] show ?thesis
      using v st fr assms(5) by (auto simp: rp1_loop_def idle_tables_def elim!: ok_mono)
  qed
qed

section \<open>The first error wins\<close>

text \<open>What the loop relies on of the host: it does not write the error latch.\<close>

definition host_keeps_latch :: "'c rp1_env \<Rightarrow> bool" where
  "host_keeps_latch E \<longleftrightarrow>
     (\<forall>f d c d' c'. on_scan_pass E = Some f \<longrightarrow> f (d, c) = (d', c') \<longrightarrow>
        rp1_error_code (d_ctrl d') = rp1_error_code (d_ctrl d) \<and>
        terminal_error_node (d_ctrl d') = terminal_error_node (d_ctrl d) \<and>
        terminal_error_detail (d_ctrl d') = terminal_error_detail (d_ctrl d) \<and>
        terminal_error_aux (d_ctrl d') = terminal_error_aux (d_ctrl d))"

lemma latched_scan_hook:
  "host_keeps_latch E \<Longrightarrow> latched (ctrl s) (ctrl (scan_hook E s))"
  unfolding host_keeps_latch_def scan_hook_def
  by (auto simp: latched_def split: option.split prod.split)

lemma latched_prim [simp]:
  "latched c (ctrl (put_status i st s)) = latched c (ctrl s)"
  "latched c (ctrl (set_barrier b v s)) = latched c (ctrl s)"
  "latched c (ctrl (put_signal i sl s)) = latched c (ctrl s)"
  "latched c (ctrl (cq_publish E e s)) = latched c (ctrl s)"
  "latched c (ctrl (put_trace i te s)) = latched c (ctrl s)"
  "latched c (ctrl (upd_ctrl (\<lambda>c. c\<lparr>trace_write_idx := f c\<rparr>) s)) = latched c (ctrl s)"
  "latched c (ctrl (upd_ctrl (\<lambda>c. c\<lparr>rp1_current_node := f c\<rparr>) s)) = latched c (ctrl s)"
  "latched c (ctrl (beat s)) = latched c (ctrl s)"
  "latched c (ctrl (put_loop_iters i v s)) = latched c (ctrl s)"
  "latched c (ctrl (push_inflight k s)) = latched c (ctrl s)"
  "latched c (ctrl (remove_inflight i s)) = latched c (ctrl s)"
  "latched c (ctrl (put_mem a v s)) = latched c (ctrl s)"
  by (simp_all add: latched_def prim_defs remove_inflight_def Let_def)

lemma fw_steps_latched:
  assumes "fw_steps E h n s t" and "h \<longrightarrow> host_keeps_latch E"
  shows "latched (ctrl s) (ctrl t)"
  using assms
  by (induction rule: fw_steps.induct)
    (auto intro: latched_trans latched_latch_error latched_mark_recovery latched_scan_hook)

section \<open>The completion queue as a list\<close>

definition cq_used :: "'c rp1 \<Rightarrow> nat" where
  "cq_used s = unat (cq_write_idx (ctrl s) - cq_read_idx (ctrl s))"

text \<open>The published entries the host has not consumed, oldest first.\<close>

definition cq_abs :: "'c rp1 \<Rightarrow> rp1_cq_entry list" where
  "cq_abs s = map (\<lambda>j. d_cq (ddr s) (elem_addr (g_cq s) 16
      ((unat (cq_read_idx (ctrl s)) + j) mod unat (cq_size (ctrl s))))) [0..<cq_used s]"

text \<open>The cursors are 32-bit and free running; the ring size divides \<open>2 ^ 32\<close>.\<close>

lemma cursor_mod:
  fixes w r :: u32
  assumes "k \<le> 32"
  shows "unat w mod 2 ^ k = (unat r + unat (w - r)) mod 2 ^ k"
proof -
  have "unat w = (unat r + unat (w - r)) mod 2 ^ 32"
    using unat_word_ariths(1) [of r "w - r"] by simp
  moreover have "(2::nat) ^ k dvd 2 ^ 32" using assms by (rule le_imp_power_dvd)
  ultimately show ?thesis by (simp only: mod_mod_cancel)
qed

lemma cq_size_pow:
  assumes "layout_wf n s"
  obtains k where "k \<le> 12" "cq_size (ctrl s) = 2 ^ k" "unat (cq_size (ctrl s)) = 2 ^ k"
  using assms unat_pow2 [where 'a=32] by (auto simp: layout_wf_def)

lemma cq_slot_mod:
  assumes "layout_wf n s"
  shows "cq_slot s = (unat (cq_read_idx (ctrl s)) + cq_used s) mod unat (cq_size (ctrl s))"
proof -
  obtain k where k: "k \<le> 12" "cq_size (ctrl s) = 2 ^ k" "unat (cq_size (ctrl s)) = 2 ^ k"
    using assms by (rule cq_size_pow)
  have "cq_slot s = unat (cq_write_idx (ctrl s)) mod 2 ^ k"
    unfolding cq_slot_def k(2) by (rule unat_and_pred_pow2)
  then show ?thesis
    using cursor_mod [of k "cq_write_idx (ctrl s)" "cq_read_idx (ctrl s)"] k
    by (simp add: cq_used_def)
qed

lemma mod_window_less:
  fixes r i j m :: nat
  assumes "i < j" and "j < m"
  shows "(r + i) mod m \<noteq> (r + j) mod m"
proof
  assume "(r + i) mod m = (r + j) mod m"
  then have "m dvd (r + j) - (r + i)"
    using assms(1) by (metis add_le_cancel_left less_imp_le mod_eq_dvd_iff_nat)
  then show False using assms by (auto dest: dvd_imp_le)
qed

lemma mod_window_inj:
  fixes r i j m :: nat
  assumes "(r + i) mod m = (r + j) mod m" and "i < m" and "j < m"
  shows "i = j"
  using assms mod_window_less by (metis linorder_neqE_nat)

lemma cq_abs_publish:
  assumes lay: "layout_wf n s" and sp: "cq_space s"
  shows "cq_abs (cq_publish E e s) = cq_abs s @ [e]"
    and "cq_used (cq_publish E e s) = cq_used s + 1"
proof -
  let ?m = "unat (cq_size (ctrl s))" and ?r = "unat (cq_read_idx (ctrl s))"
  have lt: "cq_used s < ?m" using sp by (simp add: cq_space_def cq_used_def word_less_nat_alt)
  have bound: "?m < 2 ^ 32" using unsigned_less [of "cq_size (ctrl s)"] by simp
  have "unat (cq_write_idx (ctrl s) - cq_read_idx (ctrl s) + 1) =
        unat (cq_write_idx (ctrl s) - cq_read_idx (ctrl s)) + 1"
    using lt bound by (simp add: cq_used_def unat_word_ariths)
  then show used: "cq_used (cq_publish E e s) = cq_used s + 1"
    by (simp add: cq_used_def cq_publish_def upd_ctrl_def put_cq_def algebra_simps)
  have win: "in_window (g_cq s) (16 * ?m)" using lay by (simp add: layout_wf_def)
  have slot: "cq_slot s < ?m" by (rule cq_slot_less [OF lay])
  have other: "elem_addr (g_cq s) 16 ((?r + j) mod ?m) \<noteq> elem_addr (g_cq s) 16 (cq_slot s)"
    if "j < cq_used s" for j
    using that lt slot mod_window_inj [of ?r j ?m "cq_used s"]
      elem_addr_inj [OF win, of "(?r + j) mod ?m" "cq_slot s"]
    by (auto simp: cq_slot_mod [OF lay])
  show "cq_abs (cq_publish E e s) = cq_abs s @ [e]"
    unfolding cq_abs_def used
    using other
    by (auto simp: cq_publish_def upd_ctrl_def put_cq_def fence_def cq_slot_mod [OF lay, symmetric])
qed

lemma cq_abs_cong:
  "d_cq (ddr t) = d_cq (ddr s) \<Longrightarrow> g_cq t = g_cq s \<Longrightarrow> cq_size (ctrl t) = cq_size (ctrl s) \<Longrightarrow>
   cq_read_idx (ctrl t) = cq_read_idx (ctrl s) \<Longrightarrow> cq_write_idx (ctrl t) = cq_write_idx (ctrl s) \<Longrightarrow>
   cq_abs t = cq_abs s"
  by (simp add: cq_abs_def cq_used_def)

lemma cq_abs_prim [simp]:
  "cq_abs (put_status i st s) = cq_abs s"
  "cq_abs (set_barrier b v s) = cq_abs s"
  "cq_abs (put_signal i sl s) = cq_abs s"
  "cq_abs (put_trace i te s) = cq_abs s"
  "cq_abs (upd_ctrl (\<lambda>c. c\<lparr>trace_write_idx := f c\<rparr>) s) = cq_abs s"
  "cq_abs (upd_ctrl (\<lambda>c. c\<lparr>rp1_current_node := f c\<rparr>) s) = cq_abs s"
  "cq_abs (beat s) = cq_abs s"
  "cq_abs (rp1_latch_error code nd dt ax s) = cq_abs s"
  "cq_abs (rp1_mark_recovery_required s) = cq_abs s"
  "cq_abs (put_loop_iters i v s) = cq_abs s"
  "cq_abs (push_inflight k s) = cq_abs s"
  "cq_abs (remove_inflight i s) = cq_abs s"
  "cq_abs (put_mem a v s) = cq_abs s"
  "cq_abs (snd (mmio_read E a s)) = cq_abs s"
  "cq_abs (mmio_write E a v s) = cq_abs s"
  "cq_abs (fence E s) = cq_abs s"
  "cq_abs (snd (read_cycles E s)) = cq_abs s"
  "cq_abs (s\<lparr>g_cq_blocked := v\<rparr>) = cq_abs s"
  "cq_abs (s\<lparr>g_active_image_id := v\<rparr>) = cq_abs s"
  "cq_abs (s\<lparr>ctx := c\<rparr>) = cq_abs s"
  by (rule cq_abs_cong; simp add: prim_defs rp1_latch_error_def remove_inflight_def Let_def
      split_beta)+

lemma fw_steps_cq_size:
  "fw_steps E False n s t \<Longrightarrow> cq_size (ctrl t) = cq_size (ctrl s)"
  by (induction rule: fw_steps.induct)
    (auto simp: prim_defs rp1_latch_error_def remove_inflight_def Let_def split_beta)

text \<open>Between host turns the firmware only appends, and never overwrites an unread entry.\<close>

lemma fw_steps_cq:
  assumes "fw_steps E False n s t" and "graph_wf n s"
  shows "\<exists>es. cq_abs t = cq_abs s @ es \<and>
    (length (cq_abs s) \<le> unat (cq_size (ctrl s)) \<longrightarrow>
     length (cq_abs t) \<le> unat (cq_size (ctrl s)))"
  using assms(1)
proof (induction rule: fw_steps.induct)
  case (publish t e)
  have lay: "layout_wf n t"
    using fw_steps_wf [OF publish.hyps(1) _ assms(2)] by (simp add: graph_wf_def)
  have "length (cq_abs t) < unat (cq_size (ctrl s))"
    using publish.hyps(2) fw_steps_cq_size [OF publish.hyps(1)]
    by (simp add: cq_abs_def cq_space_def cq_used_def word_less_nat_alt)
  then show ?case
    using publish.IH cq_abs_publish(1) [OF lay publish.hyps(2)] by auto
qed simp_all

section \<open>A completed graph is quiescent\<close>

text \<open>A node the next scan would activate, completion-queue space permitting.\<close>

definition node_ready :: "nat \<Rightarrow> 'c rp1 \<Rightarrow> bool" where
  "node_ready i s \<longleftrightarrow>
     g_node_status s i = ucast RP1_NODE_PENDING \<and>
     g_barriers s (unat (barrier_await_bucket (node_ref i s))) AND barrier_await_mask (node_ref i s) =
       barrier_await_mask (node_ref i s)"

text \<open>
  \<open>unmoved s t\<close>: from \<open>s\<close> to \<open>t\<close> no barrier changed, no status changed other than by parking, and
  a raised back-pressure flag stayed raised.
\<close>

definition unmoved :: "'c rp1 \<Rightarrow> 'c rp1 \<Rightarrow> bool" where
  "unmoved s t \<longleftrightarrow>
     g_barriers t = g_barriers s \<and>
     (\<forall>j. g_node_status t j = g_node_status s j \<or> g_node_status t j = ucast RP1_NODE_WAITING) \<and>
     (g_cq_blocked t = g_cq_blocked s \<or> g_cq_blocked t = 1)"

lemma unmoved_refl [simp]: "unmoved s s"
  by (simp add: unmoved_def)

lemma unmoved_trans: "unmoved s t \<Longrightarrow> unmoved t u \<Longrightarrow> unmoved s u"
  unfolding unmoved_def by metis

lemma trace_frame:
  assumes "trace E ev ni a0 a1 s = Some t"
  shows "g_barriers t = g_barriers s" "g_node_status t = g_node_status s"
    "g_cq_blocked t = g_cq_blocked s"
  using assms
  by (auto simp: trace_def Let_def split_beta trace_write_def prim_defs split: if_splits)

lemma cq_can_write_frame [simp]:
  "g_barriers (snd (cq_can_write fl s)) = g_barriers s"
  "g_node_status (snd (cq_can_write fl s)) = g_node_status s"
  "g_cq_blocked (snd (cq_can_write fl s)) = g_cq_blocked s"
  by (simp_all add: cq_can_write_def Let_def rp1_latch_error_def upd_ctrl_def)

lemma hal_tables [simp]:
  "g_barriers (snd (mmio_read E a s)) = g_barriers s"
  "g_node_status (snd (mmio_read E a s)) = g_node_status s"
  "g_cq_blocked (snd (mmio_read E a s)) = g_cq_blocked s"
  "g_node_status (snd (read_cycles E s)) = g_node_status s"
  "g_cq_blocked (snd (read_cycles E s)) = g_cq_blocked s"
  by (simp_all add: mmio_read_def read_cycles_def split_beta)

lemma step_case_eq:
  "(case r of Next b \<Rightarrow> f b | Ret v \<Rightarrow> g v) = Some x \<longleftrightarrow>
     (\<exists>b. r = Next b \<and> f b = Some x) \<or> (\<exists>v. r = Ret v \<and> g v = Some x)"
  by (cases r) auto

lemma poll_case_eq:
  "(case p of Advance \<Rightarrow> a | Removed \<Rightarrow> b | Fatal \<Rightarrow> c) = Some x \<longleftrightarrow>
     p = Advance \<and> a = Some x \<or> p = Removed \<and> b = Some x \<or> p = Fatal \<and> c = Some x"
  by (cases p) auto

lemmas bind_simps = bind_eq_Some_conv split_beta step_case_eq poll_case_eq

text \<open>Only a parked WAIT returns without progress from the opcode switch.\<close>

lemma complete_node_progress: "complete_node E nd i s = Some (r, t) \<Longrightarrow> r \<noteq> Next False"
  by (auto simp: complete_node_def bind_simps split: if_splits)

lemma run_opcode_no_progress:
  assumes "run_opcode E nd i s = Some (Next False, t)"
  shows "unmoved s t \<and> g_node_status t i = ucast RP1_NODE_WAITING"
proof -
  have "activate_wait E nd i s = Some (Next False, t)"
    using assms
    by (auto simp: run_opcode_def Let_def activate_kernel_def activate_image_mismatch_def
        activate_pdi_def activate_loop_def activate_cond_def activate_rerun_def activate_halt_def
        activate_immediate_def bind_simps dest!: complete_node_progress split: if_splits)
  then obtain u ev a0 a1 where u: "set_node_status i RP1_NODE_WAITING s = Some u"
    and tr: "trace E ev (of_nat i) a0 a1 u = Some t"
    by (auto simp: activate_wait_def Let_def bind_simps dest!: complete_node_progress
        split: if_splits)
  then show ?thesis
    using trace_frame [OF tr]
    by (auto simp: unmoved_def set_node_status_def put_status_def put_node_status_def
        split: if_splits)
qed

lemma activate_node_gate:
  "activate_node E i s = Some (r, t) \<Longrightarrow> \<not> node_ready i s \<Longrightarrow> r = Next False \<and> t = s"
  "activate_node E i s = Some (r, t) \<Longrightarrow> node_ready i s \<Longrightarrow>
   activate_ready E (node_ref i s) i s = Some (r, t)"
  by (auto simp: activate_node_def node_ready_def bind_simps status_read_def node_read_def
      barrier_read_def split: if_splits)

lemma activate_ready_no_progress:
  assumes "activate_ready E nd i s = Some (Next False, t)"
  shows "unmoved s t \<and> (g_cq_blocked t = 1 \<or> g_node_status t i = ucast RP1_NODE_WAITING)"
proof -
  let ?s = "snd (cq_can_write (flags nd) s)"
  consider "t = ?s\<lparr>g_cq_blocked := 1\<rparr>"
    | u where "trace E RP1_TRACE_NODE_ACTIVATE (of_nat i) (ucast (opcode nd)) (ucast (flags nd))
          (upd_ctrl (\<lambda>c. c\<lparr>rp1_current_node := of_nat i\<rparr>) ?s) = Some u"
      "run_opcode E nd i u = Some (Next False, t)"
    using assms by (auto simp: activate_ready_def bind_simps Let_def split: if_splits)
  then show ?thesis
  proof cases
    case 1
    then show ?thesis by (simp add: unmoved_def)
  next
    case 2
    have "unmoved s u" using trace_frame [OF 2(1)] by (simp add: unmoved_def upd_ctrl_def)
    then show ?thesis using run_opcode_no_progress [OF 2(2)] unmoved_trans by blast
  qed
qed

lemma activate_node_no_progress:
  assumes "activate_node E i s = Some (Next False, t)"
  shows "unmoved s t \<and> (g_cq_blocked t = 1 \<or> g_node_status t i = ucast RP1_NODE_WAITING \<or>
           \<not> node_ready i s)"
  using activate_node_gate [OF assms] activate_ready_no_progress [of E "node_ref i s" i s t]
  by (cases "node_ready i s") auto

text \<open>The values a scan returns early with are negative.\<close>

lemma complete_node_ret: "complete_node E nd i s = Some (Ret v, t) \<Longrightarrow> v < 0"
  by (auto simp: complete_node_def bind_simps split: if_splits)

lemma run_opcode_ret: "run_opcode E nd i s = Some (Ret v, t) \<Longrightarrow> v < 0"
  by (auto simp: run_opcode_def Let_def activate_kernel_def activate_image_mismatch_def
      activate_pdi_def activate_loop_def activate_cond_def activate_rerun_def activate_halt_def
      activate_wait_def activate_immediate_def bind_simps dest!: complete_node_ret
      split: if_splits)

lemma activate_node_ret: "activate_node E i s = Some (Ret v, t) \<Longrightarrow> v < 0"
  using activate_node_gate [of E i s "Ret v" t]
  by (cases "node_ready i s")
    (auto dest!: run_opcode_ret simp: activate_ready_def Let_def bind_simps split: if_splits)

lemma check_wait_ret: "check_wait E i s = Some (Ret v, t) \<Longrightarrow> v < 0"
  by (auto simp: check_wait_def Let_def bind_simps dest!: complete_node_ret
      split: if_splits)

lemma check_wait_no_progress:
  assumes "check_wait E i s = Some (Next False, t)"
  shows "unmoved s t"
proof -
  have "t = s \<or> (\<exists>fl. t = snd (cq_can_write fl s) \<or> t = (snd (cq_can_write fl s))\<lparr>g_cq_blocked := 1\<rparr>)"
    using assms by (auto simp: check_wait_def Let_def bind_simps split: if_splits)
  then show ?thesis by (auto simp: unmoved_def)
qed

lemma scan_nodes_zero:
  assumes "scan_nodes f is m s = Some (0, t)"
    and ret: "\<And>i s v t. f i s = Some (Ret v, t) \<Longrightarrow> v < 0"
    and R: "\<And>i s t. i \<in> A \<Longrightarrow> f i s = Some (Next False, t) \<Longrightarrow> R s t" and "set is \<subseteq> A"
    and refl: "\<And>s. R s s" and trans: "\<And>s t u. R s t \<Longrightarrow> R t u \<Longrightarrow> R s u"
  shows "\<not> m \<and> R s t \<and> (\<forall>i \<in> set is. \<exists>u v. R s u \<and> f i u = Some (Next False, v) \<and> R v t)"
  using assms(1) \<open>set is \<subseteq> A\<close>
proof (induction "is" arbitrary: m s)
  case Nil
  then show ?case by (simp add: refl split: if_splits)
next
  case (Cons i "is")
  obtain r u where u: "f i s = Some (r, u)" using Cons.prems(1) by (auto simp: bind_simps)
  show ?case
  proof (cases r)
    case (Ret v)
    then show ?thesis using Cons.prems(1) u ret by fastforce
  next
    case (Next p)
    then have "scan_nodes f is (m \<or> p) u = Some (0, t)" using Cons.prems(1) u by simp
    note ih = Cons.IH [OF this]
    then have p: "p = False" "\<not> m" using Cons.prems(2) by simp_all
    have su: "R s u" using R [of i] u Next p Cons.prems(2) by simp
    have ih: "R u t \<and> (\<forall>i \<in> set is. \<exists>x y. R u x \<and> f i x = Some (Next False, y) \<and> R y t)"
      using ih Cons.prems(2) by simp
    have "\<exists>x y. R s x \<and> f j x = Some (Next False, y) \<and> R y t" if j: "j \<in> set (i # is)" for j
    proof (cases "j = i")
      case True
      then show ?thesis using u Next p ih refl [of s] by blast
    next
      case False
      then obtain x y where "R u x" "f j x = Some (Next False, y)" "R y t" using ih j by auto
      then show ?thesis using trans [OF su] by blast
    qed
    moreover have "R s t" using ih trans [OF su] by blast
    ultimately show ?thesis using p by blast
  qed
qed

lemma check_inflight_one_advance:
  "check_inflight_one E i s = Some (Advance, t) \<Longrightarrow> unmoved s t"
  by (auto simp: check_inflight_one_def finish_inflight_def expire_inflight_def Let_def bind_simps
      unmoved_def split: if_splits)

lemma check_inflight_loop_made:
  "check_inflight_loop E fuel i True s = Some (r, t) \<Longrightarrow> r \<noteq> 0"
proof (induction fuel arbitrary: i s)
  case 0
  then show ?case by (subst (asm) check_inflight_loop.simps) (simp split: if_splits)
next
  case (Suc fuel)
  then show ?case
    by (subst (asm) check_inflight_loop.simps) (auto simp: bind_simps split: if_splits)
qed

lemma check_inflight_loop_zero:
  "check_inflight_loop E fuel i m s = Some (0, t) \<Longrightarrow> unmoved s t"
proof (induction fuel arbitrary: i m s)
  case 0
  then show ?case by (subst (asm) check_inflight_loop.simps) (simp split: if_splits)
next
  case (Suc fuel)
  then show ?case
    by (subst (asm) check_inflight_loop.simps)
      (auto simp: bind_simps split: if_splits dest: check_inflight_loop_made
        intro: unmoved_trans [OF check_inflight_one_advance])
qed

text \<open>\<open>still\<close>: unmoved, and the invariant carries over.\<close>

definition still :: "'c rp1_env \<Rightarrow> nat \<Rightarrow> 'c rp1 \<Rightarrow> 'c rp1 \<Rightarrow> 'c rp1 \<Rightarrow> bool" where
  "still E n s0 s t \<longleftrightarrow>
     unmoved s t \<and> (fw_inv E True n s0 s \<longrightarrow> fw_inv E True n s0 t)"

lemma still_refl: "still E n s0 s s"
  by (simp add: still_def)

lemma still_trans: "still E n s0 s t \<Longrightarrow> still E n s0 t u \<Longrightarrow> still E n s0 s u"
  using unmoved_trans by (auto simp: still_def)

lemma activate_node_still:
  "i \<in> {..<n} \<Longrightarrow> activate_node E i s = Some (Next False, t) \<Longrightarrow> still E n s0 s t"
  using activate_node_no_progress [of E i s t]
    ok_result [OF activate_node_ok [of E True n s0 s i "\<lambda>(r, t). fw_inv E True n s0 t"]]
  by (auto simp: still_def)

lemma check_wait_still:
  "i \<in> {..<n} \<Longrightarrow> check_wait E i s = Some (Next False, t) \<Longrightarrow> still E n s0 s t"
  using check_wait_no_progress [of E i s t]
    ok_result [OF check_wait_ok [of E True n s0 s i "\<lambda>(r, t). fw_inv E True n s0 t"]]
  by (auto simp: still_def)

lemma scan_zero:
  "scan_nodes (activate_node E) is m s = Some (0, t) \<Longrightarrow> set is \<subseteq> {..<n} \<Longrightarrow>
   still E n s0 s t \<and>
   (\<forall>i \<in> set is. \<exists>u v. still E n s0 s u \<and> activate_node E i u = Some (Next False, v) \<and>
                    still E n s0 v t)"
  "scan_nodes (check_wait E) is m s = Some (0, t) \<Longrightarrow> set is \<subseteq> {..<n} \<Longrightarrow> still E n s0 s t"
  using scan_nodes_zero [of "activate_node E" "is" m s t "{..<n}" "still E n s0"]
    scan_nodes_zero [of "check_wait E" "is" m s t "{..<n}" "still E n s0"]
    activate_node_ret [of E] activate_node_still [of _ n E _ _ s0] check_wait_ret [of E]
    check_wait_still [of _ n E _ _ s0] still_refl [of E n s0] still_trans [of E n s0]
  by blast+

lemma scan_pass_complete:
  assumes inv: "fw_inv E True n s0 s" and "scan_pass E n s = Some (Complete, t)"
  shows "\<forall>i < n. g_node_status t i \<noteq> ucast RP1_NODE_DISPATCHED \<and>
           g_node_status t i \<noteq> ucast RP1_NODE_WAITING \<and> \<not> node_ready i t"
proof (intro allI impI)
  fix i assume i: "i < n"
  let ?s = "s\<lparr>g_cq_blocked := 0\<rparr>" and ?all = "[0..<n]"
  obtain s1 s2 s3 where a: "scan_nodes (activate_node E) ?all False ?s = Some (0, s1)"
    and c: "check_inflight E s1 = Some (0, s2)"
    and w: "scan_nodes (check_wait E) ?all False s2 = Some (0, s3)"
    and t: "t = scan_hook E s3" "g_cq_blocked s3 = 0" "any_active ?all t = Some False"
    using assms(2)
    by (auto simp: scan_pass_def Let_def bind_simps activate_nodes_def check_waits_def
        scan_hook_def split: if_splits option.splits prod.splits)
  have inv0: "fw_inv E True n s0 ?s" using inv by (rule fw_ok)
  have up: "set ?all \<subseteq> {..<n}" by auto
  note az = scan_zero(1) [OF a up, of s0]
  obtain u v where u: "still E n s0 ?s u" "activate_node E i u = Some (Next False, v)"
    "still E n s0 v s1"
    using az i by fastforce
  have inv1: "fw_inv E True n s0 s1" using az inv0 by (simp add: still_def)
  have s12: "unmoved s1 s2" using c by (simp add: check_inflight_def check_inflight_loop_zero)
  have inv2: "fw_inv E True n s0 s2"
    using ok_result [OF check_inflight_ok [OF inv1] c, of "\<lambda>(r, t). fw_inv E True n s0 t"] by simp
  have s23: "still E n s0 s2 s3"
    by (rule scan_zero(2) [OF w up])
  have vs: "unmoved v s3" using u(3) s12 s23 unmoved_trans by (metis still_def)
  have us: "unmoved u s3" using activate_node_no_progress [OF u(2)] vs unmoved_trans by blast
  have invt: "fw_inv E True n s0 t" using inv2 s23 t(1) fw_inv_host by (auto simp: still_def)
  have inactive: "\<forall>i < n. g_node_status t i \<noteq> 1 \<and> g_node_status t i \<noteq> 3"
    using any_active_ok [OF invt up] t(3) by auto
  have "g_cq_blocked v \<noteq> 1" using vs t by (auto simp: unmoved_def)
  moreover have "g_node_status s3 i = g_node_status v i \<or> g_node_status s3 i = 3"
    using vs by (simp add: unmoved_def)
  then have "g_node_status v i \<noteq> 3" using t(1) inactive i by auto
  ultimately have nr: "\<not> node_ready i u" using activate_node_no_progress [OF u(2)] by simp
  have pk: "packet i t = packet i u"
    using invt u(1) inv0 i by (simp add: fw_inv_def still_def)
  have hdr: "barrier_await_bucket (node_ref i t) = barrier_await_bucket (node_ref i u)"
    "barrier_await_mask (node_ref i t) = barrier_await_mask (node_ref i u)"
    using arg_cong [OF pk, of barrier_await_bucket] arg_cong [OF pk, of barrier_await_mask]
    by (simp_all add: packet_def)
  have "g_node_status s3 i = g_node_status u i \<or> g_node_status s3 i = 3"
    "g_barriers s3 = g_barriers u"
    using us by (simp_all add: unmoved_def)
  then have "\<not> node_ready i t"
    using nr t(1) hdr inactive i by (auto simp: node_ready_def)
  then show "g_node_status t i \<noteq> ucast RP1_NODE_DISPATCHED \<and>
           g_node_status t i \<noteq> ucast RP1_NODE_WAITING \<and> \<not> node_ready i t"
    using inactive i by simp
qed

section \<open>A full ring back-pressures without side effects\<close>

definition cq_full :: "'c rp1 \<Rightarrow> bool" where
  "cq_full s \<longleftrightarrow> cq_write_idx (ctrl s) - cq_read_idx (ctrl s) = cq_size (ctrl s)"

lemma cq_full_can_write: "cq_full s \<Longrightarrow> fl AND RP1_FLAG_SILENT = 0 \<Longrightarrow> cq_can_write fl s = (0, s)"
  by (simp add: cq_full_def cq_can_write_def)

lemma blocked_frame [simp]:
  "cq_full (s\<lparr>g_cq_blocked := b\<rparr>) = cq_full s"
  "node_ref i (s\<lparr>g_cq_blocked := b\<rparr>) = node_ref i s"
  "node_addr i (s\<lparr>g_cq_blocked := b\<rparr>) = node_addr i s"
  by (simp_all add: cq_full_def node_ref_def node_addr_def)

lemma activate_node_full:
  assumes "layout_wf n s" and "i < n" and "unat (barrier_await_bucket (node_ref i s)) < 32"
    and "cq_full s" and "flags (node_ref i s) AND RP1_FLAG_SILENT = 0"
  shows "\<exists>b'. activate_node E i (s\<lparr>g_cq_blocked := b\<rparr>) = Some (Next False, s\<lparr>g_cq_blocked := b'\<rparr>)"
proof -
  have "i < 4096" "in_window (node_addr i s) 64"
    using assms(1,2) layout_wf_node by (auto simp: layout_wf_def)
  then show ?thesis
    using assms cq_full_can_write [of "s\<lparr>g_cq_blocked := b\<rparr>"]
    by (auto simp: activate_node_def activate_ready_def status_read_def node_read_def
        barrier_read_def)
qed

lemma check_wait_full:
  assumes "layout_wf n s" and "i < n"
    and "cq_full s" and "flags (node_ref i s) AND RP1_FLAG_SILENT = 0"
  shows "\<exists>b'. check_wait E i (s\<lparr>g_cq_blocked := b\<rparr>) = Some (Next False, s\<lparr>g_cq_blocked := b'\<rparr>)"
proof -
  have "i < 4096" "in_window (node_addr i s) 64"
    using assms(1,2) layout_wf_node by (auto simp: layout_wf_def)
  then show ?thesis
    using assms cq_full_can_write [of "s\<lparr>g_cq_blocked := b\<rparr>"]
    by (auto simp: check_wait_def status_read_def node_read_def)
qed

lemma scan_nodes_full:
  assumes "\<And>i b. i \<in> set is \<Longrightarrow>
             \<exists>b'. f i (s\<lparr>g_cq_blocked := b\<rparr>) = Some (Next False, s\<lparr>g_cq_blocked := b'\<rparr>)"
  shows "\<exists>b'. scan_nodes f is False (s\<lparr>g_cq_blocked := b\<rparr>) = Some (0, s\<lparr>g_cq_blocked := b'\<rparr>)"
  using assms
proof (induction "is" arbitrary: b)
  case Nil
  show ?case by (rule exI [of _ b]) simp
next
  case (Cons i "is")
  obtain b' where "f i (s\<lparr>g_cq_blocked := b\<rparr>) = Some (Next False, s\<lparr>g_cq_blocked := b'\<rparr>)"
    using Cons.prems [of i b] by (metis list.set_intros(1))
  moreover have "\<exists>b''. scan_nodes f is False (s\<lparr>g_cq_blocked := b'\<rparr>) = Some (0, s\<lparr>g_cq_blocked := b''\<rparr>)"
    using Cons.IH Cons.prems by (meson list.set_intros(2))
  ultimately show ?case by simp
qed

text \<open>
  A finite kernel is parked before its sticky, clear-on-read completion flag is read.
\<close>

lemma check_inflight_one_full:
  assumes "graph_wf n s" and "i < unat (g_inflight_count s)" and "cq_full s"
    and "ki_infinite (g_inflight s i) = 0"
    and "flags (node_ref (unat (ki_node_index (g_inflight s i))) s) AND RP1_FLAG_SILENT = 0"
  shows "check_inflight_one E i (s\<lparr>g_cq_blocked := b\<rparr>) = Some (Advance, s\<lparr>g_cq_blocked := 1\<rparr>)"
proof -
  have "i < 32" "unat (ki_node_index (g_inflight s i)) < n"
    using assms(1,2) by (auto simp: graph_wf_def inflight_wf_def)
  then have "in_window (node_addr (unat (ki_node_index (g_inflight s i))) s) 64"
    using assms(1) layout_wf_node by (auto simp: graph_wf_def)
  then show ?thesis
    using assms \<open>i < 32\<close> cq_full_can_write [of "s\<lparr>g_cq_blocked := b\<rparr>"]
    by (simp add: check_inflight_one_def inflight_read_def node_read_def)
qed

lemma check_inflight_loop_full:
  assumes "graph_wf n s" and "cq_full s"
    and fin: "\<And>i. i < unat (g_inflight_count s) \<Longrightarrow> ki_infinite (g_inflight s i) = 0 \<and>
          flags (node_ref (unat (ki_node_index (g_inflight s i))) s) AND RP1_FLAG_SILENT = 0"
    and "unat (g_inflight_count s) - i \<le> fuel"
  shows "\<exists>b'. check_inflight_loop E fuel i False (s\<lparr>g_cq_blocked := b\<rparr>) =
           Some (0, s\<lparr>g_cq_blocked := b'\<rparr>)"
  using assms(4)
proof (induction fuel arbitrary: i b)
  case 0
  then show ?case by (subst check_inflight_loop.simps) auto
next
  case (Suc fuel)
  show ?case
  proof (cases "i < unat (g_inflight_count s)")
    case True
    then have "check_inflight_one E i (s\<lparr>g_cq_blocked := b\<rparr>) = Some (Advance, s\<lparr>g_cq_blocked := 1\<rparr>)"
      using check_inflight_one_full [OF assms(1) True assms(2)] fin by blast
    then have "check_inflight_loop E (Suc fuel) i False (s\<lparr>g_cq_blocked := b\<rparr>) =
        check_inflight_loop E fuel (i + 1) False (s\<lparr>g_cq_blocked := 1\<rparr>)"
      using True by (subst check_inflight_loop.simps) simp
    then show ?thesis using Suc by (simp add: Suc_diff_Suc)
  next
    case False
    then show ?thesis by (subst check_inflight_loop.simps) auto
  qed
qed

section \<open>Straight-line graphs complete\<close>

definition immediate :: "rp1_node \<Rightarrow> bool" where
  "immediate nd \<longleftrightarrow>
     opcode nd \<in> {RP1_OP_NOP, RP1_OP_SIGNAL, RP1_OP_SCALAR_WRITE, RP1_OP_SCALAR_READ,
                  RP1_OP_SCALAR_COPY, RP1_OP_DMA_COPY, RP1_OP_DMA_FILL}"

definition pending :: "nat \<Rightarrow> 'c rp1 \<Rightarrow> nat set" where
  "pending n s = {i. i < n \<and> g_node_status s i = ucast RP1_NODE_PENDING}"

text \<open>The ring has room for one completion per pending node.\<close>

definition cq_room :: "nat \<Rightarrow> 'c rp1 \<Rightarrow> bool" where
  "cq_room n s \<longleftrightarrow> cq_used s + card (pending n s) \<le> unat (cq_size (ctrl s))"

lemma cq_room_space: "cq_room n s \<Longrightarrow> i < n \<Longrightarrow> g_node_status s i = 0 \<Longrightarrow> cq_space s"
proof -
  assume r: "cq_room n s" and i: "i < n" "g_node_status s i = 0"
  have "finite (pending n s)" "i \<in> pending n s" using i by (simp_all add: pending_def)
  then have "0 < card (pending n s)" by (auto simp: card_gt_0_iff)
  with r show "cq_space s" by (simp add: cq_room_def cq_used_def cq_space_def word_less_nat_alt)
qed

lemma trace_ctrl:
  assumes "trace E ev ni a0 a1 s = Some t"
  shows "cq_used t = cq_used s" "cq_size (ctrl t) = cq_size (ctrl s)" "cq_space t = cq_space s"
    "g_inflight_count t = g_inflight_count s"
  using assms
  by (auto simp: trace_def Let_def split_beta trace_write_def cq_used_def cq_space_def
      upd_ctrl_def put_trace_def split: if_splits)

lemma scalar_writes_tables:
  "g_node_status (scalar_writes E ws s) = g_node_status s"
  "g_cq_blocked (scalar_writes E ws s) = g_cq_blocked s" "ddr (scalar_writes E ws s) = ddr s"
  by (induction E ws s rule: scalar_writes.induct) (simp_all add: mmio_write_def)

lemma dma_tables:
  "g_node_status (dma_copy src dst ws s) = g_node_status s"
  "g_cq_blocked (dma_copy src dst ws s) = g_cq_blocked s"
  "ctrl (dma_copy src dst ws s) = ctrl s"
  "g_cq_blocked (dma_fill dst v ws s) = g_cq_blocked s"
  "g_node_status (dma_fill dst v ws s) = g_node_status s"
  "ctrl (dma_fill dst v ws s) = ctrl s"
  by (induction ws arbitrary: s) simp_all

lemma execute_immediate_frame:
  assumes "execute_immediate E nd i s = Some t"
  shows "g_node_status t = g_node_status s" "ctrl t = ctrl s"
    "g_cq_blocked t = g_cq_blocked s" "g_inflight_count t = g_inflight_count s"
  using assms
  by (auto simp: execute_immediate_def Let_def bind_simps signal_write_def scalar_writes_tables
      dma_tables fence_def mmio_write_def mmio_read_def put_signal_def split: if_splits)

lemma write_cq_entry_effect:
  assumes w: "write_cq_entry E fl ni st dt s = Some (v, t)" and lay: "layout_wf n s"
    and sp: "cq_space s"
  shows "v = 1" "g_node_status t = g_node_status s" "cq_used t \<le> cq_used s + 1"
    "cq_size (ctrl t) = cq_size (ctrl s)" "g_cq_blocked t = g_cq_blocked s"
    "g_inflight_count t = g_inflight_count s"
proof -
  let ?s = "snd (read_cycles E s)"
  have rc: "layout_wf n ?s" "cq_space ?s" "cq_used ?s = cq_used s"
    using lay sp by (simp_all add: cq_space_def cq_used_def)
  have "\<not> cq_write_idx (ctrl s) - cq_read_idx (ctrl s) > cq_size (ctrl s)"
    using sp by (simp add: cq_space_def)
  then consider "v = 1" "t = s" | e where "v = 1" "t = fence E (cq_publish E e ?s)"
    using w sp by (auto simp: write_cq_entry_cases [OF lay] Let_def split_beta split: if_splits)
  then have "v = 1 \<and> g_node_status t = g_node_status s \<and> cq_used t \<le> cq_used s + 1 \<and>
    cq_size (ctrl t) = cq_size (ctrl s) \<and> g_cq_blocked t = g_cq_blocked s \<and>
    g_inflight_count t = g_inflight_count s"
  proof cases
    case 1
    then show ?thesis by simp
  next
    case 2
    have "cq_used t = cq_used (cq_publish E e ?s)" using 2(2) by (simp add: cq_used_def)
    then have "cq_used t = cq_used s + 1" using cq_abs_publish(2) [OF rc(1,2)] rc(3) by simp
    then show ?thesis
      using 2 by (simp add: cq_publish_def upd_ctrl_def put_cq_def fence_def)
  qed
  then show "v = 1" "g_node_status t = g_node_status s" "cq_used t \<le> cq_used s + 1"
    "cq_size (ctrl t) = cq_size (ctrl s)" "g_cq_blocked t = g_cq_blocked s"
    "g_inflight_count t = g_inflight_count s" by simp_all
qed

lemma complete_node_effect:
  assumes "complete_node E nd i s = Some (r, t)" and lay: "layout_wf n s" and "cq_space s"
  shows "r = Next True \<and> g_node_status t = (g_node_status s)(i := ucast RP1_NODE_DONE) \<and>
    cq_used t \<le> cq_used s + 1 \<and> cq_size (ctrl t) = cq_size (ctrl s) \<and>
    g_cq_blocked t = g_cq_blocked s \<and> g_inflight_count t = g_inflight_count s"
proof -
  have "\<exists>b v. write_cq_entry E (flags nd) (of_nat i) RP1_CQ_OK 0
        (set_barrier (unat (barrier_set_bucket nd)) b (put_status i RP1_NODE_DONE s)) = Some (v, t) \<and>
        r = (if v < 0 then Ret (-1) else Next True)"
    using assms(1)
    by (auto simp: complete_node_def bind_simps set_node_status_def raise_barrier_def
        barrier_read_def barrier_write_def split: if_splits)
  then obtain b v where w: "write_cq_entry E (flags nd) (of_nat i) RP1_CQ_OK 0
        (set_barrier (unat (barrier_set_bucket nd)) b (put_status i RP1_NODE_DONE s)) = Some (v, t)"
    and r: "r = (if v < 0 then Ret (-1) else Next True)" by blast
  let ?u = "set_barrier (unat (barrier_set_bucket nd)) b (put_status i RP1_NODE_DONE s)"
  have lu: "layout_wf n ?u" using lay by simp
  have fu: "cq_space ?u" "cq_used ?u = cq_used s" "cq_size (ctrl ?u) = cq_size (ctrl s)"
    "g_node_status ?u = (g_node_status s)(i := 2)" "g_cq_blocked ?u = g_cq_blocked s"
    using assms(3)
    by (simp_all add: cq_space_def cq_used_def set_barrier_def put_status_def put_node_status_def)
  show ?thesis using write_cq_entry_effect [OF w lu fu(1)] fu r by simp
qed

text \<open>A straight-line graph in progress: nothing in flight, nothing parked, room in the ring.\<close>

definition straight :: "nat \<Rightarrow> 'c rp1 \<Rightarrow> bool" where
  "straight n s \<longleftrightarrow>
     (\<forall>i < n. immediate (node_ref i s) \<and>
              (g_node_status s i = ucast RP1_NODE_PENDING \<or> g_node_status s i = ucast RP1_NODE_DONE)) \<and>
     g_inflight_count s = 0 \<and> g_cq_blocked s = 0 \<and> cq_room n s"

lemma immediate_packet: "immediate (node_ref i s) = immediate (packet i s)"
  by (simp add: immediate_def packet_def)

lemma immediate_switch:
  "immediate nd \<Longrightarrow> run_opcode E nd i s = activate_immediate E nd i s"
  by (auto simp: immediate_def run_opcode_def Let_def)

text \<open>Running one ready node of a straight-line graph.\<close>

lemma straight_ready:
  assumes inv: "fw_inv E h n s0 s" and st: "straight n s" and i: "i < n" and rdy: "node_ready i s"
  shows "ok (activate_node E i s) (\<lambda>(r, t). r = Next True \<and> fw_inv E h n s0 t \<and> straight n t \<and>
           pending n t = pending n s - {i})"
proof -
  let ?nd = "node_ref i s"
  have sp: "cq_space s"
    using st i rdy cq_room_space by (auto simp: straight_def node_ready_def)
  have can: "cq_can_write (flags ?nd) s = (1, s)"
    using sp by (auto simp: cq_can_write_def cq_space_def Let_def)
  obtain r t where rt: "activate_node E i s = Some (r, t)" "fw_inv E h n s0 t"
    using ok_exists [OF activate_node_ok [OF inv i, of "\<lambda>(r, t). fw_inv E h n s0 t"]] by auto
  have "activate_ready E ?nd i s = Some (r, t)" by (rule activate_node_gate(2) [OF rt(1) rdy])
  then obtain u where u: "trace E RP1_TRACE_NODE_ACTIVATE (of_nat i) (ucast (opcode ?nd)) (ucast (flags ?nd))
          (upd_ctrl (\<lambda>c. c\<lparr>rp1_current_node := of_nat i\<rparr>) s) = Some u"
    and run: "activate_immediate E ?nd i u = Some (r, t)"
    using can st i immediate_switch [of ?nd E i]
    by (simp add: activate_ready_def straight_def bind_eq_Some_conv) blast
  obtain v where v: "execute_immediate E ?nd i u = Some v" and c: "complete_node E ?nd i v = Some (r, t)"
    using run by (auto simp: activate_immediate_def bind_simps)
  have invu: "fw_inv E h n s0 u"
    using ok_result [OF trace_ok [OF fw_inv_prim(6) [OF inv]] u, of "fw_inv E h n s0"] by blast
  have invv: "fw_inv E h n s0 v"
    using ok_result [OF execute_immediate_ok [OF invu fw_inv_node_error [OF inv i]] v,
        of "fw_inv E h n s0"] by blast
  have ctl: "cq_space v" "cq_used v = cq_used s" "cq_size (ctrl v) = cq_size (ctrl s)"
    "g_node_status v = g_node_status s" "g_cq_blocked v = 0" "g_inflight_count v = 0"
    using st sp trace_frame(3) [OF u] execute_immediate_frame [OF v] trace_ctrl [OF u] trace_frame(2) [OF u]
    by (simp_all add: cq_space_def cq_used_def upd_ctrl_def straight_def)
  note eff = complete_node_effect [OF c fw_inv_layout [OF invv] ctl(1)]
  have pend: "pending n t = pending n s - {i}" using eff ctl by (auto simp: pending_def)
  have "i \<in> pending n s" using i rdy by (simp add: pending_def node_ready_def)
  moreover have "finite (pending n s)" by (simp add: pending_def)
  ultimately have "card (pending n t) + 1 = card (pending n s)"
    unfolding pend by (metis Suc_eq_plus1 card.remove)
  then have room: "cq_room n t" using st eff ctl by (auto simp: straight_def cq_room_def)
  have imm: "immediate (node_ref j t)" if "j < n" for j
    using that st rt(2) inv by (simp add: straight_def immediate_packet fw_inv_def)
  have "straight n t"
    using imm room eff ctl st by (auto simp: straight_def)
  then show ?thesis using rt eff pend by simp
qed

lemma straight_scan:
  assumes "fw_inv E h n s0 s" and "straight n s" and "set is \<subseteq> {..<n}"
  shows "ok (scan_nodes (activate_node E) is m s) (\<lambda>(r, t). fw_inv E h n s0 t \<and> straight n t \<and>
           pending n t \<subseteq> pending n s \<and>
           (r = (if m then 1 else 0) \<and> t = s \<or> r = 1 \<and> pending n t \<subset> pending n s))"
  using assms
proof (induction "is" arbitrary: m s)
  case Nil
  then show ?case by simp
next
  case (Cons i "is")
  have i: "i < n" and rest: "set is \<subseteq> {..<n}" using Cons.prems(3) by auto
  show ?case
  proof (cases "node_ready i s")
    case True
    obtain t where t: "activate_node E i s = Some (Next True, t)" "fw_inv E h n s0 t" "straight n t"
      "pending n t = pending n s - {i}"
      using ok_exists [OF straight_ready [OF Cons.prems(1,2) i True]] by auto
    have "i \<in> pending n s" using True i by (simp add: pending_def node_ready_def)
    then have "pending n t \<subset> pending n s" using t(4) by auto
    then show ?thesis
      using Cons.IH [OF t(2,3) rest, of True] t(1) by (auto elim!: ok_mono)
  next
    case False
    obtain r t where rt: "activate_node E i s = Some (r, t)"
      using ok_exists [OF activate_node_ok [OF Cons.prems(1) i, of "\<lambda>_. True"]] by auto
    then have "activate_node E i s = Some (Next False, s)"
      using activate_node_gate(1) [OF rt False] by simp
    then show ?thesis using Cons.IH [OF Cons.prems(1,2) rest, of m] by simp
  qed
qed

lemma scan_nodes_idle:
  assumes "\<And>i. i \<in> set is \<Longrightarrow> f i s = Some (Next False, s)"
  shows "scan_nodes f is False s = Some (0, s)"
  using assms by (induction "is") auto

lemma straight_waits:
  assumes "fw_inv E h n s0 s" and "straight n s"
  shows "check_waits E n s = Some (0, s)"
proof -
  have "check_wait E i s = Some (Next False, s)" if "i < n" for i
  proof -
    have "i < 4096" using that fw_inv_n [OF assms(1)] by simp
    moreover have "g_node_status s i \<noteq> 3" using assms(2) that by (auto simp: straight_def)
    ultimately show ?thesis by (simp add: check_wait_def status_read_def)
  qed
  then show ?thesis unfolding check_waits_def by (intro scan_nodes_idle) simp
qed

lemma straight_pass:
  assumes inv: "fw_inv E True n s0 s" and st: "straight n s" and E: "on_scan_pass E = None"
  shows "ok (scan_pass E n s) (\<lambda>(r, t). r = Complete \<or>
           r = Again \<and> fw_inv E True n s0 t \<and> straight n t \<and> card (pending n t) < card (pending n s))"
proof -
  have s: "s\<lparr>g_cq_blocked := 0\<rparr> = s" using st by (simp add: straight_def)
  obtain r t where a: "activate_nodes E n s = Some (r, t)" and t: "fw_inv E True n s0 t" "straight n t"
    and p: "r = 0 \<and> t = s \<or> r = 1 \<and> pending n t \<subset> pending n s"
    using ok_exists [OF straight_scan [OF inv st, of "[0..<n]" False]]
    by (auto simp: activate_nodes_def atLeast0LessThan)
  have ci: "check_inflight E t = Some (0, t)"
    using t(2) by (simp add: check_inflight_def straight_def check_inflight_loop.simps)
  note cw = straight_waits [OF t]
  have "\<not> (\<exists>i \<in> {..<n}. g_node_status t i = 1 \<or> g_node_status t i = 3)"
    using t(2) by (force simp: straight_def)
  then have act: "any_active [0..<n] t = Some False"
    using any_active_ok [OF t(1), of "[0..<n]"] by (simp add: atLeast0LessThan)
  have hook: "scan_hook E t = t" using E by (simp add: scan_hook_def)
  have blk: "g_cq_blocked t = 0" using t(2) by (simp add: straight_def)
  have st': "straight n (beat t)" and pn: "pending n (beat t) = pending n t"
    using t(2)
    by (simp_all add: straight_def pending_def cq_room_def cq_used_def beat_def upd_ctrl_def
        node_ref_def node_addr_def)
  have "finite (pending n s)" by (simp add: pending_def)
  then have "r = 1 \<Longrightarrow> card (pending n (beat t)) < card (pending n s)"
    using p pn by (simp add: psubset_card_mono)
  then show ?thesis
    using a ci cw act hook blk p st' fw_inv_prim(7) [OF t(1)] s
    by (auto simp: scan_pass_def)
qed

lemma straight_loop:
  assumes "fw_inv E True n s0 s" and "straight n s" and E: "on_scan_pass E = None"
    and "card (pending n s) < fuel"
  shows "ok (scan_loop E n fuel s) (\<lambda>(r, t). r = Some 0)"
  using assms(1,2,4)
proof (induction fuel arbitrary: s)
  case 0
  then show ?case by simp
next
  case (Suc fuel)
  then show ?case
    using straight_pass [OF Suc.prems(1,2) E]
    by (auto elim!: ok_mono split: pass_result.splits)
qed

section \<open>Fatal quiescence\<close>

text \<open>
  Reaching the end of quiescence releases no barrier, so nothing that depended on abandoned
  work can ever run; and an infinite kernel cannot be abandoned without demanding recovery.
\<close>

definition recovery_set :: "'c rp1 \<Rightarrow> bool" where
  "recovery_set s \<longleftrightarrow> rp1_error_code (ctrl s) AND RP1_ERR_RECOVERY_REQUIRED \<noteq> 0"

definition kernels_same :: "'c rp1 \<Rightarrow> 'c rp1 \<Rightarrow> bool" where
  "kernels_same s t \<longleftrightarrow> g_inflight t = g_inflight s \<and> g_inflight_count t = g_inflight_count s \<and>
     g_barriers t = g_barriers s"

lemma kernels_same_prim [simp]:
  "kernels_same s (put_status i st u) = kernels_same s u"
  "kernels_same s (rp1_mark_recovery_required u) = kernels_same s u"
  "kernels_same s (rp1_latch_error code nd dt ax u) = kernels_same s u"
  "kernels_same s (snd (mmio_read E a u)) = kernels_same s u"
  "kernels_same s (snd (read_cycles E u)) = kernels_same s u"
  "kernels_same s (fence E u) = kernels_same s u"
  "kernels_same s (cq_publish E e u) = kernels_same s u"
  "kernels_same s (upd_ctrl f u) = kernels_same s u"
  "kernels_same s (put_trace i te u) = kernels_same s u"
  "kernels_same s (put_cq i e u) = kernels_same s u"
  "kernels_same s (snd (cq_can_write fl u)) = kernels_same s u"
  "kernels_same s (scan_hook E u) = kernels_same s u"
  "kernels_same s (beat u) = kernels_same s u"
  "kernels_same s s"
  by (simp_all add: kernels_same_def prim_defs rp1_latch_error_def cq_can_write_def Let_def
      split_beta)

lemma kernels_same_trace: "trace E ev ni a0 a1 u = Some t \<Longrightarrow> kernels_same s t = kernels_same s u"
  by (auto simp: trace_def Let_def split_beta trace_write_def split: if_splits)

lemma kernels_same_write:
  "write_cq_entry E fl ni st dt u = Some (r, t) \<Longrightarrow> kernels_same s t = kernels_same s u"
proof -
  assume w: "write_cq_entry E fl ni st dt u = Some (r, t)"
  obtain v u' where c: "cq_can_write fl u = (v, u')" by fastforce
  then have "kernels_same s u' = kernels_same s u" using kernels_same_prim(11) [of s fl u] by simp
  then show ?thesis
    using w c by (auto simp: write_cq_entry_def Let_def split_beta cq_write_def split: if_splits)
qed

lemma kernels_same_publish:
  "quiesce_publish E k fl nst cst dt u = Some t \<Longrightarrow> kernels_same s t = kernels_same s u"
  by (auto simp: quiesce_publish_def bind_simps set_node_status_def dest!: kernels_same_write [of _ _ _ _ _ _ _ _ s]
      split: if_splits)

lemma recovery_set_mark [simp]:
  "recovery_set (remove_inflight i (rp1_mark_recovery_required s))"
  by (simp add: recovery_set_def remove_inflight_def Let_def rp1_mark_recovery_required_def
      upd_ctrl_def bit.conj_disj_distrib2 or_eq_0_iff)

text \<open>One step of quiescence drops at most the entry it looks at, an infinite one only marked.\<close>

definition quiesce_effect :: "nat \<Rightarrow> poll_step \<Rightarrow> 'c rp1 \<Rightarrow> 'c rp1 \<Rightarrow> bool" where
  "quiesce_effect i r s t \<longleftrightarrow>
     r = Advance \<and> kernels_same s t \<or>
     r = Removed \<and> (\<exists>u. kernels_same s u \<and> t = remove_inflight i u \<and>
       (ki_infinite (g_inflight s i) \<noteq> 0 \<longrightarrow> recovery_set t))"

lemma quiesce_effectI:
  "kernels_same s t \<Longrightarrow> quiesce_effect i Advance s t"
  "kernels_same s u \<Longrightarrow> ki_infinite (g_inflight s i) = 0 \<or> recovery_set (remove_inflight i u) \<Longrightarrow>
   quiesce_effect i Removed s (remove_inflight i u)"
  by (auto simp: quiesce_effect_def)

lemma quiesce_one_effect:
  assumes "quiesce_one E i s = Some (r, t)"
  shows "quiesce_effect i r s t"
  using assms
  by (auto simp: quiesce_one_def inflight_read_def Let_def bind_simps kernels_same_trace
      kernels_same_publish split: if_splits intro!: quiesce_effectI)

lemma quiesce_pass_barriers:
  "quiesce_pass E fuel i s = Some t \<Longrightarrow> g_barriers t = g_barriers s"
proof (induction fuel arbitrary: i s)
  case 0
  then show ?case by (subst (asm) quiesce_pass.simps) (simp split: if_splits)
next
  case (Suc fuel)
  have "g_barriers u = g_barriers s" if "quiesce_one E i s = Some (r, u)" for r u
    using quiesce_one_effect [OF that]
    by (auto simp: quiesce_effect_def kernels_same_def remove_inflight_def Let_def)
  then show ?case
    using Suc by (subst (asm) (2) quiesce_pass.simps) (auto simp: bind_simps split: if_splits)
qed

text \<open>Once quiescence is over, a kernel that was infinite has left its mark.\<close>

definition infinite_tracked :: "'c rp1 \<Rightarrow> bool" where
  "infinite_tracked s \<longleftrightarrow>
     (\<exists>i < unat (g_inflight_count s). ki_infinite (g_inflight s i) \<noteq> 0)"

lemma infinite_tracked_remove:
  assumes "infinite_tracked s" and "i < unat (g_inflight_count s)"
    and "ki_infinite (g_inflight s i) = 0"
  shows "infinite_tracked (remove_inflight i s)"
proof -
  obtain j where j: "j < unat (g_inflight_count s)" "ki_infinite (g_inflight s j) \<noteq> 0"
    using assms(1) by (auto simp: infinite_tracked_def)
  then have ne: "j \<noteq> i" using assms(3) by auto
  have pred: "unat (g_inflight_count s - 1) = unat (g_inflight_count s) - 1"
    using assms(2) by (intro unat_pred) auto
  let ?j = "if j = unat (g_inflight_count s) - 1 then i else j"
  have "?j < unat (g_inflight_count s) - 1" using j ne assms(2) by auto
  moreover have "ki_infinite (g_inflight (remove_inflight i s) ?j) \<noteq> 0"
    using j ne pred assms(2) by (auto simp: remove_inflight_def Let_def)
  ultimately show ?thesis using pred by (auto simp: infinite_tracked_def)
qed

lemma fw_steps_recovery:
  assumes "fw_steps E h n s t" and "h \<longrightarrow> host_keeps_latch E" and "recovery_set s"
  shows "recovery_set t"
  using assms
proof (induction rule: fw_steps.induct)
  case (host t)
  then show ?case
    unfolding recovery_set_def host_keeps_latch_def scan_hook_def
    by (auto split: option.split prod.split)
qed (auto simp: recovery_set_def prim_defs rp1_latch_error_def remove_inflight_def Let_def
    split_beta bit.conj_disj_distrib2 or_eq_0_iff)

lemma quiesce_pass_infinite:
  assumes "fw_inv E h n s0 s" and "h \<longrightarrow> host_keeps_latch E"
    and "quiesce_pass E fuel i s = Some t" and "recovery_set s \<or> infinite_tracked s"
  shows "recovery_set t \<or> infinite_tracked t"
  using assms(1,3,4)
proof (induction fuel arbitrary: i s)
  case 0
  then show ?case by (subst (asm) quiesce_pass.simps) (simp split: if_splits)
next
  case (Suc fuel)
  show ?case
  proof (cases "i < unat (g_inflight_count s)")
    case False
    then show ?thesis using Suc.prems by (subst (asm) quiesce_pass.simps) simp
  next
    case True
    obtain r u where u: "quiesce_one E i s = Some (r, u)"
      and rest: "quiesce_pass E fuel (if r = Removed then i else i + 1) u = Some t"
      using Suc.prems(2) True by (subst (asm) quiesce_pass.simps) (auto simp: bind_simps)
    have refl: "fw_inv E h n s s"
      using Suc.prems(1) by (simp add: fw_inv_def fw_steps.refl)
    have "fw_inv E h n s u"
      using ok_result [OF quiesce_one_ok [OF refl True] u, of "\<lambda>(r, t). fw_inv E h n s t"] by simp
    then have keep: "recovery_set s \<Longrightarrow> recovery_set u"
      using fw_steps_recovery [OF _ assms(2)] by (auto simp: fw_inv_def)
    have inv: "fw_inv E h n s0 u"
      using ok_result [OF quiesce_one_ok [OF Suc.prems(1) True] u,
          of "\<lambda>(r, t). fw_inv E h n s0 t"] by simp
    have same: "infinite_tracked w = infinite_tracked s" if "kernels_same s w" for w
      using that by (simp add: kernels_same_def infinite_tracked_def)
    have drop: "infinite_tracked (remove_inflight i w)"
      if "kernels_same s w" "infinite_tracked s" "ki_infinite (g_inflight s i) = 0" for w
      using that infinite_tracked_remove [of w i] same [OF that(1)] True
      by (auto simp: kernels_same_def)
    have "recovery_set u \<or> infinite_tracked u"
    proof (cases "recovery_set s")
      case True
      then show ?thesis using keep by simp
    next
      case False
      then have "infinite_tracked s" using Suc.prems(3) by simp
      then show ?thesis
        using quiesce_one_effect [OF u, unfolded quiesce_effect_def]
      proof (elim disjE conjE exE)
        assume "kernels_same s u"
        then show ?thesis using \<open>infinite_tracked s\<close> same by blast
      next
        fix w
        assume "kernels_same s w" "u = remove_inflight i w"
          "ki_infinite (g_inflight s i) \<noteq> 0 \<longrightarrow> recovery_set u"
        then show ?thesis using drop [OF _ \<open>infinite_tracked s\<close>] by blast
      qed
    qed
    then show ?thesis by (rule Suc.IH [OF inv rest])
  qed
qed

lemma infinite_tracked_turn:
  "infinite_tracked (beat (scan_hook E u)) = infinite_tracked u"
  by (simp add: infinite_tracked_def beat_def upd_ctrl_def)

lemma recovery_set_turn:
  assumes "host_keeps_latch E" and "recovery_set u"
  shows "recovery_set (beat (scan_hook E u))"
  by (rule fw_steps_recovery [OF fw_steps.beat [OF fw_steps.host [OF fw_steps.refl TrueI]] _ assms(2)])
    (simp add: assms(1))

lemma quiesce_inflight_effect:
  assumes "fw_inv E True n s0 s" and latch: "host_keeps_latch E"
    and "quiesce_inflight E fuel s = Some (b, t)"
  shows "g_barriers t = g_barriers s \<and>
    (recovery_set s \<or> infinite_tracked s \<longrightarrow> recovery_set t \<or> infinite_tracked t)"
  using assms(1,3)
proof (induction fuel arbitrary: s)
  case 0
  then show ?case by (subst (asm) quiesce_inflight.simps) (auto split: if_splits)
next
  case (Suc fuel)
  show ?case
  proof (cases "g_inflight_count s = 0")
    case True
    then show ?thesis using Suc.prems(2) by (subst (asm) quiesce_inflight.simps) simp
  next
    case False
    then obtain u where u: "quiesce_pass E (unat (g_inflight_count s)) 0 s = Some u"
      and rest: "quiesce_inflight E fuel (beat (scan_hook E u)) = Some (b, t)"
      using Suc.prems(2) by (subst (asm) quiesce_inflight.simps) (auto simp: bind_simps)
    have "fw_inv E True n s0 u"
      using ok_result [OF quiesce_pass_ok [OF Suc.prems(1)] u, of "fw_inv E True n s0"] by simp
    then have inv: "fw_inv E True n s0 (beat (scan_hook E u))" by (intro fw_ok)
    have "g_barriers (beat (scan_hook E u)) = g_barriers s"
      using quiesce_pass_barriers [OF u] by (simp add: beat_def upd_ctrl_def)
    then show ?thesis
      using Suc.IH [OF inv rest] quiesce_pass_infinite [OF Suc.prems(1) _ u] latch
        infinite_tracked_turn [of E u] recovery_set_turn [OF latch, of u] by auto
  qed
qed

section \<open>Loop nodes\<close>

lemma clear_buckets_eq:
  assumes "b \<le> e \<Longrightarrow> unat e < 32"
  shows "clear_buckets b e s =
    Some (s\<lparr>g_barriers := \<lambda>x. if unat b \<le> x \<and> x \<le> unat e then 0 else g_barriers s x\<rparr>)"
  using assms
proof (induction b e s rule: clear_buckets.induct)
  case (1 b e s)
  show ?case
  proof (cases "b \<le> e")
    case True
    then have lt: "unat b < 32" using "1.prems" by (simp add: word_le_nat_alt)
    then have suc: "unat (b + 1) = unat b + 1" by (simp add: unat_word_ariths)
    have "clear_buckets b e s = clear_buckets (b + 1) e (set_barrier (unat b) 0 s)"
      using True lt by (subst clear_buckets.simps) simp
    also have "\<dots> = Some ((set_barrier (unat b) 0 s)\<lparr>g_barriers :=
        \<lambda>x. if unat (b + 1) \<le> x \<and> x \<le> unat e then 0 else g_barriers (set_barrier (unat b) 0 s) x\<rparr>)"
      using "1.IH" True lt "1.prems" by simp
    also have "\<dots> =
      Some (s\<lparr>g_barriers := \<lambda>x. if unat b \<le> x \<and> x \<le> unat e then 0 else g_barriers s x\<rparr>)"
      using True suc by (auto simp: set_barrier_def word_le_nat_alt fun_eq_iff intro!: arg_cong [where f = "\<lambda>f. s\<lparr>g_barriers := f\<rparr>"])
    finally show ?thesis .
  next
    case False
    then have "(\<lambda>x. if unat b \<le> x \<and> x \<le> unat e then 0 else g_barriers s x) = g_barriers s"
      by (auto simp: word_le_nat_alt fun_eq_iff)
    with False show ?thesis by (subst clear_buckets.simps) simp
  qed
qed

text \<open>What re-arming a body leaves alone.\<close>

definition status_only :: "'c rp1 \<Rightarrow> 'c rp1 \<Rightarrow> bool" where
  "status_only s t \<longleftrightarrow> g_barriers t = g_barriers s \<and> g_loop_iters t = g_loop_iters s \<and>
     cq_abs t = cq_abs s \<and> ctx t = ctx s"

lemma status_only_refl [simp]: "status_only s s"
  by (simp add: status_only_def)

lemma status_only_put [simp]: "status_only s (put_status i st u) = status_only s u"
  by (simp add: status_only_def) (simp add: put_status_def put_node_status_def)

lemma status_only_trans: "status_only s t \<Longrightarrow> status_only t u \<Longrightarrow> status_only s u"
  by (simp add: status_only_def)

lemma rearm_nodes_effect:
  assumes "layout_wf n s" and "m \<le> e \<Longrightarrow> unat e < n"
  shows "ok (rearm_nodes m e s) (\<lambda>t. layout_wf n t \<and> status_only s t \<and>
    g_node_status t = (\<lambda>j. if unat m \<le> j \<and> j \<le> unat e then ucast RP1_NODE_PENDING
                          else g_node_status s j))"
  using assms
proof (induction m e s rule: rearm_nodes.induct)
  case (1 m e s)
  show ?case
  proof (cases "m \<le> e")
    case True
    let ?u = "put_status (unat m) RP1_NODE_PENDING s"
    have m: "unat m < n" "unat m \<le> unat e" using "1.prems"(2) True by (auto simp: word_le_nat_alt)
    moreover have "n \<le> 4096" using "1.prems"(1) by (simp add: layout_wf_def)
    ultimately have lt: "unat m < 4096" by simp
    then have suc: "unat (m + 1) = unat m + 1" by (simp add: unat_word_ariths)
    have st: "set_node_status (unat m) RP1_NODE_PENDING s = Some ?u"
      using layout_wf_node [OF "1.prems"(1) m(1)] lt by (simp add: set_node_status_def)
    have step: "rearm_nodes m e s = rearm_nodes (m + 1) e ?u"
      using True lt st by (subst rearm_nodes.simps) simp
    have gu: "g_node_status ?u = (g_node_status s)(unat m := 0)"
      by (simp add: put_status_def put_node_status_def)
    have "ok (rearm_nodes (m + 1) e ?u) (\<lambda>t. layout_wf n t \<and> status_only ?u t \<and>
      g_node_status t = (\<lambda>j. if unat (m + 1) \<le> j \<and> j \<le> unat e then ucast RP1_NODE_PENDING
                            else g_node_status ?u j))"
      using "1.IH" [OF True _ st] lt "1.prems" True by simp
    moreover have "status_only ?u t \<Longrightarrow> status_only s t" for t
      using status_only_trans [of s ?u t] by simp
    ultimately show ?thesis
      unfolding step
      using suc gu m(2)
      by (elim ok_mono) (auto simp: fun_eq_iff split: if_splits)
  next
    case False
    then show ?thesis
      using "1.prems" by (subst rearm_nodes.simps) (auto simp: word_le_nat_alt fun_eq_iff)
  qed
qed

text \<open>When a LOOP leaves: its iteration budget is spent or its condition holds.\<close>

definition loop_exits :: "rp1_node \<Rightarrow> 'c rp1 \<Rightarrow> bool" where
  "loop_exits nd s \<longleftrightarrow>
     (let p = payload nd; iters = g_loop_iters s (unat (lp_loop_id p)) + 1 in
      (lp_max_iterations p \<noteq> 0 \<and> lp_max_iterations p < iters) \<or>
      compare (sig_value (signal_ref (unat (lp_condition_signal p)) s)) (lp_condition_op p)
        (lp_condition_value p))"

lemma put_status_tables:
  "g_node_status (put_status i st s) = (g_node_status s)(i := ucast st)"
  "g_barriers (put_status i st s) = g_barriers s"
  "g_loop_iters (put_status i st s) = g_loop_iters s"
  by (simp_all add: put_status_def put_node_status_def)

lemma trace_tables:
  assumes "trace E ev ni a0 a1 s = Some t"
  shows "g_loop_iters t = g_loop_iters s" "cq_abs t = cq_abs s"
proof -
  show "cq_abs t = cq_abs s"
    using assms by (auto simp: trace_def Let_def split_beta trace_write_def split: if_splits)
  show "g_loop_iters t = g_loop_iters s"
    using assms
    by (auto simp: trace_def Let_def split_beta trace_write_def prim_defs split: if_splits)
qed

lemma activate_loop_rearm:
  assumes inv: "fw_inv E h n s0 s" and i: "i < n" and nd: "node_error (of_nat n) av nd = None"
    and opc: "opcode nd = RP1_OP_LOOP" and go: "\<not> loop_exits nd s"
  shows "ok (activate_loop E nd i s) (\<lambda>(r, t). r = Next True \<and>
    g_loop_iters t = (g_loop_iters s)(unat (lp_loop_id (payload nd)) :=
        g_loop_iters s (unat (lp_loop_id (payload nd))) + 1) \<and>
    g_barriers t = (\<lambda>b. if unat (lp_bucket_clear_start (payload nd)) \<le> b \<and>
        b \<le> unat (lp_bucket_clear_end (payload nd)) then 0 else g_barriers s b) \<and>
    g_node_status t = (\<lambda>j. if j = i then ucast RP1_NODE_DONE
        else if unat (lp_body_start (payload nd)) \<le> j \<and> j \<le> unat (lp_body_end (payload nd))
        then ucast RP1_NODE_PENDING else g_node_status s j) \<and>
    cq_abs t = cq_abs s)"
proof -
  let ?p = "payload nd"
  let ?id = "unat (lp_loop_id ?p)"
  let ?s1 = "put_loop_iters ?id (g_loop_iters s ?id + 1) s"
  note v = node_error_loop [OF nd opc]
  have be: "unat (lp_body_end ?p) < n" using of_nat_less_word [OF v(3)] fw_inv_n [OF inv] by simp
  have inv1: "fw_inv E h n s0 ?s1" using inv v(2) by (intro fw_ok)
  have sig: "signal_read (unat (lp_condition_signal ?p)) ?s1 =
      Some (signal_ref (unat (lp_condition_signal ?p)) s)"
    using layout_wf_signal [OF fw_inv_layout [OF inv1] v(1)]
    by (simp add: signal_read_def signal_ref_def put_loop_iters_def)
  obtain s2 where s2: "trace E RP1_TRACE_LOOP_ITER (of_nat i) (ucast (lp_loop_id ?p))
      (push_bit 1 (g_loop_iters s ?id + 1) OR 0) ?s1 = Some s2" and inv2: "fw_inv E h n s0 s2"
    using ok_exists [OF trace_ok [OF inv1, of "fw_inv E h n s0"]] by blast
  let ?s3 = "s2\<lparr>g_barriers := \<lambda>x. if unat (lp_bucket_clear_start ?p) \<le> x \<and>
      x \<le> unat (lp_bucket_clear_end ?p) then 0 else g_barriers s2 x\<rparr>"
  have cb: "clear_buckets (lp_bucket_clear_start ?p) (lp_bucket_clear_end ?p) s2 = Some ?s3"
    using v(4) by (intro clear_buckets_eq)
  have lay3: "layout_wf n ?s3" using fw_inv_layout [OF inv2] by (simp add: layout_wf_def)
  have "cq_abs ?s3 = cq_abs s2" by (rule cq_abs_cong) simp_all
  then have c3: "cq_abs ?s3 = cq_abs s" using trace_tables(2) [OF s2] by simp
  have fr: "g_loop_iters ?s3 = g_loop_iters ?s1" "g_node_status ?s3 = g_node_status s"
    "g_barriers s2 = g_barriers s"
    using trace_tables(1) [OF s2] trace_frame [OF s2] by (simp_all add: put_loop_iters_def)
  have main: "activate_loop E nd i s = rearm_nodes (lp_body_start ?p) (lp_body_end ?p) ?s3 \<bind>
      (\<lambda>u. set_node_status i RP1_NODE_DONE u \<bind> (\<lambda>t. Some (Next True, t)))"
    using go v(2) sig s2 cb
    by (auto simp: activate_loop_def loop_exits_def Let_def loop_iters_read_def loop_iters_write_def
        word_gt_0)
  have st: "set_node_status i RP1_NODE_DONE u = Some (put_status i RP1_NODE_DONE u)"
    if "layout_wf n u" for u
    using layout_wf_node [OF that i] that i by (simp add: set_node_status_def layout_wf_def)
  show ?thesis
    unfolding main ok_bind
    by (rule ok_mono [OF rearm_nodes_effect [OF lay3 be, of "lp_body_start ?p"]])
      (use fr c3 in \<open>auto simp: st status_only_def put_status_tables put_loop_iters_def fun_eq_iff\<close>)
qed

end
