(* ===== verification/Rp1_Errors.thy ===== *)
theory Rp1_Errors
  imports Rp1_Loop_Props
begin

unbundle bit_operations_syntax

text \<open>
  Every error return of the dispatch loop leaves a cause behind: an operation of
  \<^verbatim>\<open>rp1_loop.c\<close> that returns -1 has latched a code with a non-zero cause, and nothing the loop does
  afterwards clears it.
\<close>

section \<open>Error results carry a latched cause\<close>

definition erred :: "'c rp1 \<Rightarrow> bool" where
  "erred s \<longleftrightarrow> rp1_error_code (ctrl s) AND 0x7FFFFFFF \<noteq> 0"

lemma erred_code: "erred s \<Longrightarrow> rp1_error_code (ctrl s) \<noteq> 0"
  by (auto simp: erred_def)

lemma erred_latched: "latched (ctrl s) (ctrl t) \<Longrightarrow> erred s \<Longrightarrow> erred t"
  by (simp add: latched_def erred_def)

lemma erred_latch [simp]:
  assumes "code AND 0x7FFFFFFF \<noteq> 0"
  shows "erred (rp1_latch_error code nd d a s)"
proof -
  have "(x AND 0x80000000 OR code) AND 0x7FFFFFFF = code AND 0x7FFFFFFF" for x :: u32
    by (simp add: bit.conj_disj_distrib2 and.assoc)
  then show ?thesis
    using assms by (simp add: erred_def rp1_latch_error_def upd_ctrl_def)
qed

lemma erred_keep: "erred s \<Longrightarrow> erred (rp1_latch_error code nd d a s)"
  by (simp add: erred_def rp1_latch_error_def)

lemma erred_prim [simp]:
  "erred (put_status i st s) = erred s"
  "erred (set_barrier b v s) = erred s"
  "erred (beat s) = erred s"
  "erred (remove_inflight i s) = erred s"
  "erred (push_inflight k s) = erred s"
  "erred (snd (read_cycles E s)) = erred s"
  "erred (snd (mmio_read E a s)) = erred s"
  "erred (fence E s) = erred s"
  by (simp_all add: erred_def put_status_def put_node_status_def set_barrier_def beat_def
      upd_ctrl_def push_inflight_def remove_inflight_def Let_def)

lemma erred_status: "set_node_status i st s = Some t \<Longrightarrow> erred t = erred s"
  by (auto simp: set_node_status_def bind_simps split: if_splits)

lemma erred_barrier: "raise_barrier b m s = Some t \<Longrightarrow> erred t = erred s"
  by (auto simp: raise_barrier_def barrier_write_def bind_simps split: if_splits)

lemma erred_trace: "trace E ev ni a0 a1 s = Some t \<Longrightarrow> erred t = erred s"
  by (auto simp: trace_def Let_def split_beta trace_write_def erred_def upd_ctrl_def put_trace_def
      split: if_splits)

lemma erred_can_write:
  "erred s \<Longrightarrow> erred (snd (cq_can_write fl s))"
  "fst (cq_can_write fl s) < 0 \<Longrightarrow> erred (snd (cq_can_write fl s))"
  by (auto simp: cq_can_write_def Let_def erred_keep split: if_splits)

lemma erred_write:
  assumes "write_cq_entry E fl ni st d s = Some (r, t)"
  shows "erred s \<or> r < 0 \<Longrightarrow> erred t"
  using assms erred_can_write(1) [of s fl] erred_can_write(2) [of fl s]
  by (auto simp: write_cq_entry_def split_beta Let_def bind_simps cq_write_def split: if_splits)
    (auto simp: erred_def upd_ctrl_def put_cq_def)

lemmas erred_intros = erred_status [THEN iffD2] erred_barrier [THEN iffD2] erred_trace [THEN iffD2]
  erred_write [OF _ disjI1] erred_write [OF _ disjI2] erred_can_write(2)

lemmas erred_dests = erred_write [OF _ disjI1 [OF erred_latch]]

lemma complete_node_erred: "complete_node E nd i s = Some (Ret v, t) \<Longrightarrow> erred t"
  by (auto simp: complete_node_def bind_simps dest: erred_write split: if_splits)

lemma activate_image_mismatch_erred:
  "activate_image_mismatch E nd i s = Some (Ret v, t) \<Longrightarrow> erred t"
  by (auto simp: activate_image_mismatch_def Let_def bind_simps intro: erred_intros
      dest: erred_dests split: if_splits)

lemma activate_kernel_erred: "activate_kernel E nd i s = Some (Ret v, t) \<Longrightarrow> erred t"
  by (auto simp: activate_kernel_def Let_def bind_simps
      intro: erred_intros activate_image_mismatch_erred split: if_splits)

lemma activate_pdi_erred: "activate_pdi E nd i s = Some (Ret v, t) \<Longrightarrow> erred t"
  by (auto simp: activate_pdi_def Let_def bind_simps
      intro: erred_intros complete_node_erred split: if_splits)

lemma run_opcode_erred:
  assumes "run_opcode E nd i s = Some (Ret (-1), t)"
  shows "erred t"
proof -
  have "erred t" if "activate_halt E nd i s = Some (Ret (-1), t)"
    using that by (auto simp: activate_halt_def bind_simps dest: erred_write split: if_splits)
  moreover have "erred t" if "activate_loop E nd i s = Some (Ret (-1), t)"
    using that by (auto simp: activate_loop_def Let_def bind_simps dest: complete_node_erred
        split: if_splits)
  moreover have "erred t" if "activate_wait E nd i s = Some (Ret (-1), t)"
    using that by (auto simp: activate_wait_def Let_def bind_simps dest: complete_node_erred
        split: if_splits)
  ultimately show ?thesis
    using assms
    by (auto simp: run_opcode_def activate_cond_def activate_rerun_def activate_immediate_def
        Let_def bind_simps
        dest: complete_node_erred activate_kernel_erred activate_pdi_erred split: if_splits)
qed

lemma activate_ready_erred: "activate_ready E nd i s = Some (Ret (-1), t) \<Longrightarrow> erred t"
  by (auto simp: activate_ready_def Let_def bind_simps
      intro: erred_can_write(2) dest: run_opcode_erred split: if_splits)

lemma activate_node_erred: "activate_node E i s = Some (Ret (-1), t) \<Longrightarrow> erred t"
  by (auto simp: activate_node_def bind_simps dest: activate_ready_erred split: if_splits)

lemma check_wait_erred: "check_wait E i s = Some (Ret v, t) \<Longrightarrow> erred t"
  by (auto simp: check_wait_def Let_def bind_simps intro: erred_can_write(2)
      dest: complete_node_erred split: if_splits)

lemma scan_nodes_erred:
  assumes "\<And>i s t. f i s = Some (Ret v, t) \<Longrightarrow> erred t" and "v < 0"
  shows "scan_nodes f is m s = Some (v, t) \<Longrightarrow> erred t"
  using assms by (induction "is" arbitrary: m s) (auto simp: bind_simps split: if_splits)

lemma expire_inflight_erred: "expire_inflight E i k fl s = Some (Fatal, t) \<Longrightarrow> erred t"
  by (auto simp: expire_inflight_def Let_def bind_simps intro: erred_intros
      dest: erred_dests split: if_splits)

lemma finish_inflight_erred: "finish_inflight E i k fl s = Some (Fatal, t) \<Longrightarrow> erred t"
  by (auto simp: finish_inflight_def Let_def bind_simps intro: erred_intros split: if_splits)

lemma check_inflight_one_erred: "check_inflight_one E i s = Some (Fatal, t) \<Longrightarrow> erred t"
  by (auto simp: check_inflight_one_def Let_def bind_simps
      intro: erred_can_write(2) expire_inflight_erred finish_inflight_erred split: if_splits)

lemma check_inflight_loop_erred:
  "check_inflight_loop E fuel i m s = Some (-1, t) \<Longrightarrow> erred t"
proof (induction fuel arbitrary: i m s)
  case 0
  then show ?case by (subst (asm) check_inflight_loop.simps) (simp split: if_splits)
next
  case (Suc fuel)
  then show ?case
    by (subst (asm) check_inflight_loop.simps)
      (auto simp: bind_simps dest: check_inflight_one_erred split: if_splits)
qed

lemma scan_pass_erred:
  assumes "scan_pass E n s = Some (Quiesce (-1), t)" and "host_keeps_latch E"
  shows "erred t"
proof -
  have act: "activate_nodes E n u = Some (-1, v) \<Longrightarrow> erred v" for u v
    using scan_nodes_erred [of "activate_node E" "-1"] activate_node_erred
    unfolding activate_nodes_def by fastforce
  have waits: "check_waits E n u = Some (w, v) \<Longrightarrow> w < 0 \<Longrightarrow> erred v" for u v w
    using scan_nodes_erred [of "check_wait E" w] check_wait_erred
    unfolding check_waits_def by blast
  have hook: "erred u \<Longrightarrow> erred (scan_hook E u)" for u
    using erred_latched latched_scan_hook [OF assms(2)] by blast
  show ?thesis
    using assms(1)
    by (auto simp: scan_pass_def Let_def bind_simps check_inflight_def
        intro: hook act waits check_inflight_loop_erred split: if_splits)
qed

lemma quiesce_erred:
  assumes "fw_inv E True n s0 s" and "host_keeps_latch E" and "erred s"
    and "quiesce_and_return E fuel v s = Some (r, t)"
  shows "erred t"
proof -
  have start: "fw_inv E True n s s" using assms(1) by (auto simp: fw_inv_def intro: fw_steps.intros)
  obtain b where q: "quiesce_inflight E fuel s = Some (b, t)"
    using assms(4) by (auto simp: quiesce_and_return_def bind_simps)
  have "fw_steps E True n s t"
    using ok_result [OF quiesce_inflight_ok [OF start, of "\<lambda>(b, t). fw_steps E True n s t"] q]
    by (auto simp: fw_inv_def)
  from fw_steps_latched [OF this] show ?thesis using assms(2,3) erred_latched by blast
qed

lemma scan_loop_erred:
  assumes "host_keeps_latch E"
  shows "fw_inv E True n s0 s \<Longrightarrow> scan_loop E n fuel s = Some (Some (-1), t) \<Longrightarrow> erred t"
proof (induction fuel arbitrary: s)
  case (Suc fuel)
  obtain r u where p: "scan_pass E n s = Some (r, u)"
    and rest: "(case r of Quiesce v \<Rightarrow> quiesce_and_return E fuel v u
      | Complete \<Rightarrow> Some (Some 0, u) | Again \<Rightarrow> scan_loop E n fuel u) = Some (Some (-1), t)"
    using Suc.prems(2) by (auto simp: bind_eq_Some_conv)
  have inv: "fw_inv E True n s0 u"
    using ok_result [OF scan_pass_ok [OF Suc.prems(1), of "\<lambda>(r, t). fw_inv E True n s0 t"] p] by auto
  show ?case
  proof (cases r)
    case (Quiesce v)
    then have v: "v = -1"
      using rest by (auto simp: quiesce_and_return_def bind_simps split: if_splits)
    then show ?thesis
      using rest Quiesce p scan_pass_erred [OF _ assms] quiesce_erred [OF inv assms] by auto
  qed (use rest Suc.IH [OF inv] in auto)
qed simp

lemma report_bad_node_erred:
  assumes "host_keeps_latch E"
  shows "erred s \<Longrightarrow> report_bad_node E fuel bad d s = Some (r, t) \<Longrightarrow> erred t"
proof (induction fuel arbitrary: s)
  case 0
  then show ?case
    by (subst (asm) report_bad_node.simps) (auto simp: bind_simps dest: erred_write split: if_splits)
next
  case (Suc fuel)
  have "erred u \<Longrightarrow> erred (scan_hook E u)" for u
    using erred_latched latched_scan_hook [OF assms] by blast
  then have turn: "erred u \<Longrightarrow> report_bad_node E fuel bad d (beat (scan_hook E u)) = Some (r, t) \<Longrightarrow> erred t"
    for u using Suc.IH [of "beat (scan_hook E u)"] by simp
  show ?case
    using Suc.prems
    by (subst (asm) report_bad_node.simps)
      (auto simp: bind_simps dest: erred_write intro: turn split: if_splits)
qed

lemma rp1_loop_erred:
  assumes "fresh n s" and "host_ok E" and "pdi_returns E" and "host_keeps_latch E"
    and "rp1_loop E fuel s = Some (Some (-1), t)"
  shows "erred t"
proof (cases "valid_graph n s")
  case True
  have "fw_inv E True n s s" using fresh_fw_inv [OF assms(1) True] assms(2,3) by simp
  then show ?thesis
    using assms(5) scan_loop_erred [OF assms(4)] by (simp add: rp1_loop_valid [OF assms(1) True])
next
  case False
  have n: "n = unat (node_count (ctrl s))" and lay: "layout_wf (unat (node_count (ctrl s))) s"
    using assms(1) by (auto simp: fresh_def)
  show ?thesis
    using lay
  proof (rule validate_nodes_iff)
    fix i d a
    assume "validate_nodes (node_count (ctrl s)) s = Some (Some (i, d, a))"
    then obtain u where "set_node_status i RP1_NODE_ERROR
        (rp1_latch_error RP1_ERR_INVALID_NODE (of_nat i) d a s) = Some u"
      and "report_bad_node E fuel (of_nat i) d u = Some (True, t)"
      using assms(5) by (auto simp: rp1_loop_def bind_simps split: if_splits)
    then show ?thesis
      using report_bad_node_erred [OF assms(4)] erred_status by fastforce
  qed (use False n in simp)
qed

end
