(* ===== verification/Rp1_Run.thy ===== *)
theory Rp1_Run
  imports Rp1_Errors
begin

unbundle bit_operations_syntax

text \<open>
  The outer loop of the RP1 firmware, from
  \<^verbatim>\<open>linker/slashkit/resources/aved/rp1/src/rp1_run.c\<close>: contract publication at start-up, idle
  polling, acceptance of a submitted graph, and publication of its result.

  The loop takes fuel, one unit per iteration, and hands the same fuel to the dispatch loop of
  each graph; the result is \<open>None\<close> while it is still running. The callbacks \<open>on_idle\<close> and
  \<open>on_graph_done\<close> are the harness's; absent on hardware, where the loop never returns.
\<close>

section \<open>Model\<close>

definition run_trace :: "'c rp1_env \<Rightarrow> u16 \<Rightarrow> u32 \<Rightarrow> u32 \<Rightarrow> u32 \<Rightarrow> 'c rp1 \<Rightarrow> 'c rp1 option" where
  "run_trace E event node_index aux0 aux1 s =
     (if g_trace_enable s = 0 \<or> g_trace s = 0 \<or> g_trace_size s = 0 then Some s
      else let idx = trace_write_idx (ctrl s) mod g_trace_size s;
               (now, s) = read_cycles E s
           in do {
             s \<leftarrow> trace_write (unat idx) \<lparr>tre_timestamp = now - g_graph_start_cycles s,
                    tre_event = event, tre_node_index = ucast node_index,
                    tre_aux0 = aux0, tre_aux1 = aux1\<rparr> s;
             let s = fence E s;
             let s = upd_ctrl (\<lambda>c. c\<lparr>trace_write_idx := trace_write_idx c + 1\<rparr>) s;
             Some (fence E s)
           })"

text \<open>Start-up: everything before the outer loop.\<close>

definition rp1_startup :: "'c rp1_env \<Rightarrow> 'c rp1 \<Rightarrow> 'c rp1" where
  "rp1_startup E s =
     (let s = s\<lparr>ctx := rp1_pmu_init E (ctx s)\<rparr>;
          s = upd_ctrl (\<lambda>c. c\<lparr>magic := 0, rp1_state := RP1_STATE_INIT,
                version := RP1_PROTOCOL_VERSION, capabilities := RP1_REQUIRED_CAPABILITIES,
                pdi_ipi_platform_id := platform_id E\<rparr>) s;
          s = rp1_clear_error_latch s;
          s = upd_ctrl (\<lambda>c. c\<lparr>graph_done_seq := 0, cq_write_idx := 0, heartbeat := 0,
                rp1_state := RP1_STATE_READY\<rparr>) s;
          s = fence E s;
          s = upd_ctrl (\<lambda>c. c\<lparr>magic := RP1_CTRL_MAGIC\<rparr>) s
      in fence E s)"

text \<open>Phase 1 of a graph: accept it, validate the configuration and resolve the pointers.\<close>

definition accept_graph :: "'c rp1_env \<Rightarrow> 'c rp1 \<Rightarrow> (bool \<times> 'c rp1) option" where
  "accept_graph E s = do {
     let accepted_seq = graph_seq (ctrl s);
     let s = rp1_clear_error_latch s;
     let s = upd_ctrl (\<lambda>c. c\<lparr>rp1_current_node := RP1_TERMINAL_ERROR_NODE_NONE,
                             rp1_state := RP1_STATE_RUNNING\<rparr>) s;
     let s = fence E s;
     (r, config_detail, config_aux, s) \<leftarrow> rp1_store_init s;
     let store_ready = (r = 0);
     let s = (if \<not> store_ready
              then rp1_latch_error RP1_ERR_INVALID_CONFIG RP1_TERMINAL_ERROR_NODE_NONE
                     config_detail config_aux s
              else s);
     let (now, s) = read_cycles E s;
     let s = s\<lparr>g_graph_start_cycles := now\<rparr>;
     s \<leftarrow> (if store_ready
            then run_trace E RP1_TRACE_GRAPH_START 0xFFFF accepted_seq (node_count (ctrl s)) s
            else Some s);
     Some (store_ready, s)
   }"

definition terminal_state :: "int \<Rightarrow> u32" where
  "terminal_state result =
     (if result = -1 then RP1_STATE_ERROR
      else if result = -2 then RP1_STATE_HALTED
      else RP1_STATE_READY)"

text \<open>Phase 3: publish the state before the completed sequence.\<close>

definition publish_result :: "'c rp1_env \<Rightarrow> u32 \<Rightarrow> int \<Rightarrow> 'c rp1 \<Rightarrow> 'c rp1" where
  "publish_result E accepted_seq result s =
     (let s = fence E s;
          s = upd_ctrl (\<lambda>c. c\<lparr>rp1_state := terminal_state result\<rparr>) s;
          s = fence E s;
          s = upd_ctrl (\<lambda>c. c\<lparr>graph_done_seq := accepted_seq\<rparr>) s
      in fence E s)"

text \<open>One graph; the result is \<open>None\<close> when the dispatch loop is still running.\<close>

definition run_graph :: "'c rp1_env \<Rightarrow> nat \<Rightarrow> 'c rp1 \<Rightarrow> (int option \<times> 'c rp1) option" where
  "run_graph E fuel s = do {
     let accepted_seq = graph_seq (ctrl s);
     (store_ready, s) \<leftarrow> accept_graph E s;
     (result, s) \<leftarrow> (if \<not> store_ready then Some (Some (-1), s) else rp1_loop E fuel s);
     (case result of
        None \<Rightarrow> Some (None, s)
      | Some result \<Rightarrow> do {
          s \<leftarrow> (if store_ready
                 then run_trace E RP1_TRACE_GRAPH_DONE 0xFFFF (word_of_int result) accepted_seq s
                 else Some s);
          Some (Some result, publish_result E accepted_seq result s)
        })
   }"

definition idle_hook :: "'c rp1_env \<Rightarrow> 'c rp1 \<Rightarrow> bool \<times> 'c rp1" where
  "idle_hook E s =
     (case on_idle E of
        None \<Rightarrow> (False, s)
      | Some f \<Rightarrow> let (stop, d, c) = f (ddr s, ctx s) in (stop, s\<lparr>ddr := d, ctx := c\<rparr>))"

definition done_hook :: "'c rp1_env \<Rightarrow> int \<Rightarrow> 'c rp1 \<Rightarrow> bool \<times> 'c rp1" where
  "done_hook E result s =
     (case on_graph_done E of
        None \<Rightarrow> (False, s)
      | Some f \<Rightarrow> let (stop, d, c) = f result (ddr s, ctx s) in (stop, s\<lparr>ddr := d, ctx := c\<rparr>))"

definition terminal :: "'c rp1 \<Rightarrow> bool" where
  "terminal s \<longleftrightarrow> rp1_state (ctrl s) = RP1_STATE_ERROR \<or> rp1_state (ctrl s) = RP1_STATE_HALTED"

text \<open>\<open>last_result\<close> is the local variable \<open>terminal_result\<close>.\<close>

fun run_loop :: "'c rp1_env \<Rightarrow> nat \<Rightarrow> int \<Rightarrow> 'c rp1 \<Rightarrow> (int option \<times> 'c rp1) option" where
  "run_loop E 0 last_result s = Some (None, s)"
| "run_loop E (Suc fuel) last_result s =
     (if terminal s then
        (let (stop, s) = idle_hook E (beat s) in
         if stop then Some (Some last_result, s) else run_loop E fuel last_result s)
      else if graph_seq (ctrl s) = graph_done_seq (ctrl s) then
        (let (stop, s) = idle_hook E (beat s) in
         if stop then Some (Some 0, s) else run_loop E fuel last_result s)
      else do {
        (result, s) \<leftarrow> run_graph E fuel s;
        (case result of
           None \<Rightarrow> Some (None, s)
         | Some result \<Rightarrow>
             (let (stop, s) = done_hook E result s in
              if stop then Some (Some result, s) else run_loop E fuel result s))
      })"

definition rp1_run :: "'c rp1_env \<Rightarrow> nat \<Rightarrow> 'c rp1 \<Rightarrow> (int option \<times> 'c rp1) option" where
  "rp1_run E fuel s = run_loop E fuel 0 (rp1_startup E s)"

section \<open>The firmware never faults\<close>

lemma fence_status [simp]: "g_node_status (fence E s) = g_node_status s"
  by (simp add: fence_def)

lemma fresh_cong:
  assumes "fresh n s" and "layout_wf n t" and "node_count (ctrl t) = node_count (ctrl s)"
    and "g_inflight_count t = g_inflight_count s" and "g_node_status t = g_node_status s"
  shows "fresh n t"
  using assms by (simp add: fresh_def)

lemma run_trace_ok:
  assumes lay: "layout_wf n s"
  shows "ok (run_trace E ev ni a0 a1 s) (\<lambda>t. layout_wf n t \<and>
    node_count (ctrl t) = node_count (ctrl s) \<and> graph_seq (ctrl t) = graph_seq (ctrl s) \<and>
    latched (ctrl s) (ctrl t) \<and> rp1_error_code (ctrl t) = rp1_error_code (ctrl s) \<and>
    g_inflight_count t = g_inflight_count s \<and> g_node_status t = g_node_status s)"
proof (cases "g_trace_enable s = 0 \<or> g_trace s = 0 \<or> g_trace_size s = 0")
  case True
  then show ?thesis using lay by (simp add: run_trace_def)
next
  case False
  let ?idx = "unat (trace_write_idx (ctrl s) mod g_trace_size s)"
  have lt: "?idx < unat (g_trace_size s)"
    using False by (simp add: unat_mod_distrib unat_gt_0)
  have same: "g_trace (snd (read_cycles E s)) = g_trace s"
    by (simp add: read_cycles_def split_beta)
  have "in_window (elem_addr (g_trace s) 16 ?idx) 16"
    using layout_wf_trace [OF lay _ lt] False by simp
  then show ?thesis
    using False lay same
    by (simp add: run_trace_def Let_def split_beta trace_write_def layout_wf_upd_ctrl)
      (simp add: upd_ctrl_def put_trace_def latched_def)
qed

lemma config_spec_cong:
  "node_count d = node_count c \<Longrightarrow> node_base_lo d = node_base_lo c \<Longrightarrow> node_base_hi d = node_base_hi c \<Longrightarrow>
   cq_size d = cq_size c \<Longrightarrow> cq_base_lo d = cq_base_lo c \<Longrightarrow> cq_base_hi d = cq_base_hi c \<Longrightarrow>
   cq_write_idx d = cq_write_idx c \<Longrightarrow> cq_read_idx d = cq_read_idx c \<Longrightarrow>
   arg_buf_base_lo d = arg_buf_base_lo c \<Longrightarrow> arg_buf_base_hi d = arg_buf_base_hi c \<Longrightarrow>
   sig_array_base_lo d = sig_array_base_lo c \<Longrightarrow> sig_array_base_hi d = sig_array_base_hi c \<Longrightarrow>
   trace_enable d = trace_enable c \<Longrightarrow> trace_size d = trace_size c \<Longrightarrow>
   trace_base_lo d = trace_base_lo c \<Longrightarrow> trace_base_hi d = trace_base_hi c \<Longrightarrow>
   config_spec d = config_spec c"
  unfolding config_spec_def by simp

text \<open>The state in which \<open>accept_graph\<close> calls \<open>rp1_store_init\<close>.\<close>

definition accepting :: "'c rp1_env \<Rightarrow> 'c rp1 \<Rightarrow> 'c rp1" where
  "accepting E s = fence E (upd_ctrl (\<lambda>c. c\<lparr>rp1_current_node := RP1_TERMINAL_ERROR_NODE_NONE,
     rp1_state := RP1_STATE_RUNNING\<rparr>) (rp1_clear_error_latch s))"

lemma accepting_config [simp]: "config_spec (ctrl (accepting E s)) = config_spec (ctrl s)"
  by (rule config_spec_cong) (simp_all add: accepting_def upd_ctrl_def rp1_clear_error_latch_def)

lemma accepting_fields [simp]:
  "node_count (ctrl (accepting E s)) = node_count (ctrl s)"
  "graph_seq (ctrl (accepting E s)) = graph_seq (ctrl s)"
  "rp1_error_code (ctrl (accepting E s)) = 0"
  by (simp_all add: accepting_def upd_ctrl_def rp1_clear_error_latch_def)

text \<open>Acceptance hands the scanner a fresh store, or latches what is wrong.\<close>

lemma accept_graph_ok:
  "ok (accept_graph E s) (\<lambda>(ready, t). ready = config_spec (ctrl s) \<and>
     (ready \<longrightarrow> fresh (unat (node_count (ctrl s))) t \<and> rp1_error_code (ctrl t) = 0) \<and>
     (\<not> ready \<longrightarrow> rp1_error_code (ctrl t) = RP1_ERR_INVALID_CONFIG \<and>
        terminal_error_node (ctrl t) = RP1_TERMINAL_ERROR_NODE_NONE \<and>
        store_config_error (ctrl (accepting E s)) =
          Some (terminal_error_detail (ctrl t), terminal_error_aux (ctrl t))))"
proof (cases "config_spec (ctrl s)")
  case True
  let ?s = "accepting E s" and ?n = "unat (node_count (ctrl s))"
  obtain t where init: "rp1_store_init ?s = Some (0, 0, 0, t)" and lay: "layout_wf ?n t"
    and same: "same_but_status (rp1_store_reset_graph (resolve_pointers ?s)) t"
  proof -
    have none: "store_config_error (ctrl ?s) = None" using True by (simp add: store_config_error_iff)
    obtain r d a t where "rp1_store_init ?s = Some (r, d, a, t)" "layout_wf ?n t"
      "same_but_status (rp1_store_reset_graph (resolve_pointers ?s)) t"
      using ok_exists [OF rp1_store_init_outcome [of ?s]] True by auto
    then show ?thesis using none that by (auto simp: rp1_store_init_def Let_def bind_eq_Some_conv)
  qed
  obtain f where t: "t = (rp1_store_reset_graph (resolve_pointers ?s))\<lparr>ddr :=
      (ddr (rp1_store_reset_graph (resolve_pointers ?s)))\<lparr>d_nodes := f\<rparr>\<rparr>"
    using same by (auto simp: same_but_status_def)
  let ?u = "(snd (read_cycles E t))\<lparr>g_graph_start_cycles := fst (read_cycles E t)\<rparr>"
  have ct: "node_count (ctrl t) = node_count (ctrl s)" "rp1_error_code (ctrl t) = 0"
    "graph_seq (ctrl t) = graph_seq (ctrl s)"
    using t by (simp_all add: rp1_store_reset_graph_def resolve_pointers_def Let_def upd_ctrl_def)
  have lu: "layout_wf ?n ?u"
    using lay by (simp add: layout_wf_def read_cycles_def split_beta)
  have fu: "fresh ?n ?u"
    using lu ct t by (simp add: fresh_def rp1_store_reset_graph_def)
  have body: "accept_graph E s =
      run_trace E RP1_TRACE_GRAPH_START 0xFFFF (graph_seq (ctrl s)) (node_count (ctrl s)) ?u \<bind>
      (\<lambda>t. Some (True, t))"
    using init ct by (simp add: accept_graph_def accepting_def [symmetric] split_beta)
  show ?thesis
    unfolding body ok_bind
    by (rule ok_mono [OF run_trace_ok [OF lu]]) (use True ct fresh_cong [OF fu] in auto)
next
  case False
  let ?s = "accepting E s"
  obtain d a where err: "store_config_error (ctrl ?s) = Some (d, a)"
    using False store_config_error_iff [of "ctrl ?s"] by fastforce
  then have "rp1_store_init ?s = Some (-1, d, a, ?s)" by (simp add: rp1_store_init_def)
  then show ?thesis
    using False err
    by (simp add: accept_graph_def accepting_def [symmetric] split_beta rp1_latch_error_def)
      (simp add: upd_ctrl_def Let_def)
qed

lemma rp1_loop_ok:
  assumes "fresh n s" and "host_ok E" and "pdi_returns E"
  shows "ok (rp1_loop E fuel s) (\<lambda>(r, t). layout_wf n t \<and> unat (g_inflight_count t) \<le> 32)"
proof (cases "valid_graph n s")
  case True
  have inv: "fw_inv E True n s s" using fresh_fw_inv [OF assms(1) True] assms(2,3) by simp
  have "fw_inv E True n s t \<Longrightarrow> layout_wf n t \<and> unat (g_inflight_count t) \<le> 32" for t
    by (simp add: fw_inv_def graph_wf_def inflight_wf_def)
  then show ?thesis
    unfolding rp1_loop_valid [OF assms(1) True] using scan_loop_ok [OF inv] by simp
next
  case False
  have "quiet E (\<lambda>_. True)" by (simp add: quiet_def)
  from rp1_loop_invalid [OF assms(1) False assms(2) this, of fuel] show ?thesis
    using assms(1) by (auto simp: idle_tables_def fresh_def elim!: ok_mono)
qed

lemma run_graph_ok:
  assumes "host_ok E" and "pdi_returns E"
  shows "ok (run_graph E fuel s) (\<lambda>(r, t). \<forall>v. r = Some v \<longrightarrow>
    rp1_state (ctrl t) = terminal_state v \<and> graph_done_seq (ctrl t) = graph_seq (ctrl s))"
proof -
  have pub [simp]: "rp1_state (ctrl (publish_result E q v u)) = terminal_state v"
      "graph_done_seq (ctrl (publish_result E q v u)) = q" for q v u
    by (simp_all add: publish_result_def Let_def upd_ctrl_def)
  have tail: "ok (case r of None \<Rightarrow> Some (None, u)
      | Some v \<Rightarrow> (if ready then run_trace E ev ni (word_of_int v) (graph_seq (ctrl s)) u else Some u) \<bind>
          (\<lambda>u. Some (Some v, publish_result E (graph_seq (ctrl s)) v u)))
      (\<lambda>(r, t). \<forall>v. r = Some v \<longrightarrow>
        rp1_state (ctrl t) = terminal_state v \<and> graph_done_seq (ctrl t) = graph_seq (ctrl s))"
    if "ready \<longrightarrow> (\<exists>n. layout_wf n u)" for r u ready ev ni
    using that pub by (auto split: option.split intro!: ok_mono [OF run_trace_ok])
  show ?thesis
    unfolding run_graph_def Let_def ok_bind
    apply (rule ok_mono [OF accept_graph_ok])
    apply (auto intro!: tail ok_mono [OF rp1_loop_ok] assms)
    done
qed

lemma run_loop_total:
  assumes "host_ok E" and "pdi_returns E"
  shows "ok (run_loop E fuel l s) (\<lambda>_. True)"
proof (induction fuel arbitrary: l s)
  case (Suc fuel)
  have body: "ok (case r of None \<Rightarrow> Some (None, t)
      | Some v \<Rightarrow> (let (stop, s) = done_hook E v t in
          if stop then Some (Some v, s) else run_loop E fuel v s)) (\<lambda>_. True)" for r t
    using Suc by (auto simp: split_beta split: option.split)
  then show ?case
    using Suc by (auto simp: split_beta intro!: ok_mono [OF run_graph_ok [OF assms]])
qed simp

text \<open>A terminal state is left by no graph: without a harness the loop only beats.\<close>

lemma terminal_beat [simp]: "terminal (beat s) = terminal s"
  by (simp add: terminal_def beat_def upd_ctrl_def)

lemma run_loop_terminal:
  "on_idle E = None \<Longrightarrow> terminal s \<Longrightarrow> run_loop E fuel l s = Some (None, (beat ^^ fuel) s)"
  by (induction fuel arbitrary: s) (auto simp: idle_hook_def funpow_swap1)

lemma run_loop_idle:
  "on_idle E = None \<Longrightarrow> \<not> terminal s \<Longrightarrow> graph_seq (ctrl s) = graph_done_seq (ctrl s) \<Longrightarrow>
   run_loop E fuel l s = Some (None, (beat ^^ fuel) s)"
proof (induction fuel arbitrary: s)
  case (Suc fuel)
  have "graph_seq (ctrl (beat s)) = graph_done_seq (ctrl (beat s))"
    using Suc.prems(3) by (simp add: beat_def upd_ctrl_def)
  then show ?case
    using Suc by (simp add: idle_hook_def funpow_swap1)
qed simp

section \<open>What a finished graph publishes\<close>

lemma publish_result_erred [simp]: "erred (publish_result E q v s) = erred s"
  by (simp add: publish_result_def Let_def erred_def upd_ctrl_def)

lemma run_trace_same: "run_trace E ev ni a0 a1 s = trace E ev ni a0 a1 s"
  by (simp add: run_trace_def trace_def)

lemma run_graph_erred:
  assumes "host_ok E" and "pdi_returns E" and "host_keeps_latch E"
    and "run_graph E fuel s = Some (Some (-1), t)"
  shows "erred t"
proof -
  obtain ready u where acc: "accept_graph E s = Some (ready, u)"
    using ok_exists [OF accept_graph_ok [of E s]] by auto
  have facts: "ready \<longrightarrow> fresh (unat (node_count (ctrl s))) u" "\<not> ready \<longrightarrow> erred u"
    using ok_result [OF accept_graph_ok acc] by (auto simp: erred_def)
  show ?thesis
  proof (cases ready)
    case True
    then obtain v where loop: "rp1_loop E fuel u = Some (Some (-1), v)"
      and tr: "\<exists>w. trace E RP1_TRACE_GRAPH_DONE 0xFFFF (word_of_int (-1)) (graph_seq (ctrl s)) v = Some w
        \<and> t = publish_result E (graph_seq (ctrl s)) (-1) w"
      using assms(4) acc
      by (auto simp: run_graph_def Let_def run_trace_same bind_eq_Some_conv split: option.splits)
    show ?thesis
      using rp1_loop_erred [OF _ assms(1-3) loop] facts True tr erred_trace by fastforce
  next
    case False
    then show ?thesis
      using assms(4) acc facts by (auto simp: run_graph_def)
  qed
qed

end
