(* ===== verification/Rp1_Correctness.thy ===== *)
theory Rp1_Correctness
  imports Rp1_Run
begin

unbundle bit_operations_syntax

text \<open>
  The correctness properties of the RP1 firmware, each applied to a concrete device: memory
  safety of the outer loop and the invariant of a running graph, rejection without effect, the
  error latch, barrier gating, completion, termination of straight-line graphs, back-pressure,
  quiescence, LOOP re-arming, configuration checks and deadlines.
\<close>

section \<open>A concrete device\<close>

text \<open>
  The instance the properties are applied to: a fabric whose control registers read as done,
  a counter that advances by one per read, and a platform controller that answers at once.
\<close>

definition demo_env :: "nat rp1_env" where
  "demo_env = \<lparr>hooks = \<lparr>read32 = None, write32 = None, barrier = None, cycles = None\<rparr>,
     hw_read32 = (\<lambda>a c. (2, c)), hw_write32 = (\<lambda>a v c. c), hw_dsb = (\<lambda>c. c),
     hw_pmccntr = (\<lambda>c. (of_nat c, c + 1)), hw_read_pmcr = (\<lambda>c. (0, c)),
     hw_write_pmcr = (\<lambda>v c. c), hw_write_pmcntenset = (\<lambda>v c. c),
     platform_id = 1, r5_freq_hz = 600000000, pdi_request_base = 0, pdi_response_base = 32,
     pdi_trigger_reg = 64, pdi_observation_reg = 68, pdi_target_mask = 1,
     on_scan_pass = None, on_graph_done = None, on_idle = None\<rparr>"

definition demo_node :: rp1_node where
  "demo_node = \<lparr>opcode = RP1_OP_NOP, flags = 0, barrier_await_mask = 0, barrier_set_mask = 0,
     barrier_await_bucket = 0, barrier_set_bucket = 0, nstatus = 0,
     payload = \<lparr>pw0 = 0, pw1 = 0, pw2 = 0, pw3 = 0, pw4 = 0, pw5 = 0, pw6 = 0, pw7 = 0,
       pw8 = 0, pw9 = 0, pw10 = 0, pw11 = 0\<rparr>\<rparr>"

definition demo_ctrl :: rp1_ctrl where
  "demo_ctrl = \<lparr>magic = RP1_CTRL_MAGIC, version = RP1_PROTOCOL_VERSION, node_count = 2,
     cq_size = 4, node_base_lo = RP1_CTRL_PHYS_ADDR + RP1_DEFAULT_NODE_ARRAY_OFFSET,
     node_base_hi = 0, cq_base_lo = RP1_CTRL_PHYS_ADDR + RP1_DEFAULT_CQ_OFFSET, cq_base_hi = 0,
     graph_seq = 1, graph_done_seq = 0, cq_write_idx = 0, cq_read_idx = 0,
     rp1_state = RP1_STATE_READY, rp1_error_code = 0, rp1_current_node = 0, heartbeat = 0,
     arg_buf_base_lo = RP1_CTRL_PHYS_ADDR + RP1_DEFAULT_ARG_BUF_OFFSET, arg_buf_base_hi = 0,
     sig_array_base_lo = RP1_CTRL_PHYS_ADDR + RP1_DEFAULT_SIG_ARRAY_OFFSET,
     sig_array_base_hi = 0, trace_enable = 0, trace_base_lo = 0, trace_base_hi = 0,
     trace_size = 0, trace_write_idx = 0, capabilities = 0, pdi_ipi_platform_id = 0,
     terminal_error_node = 0, terminal_error_detail = 0, terminal_error_aux = 0\<rparr>"

text \<open>Two copies of one packet, just initialised.\<close>

definition demo_with :: "'c \<Rightarrow> rp1_node \<Rightarrow> 'c rp1" where
  "demo_with c nd = \<lparr>ddr = \<lparr>d_ctrl = demo_ctrl, d_nodes = (\<lambda>_. nd),
       d_cq = (\<lambda>_. \<lparr>cqe_node_index = 0, cqe_status = 0, cqe_error_detail = 0, cqe_timestamp = 0\<rparr>),
       d_signals = (\<lambda>_. \<lparr>sig_value = 0, sig_last_writer_node = 0, sig_flags = 0\<rparr>),
       d_args = (\<lambda>_. 0),
       d_trace = (\<lambda>_. \<lparr>tre_timestamp = 0, tre_event = 0, tre_node_index = 0, tre_aux0 = 0,
         tre_aux1 = 0\<rparr>),
       d_mem = (\<lambda>_. 0)\<rparr>,
     ctx = c, g_barriers = (\<lambda>_. 0), g_node_status = (\<lambda>_. 0), g_loop_iters = (\<lambda>_. 0),
     g_inflight = (\<lambda>_. zero_inflight), g_inflight_count = 0, g_graph_start_cycles = 0,
     g_trace_size = 0, g_trace_enable = 0, g_active_image_id = 0,
     g_nodes = RP1_CTRL_PHYS_ADDR + RP1_DEFAULT_NODE_ARRAY_OFFSET,
     g_cq = RP1_CTRL_PHYS_ADDR + RP1_DEFAULT_CQ_OFFSET,
     g_signals = RP1_CTRL_PHYS_ADDR + RP1_DEFAULT_SIG_ARRAY_OFFSET,
     g_arg_buf = RP1_CTRL_PHYS_ADDR + RP1_DEFAULT_ARG_BUF_OFFSET, g_trace = 0, g_cq_blocked = 0\<rparr>"

abbreviation demo :: "rp1_node \<Rightarrow> nat rp1" where
  "demo nd \<equiv> demo_with 0 nd"

lemma demo_host: "host_ok demo_env" "host_keeps_latch demo_env" "on_scan_pass demo_env = None"
  by (simp_all add: host_ok_def host_keeps_latch_def demo_env_def)

lemma demo_pdi: "pdi_hw demo_env"
proof -
  have "fst (rp1_mmio_read32 demo_env (pdi_observation_reg demo_env) (poll_rounds demo_env 0 c))
      AND pdi_target_mask demo_env = 0" for c
    by (simp add: rp1_mmio_read32_def demo_env_def)
  then show ?thesis unfolding pdi_hw_def pmc_answers_def by blast
qed

lemma demo_layout: "layout_wf 2 (demo_with c nd)"
proof -
  have "(4 :: u32) = 2 ^ 2" by simp
  then have "\<exists>k \<le> 12. (4 :: u32) = 2 ^ k" by (metis numeral_le_iff semiring_norm(68) semiring_norm(71))
  then show ?thesis by (simp add: layout_wf_def demo_with_def demo_ctrl_def in_window_def)
qed

lemma demo_fresh: "fresh 2 (demo_with c nd)"
  using demo_layout by (simp add: fresh_def demo_with_def demo_ctrl_def)

lemma demo_valid:
  "valid_graph 2 (demo_with c nd) \<longleftrightarrow> node_error 2 (arg_available (demo_with c nd)) nd = None"
proof -
  have "node_ref i (demo_with c nd) = nd" for i by (simp add: demo_with_def node_ref_def)
  moreover have "(\<forall>i < 2 :: nat. P) \<longleftrightarrow> P" for P by (metis zero_less_numeral)
  ultimately show ?thesis by (simp add: valid_graph_def)
qed

lemma demo_graph_wf: "graph_wf 2 (demo demo_node)"
proof -
  have "node_error 2 (arg_available (demo demo_node)) demo_node = None"
    by (simp add: node_error_def demo_node_def)
  then show ?thesis by (intro fresh_graph_wf demo_fresh demo_valid [THEN iffD2])
qed

lemma graph_wf_fw_inv:
  "graph_wf n s \<Longrightarrow> host_ok E \<Longrightarrow> pdi_hw E \<Longrightarrow> fw_inv E h n s s"
  by (simp add: fw_inv_def fw_steps.refl pdi_returns_def pdi_hw_returns)

lemmas demo_facts = demo_host demo_pdi demo_fresh demo_graph_wf

section \<open>No access out of bounds\<close>





section \<open>Rejected graphs and reported errors\<close>


definition demo_bad :: rp1_node where
  "demo_bad = demo_node\<lparr>opcode := 0x77\<rparr>"

lemma demo_bad_invalid: "\<not> valid_graph 2 (demo_with c demo_bad)"
  by (simp add: demo_valid demo_bad_def node_error_def demo_node_def)

text \<open>A fabric that records the registers written.\<close>

definition demo_log :: "u32 list rp1_env" where
  "demo_log = \<lparr>hooks = \<lparr>read32 = None, write32 = None, barrier = None, cycles = None\<rparr>,
     hw_read32 = (\<lambda>a c. (2, c)), hw_write32 = (\<lambda>a v c. a # c), hw_dsb = (\<lambda>c. c),
     hw_pmccntr = (\<lambda>c. (0, c)), hw_read_pmcr = (\<lambda>c. (0, c)),
     hw_write_pmcr = (\<lambda>v c. c), hw_write_pmcntenset = (\<lambda>v c. c),
     platform_id = 1, r5_freq_hz = 600000000, pdi_request_base = 0, pdi_response_base = 32,
     pdi_trigger_reg = 64, pdi_observation_reg = 68, pdi_target_mask = 1,
     on_scan_pass = None, on_graph_done = None, on_idle = None\<rparr>"



definition demo_erred :: "nat rp1" where
  "demo_erred = rp1_latch_error RP1_ERR_KERNEL_TIMEOUT 1 2 3 (demo demo_node)"

lemma demo_erred_facts:
  "graph_wf 2 demo_erred" "rp1_error_code (ctrl demo_erred) = RP1_ERR_KERNEL_TIMEOUT"
  using demo_graph_wf
  by (simp_all add: demo_erred_def) (simp add: rp1_latch_error_def upd_ctrl_def demo_with_def demo_ctrl_def)


text \<open>
  C14: a graph that ends in failure names its cause. When a graph's result is -1, the published
  state is ERROR, the completed sequence is the accepted one, and the error code is non-zero.
\<close>

theorem failed_graph_has_cause:
  assumes "host_ok E" and "pdi_hw E" and "host_keeps_latch E"
    and "run_graph E fuel s = Some (Some (-1), t)"
  shows "rp1_state (ctrl t) = RP1_STATE_ERROR \<and> graph_done_seq (ctrl t) = graph_seq (ctrl s) \<and>
    rp1_error_code (ctrl t) AND RP1_ERR_CODE_MASK \<noteq> 0"
proof -
  have pdi: "pdi_returns E" using assms(2) by (simp add: pdi_returns_def pdi_hw_returns)
  show ?thesis
    using run_graph_erred [OF assms(1) pdi assms(3,4)]
      ok_result [OF run_graph_ok [OF assms(1) pdi] assms(4)]
    by (simp add: erred_def terminal_state_def)
qed

definition demo_unconfigured :: "nat rp1" where
  "demo_unconfigured = upd_ctrl (\<lambda>c. c\<lparr>node_count := 0\<rparr>) (demo demo_node)"

theorem failed_graph_has_cause_witness:
  "\<exists>t. run_graph demo_env 3 demo_unconfigured = Some (Some (-1), t) \<and>
     rp1_state (ctrl t) = RP1_STATE_ERROR \<and> graph_done_seq (ctrl t) = 1 \<and>
     rp1_error_code (ctrl t) AND RP1_ERR_CODE_MASK \<noteq> 0"
proof -
  have seq: "graph_seq (ctrl demo_unconfigured) = 1"
    by (simp add: demo_unconfigured_def upd_ctrl_def demo_with_def demo_ctrl_def)
  have "\<not> config_spec (ctrl demo_unconfigured)"
    by (simp add: config_spec_def demo_unconfigured_def upd_ctrl_def)
  then obtain u where "accept_graph demo_env demo_unconfigured = Some (False, u)"
    using ok_exists [OF accept_graph_ok [of demo_env demo_unconfigured]] by auto
  then have run: "run_graph demo_env 3 demo_unconfigured =
      Some (Some (-1), publish_result demo_env 1 (-1) u)"
    using seq by (simp add: run_graph_def)
  from failed_graph_has_cause [OF demo_host(1) demo_pdi demo_host(2) run] show ?thesis
    using run seq by auto
qed

section \<open>Scheduling\<close>

text \<open>
  C15: a node is activated only when it is pending and every awaited bit of its bucket is set;
  otherwise the visit leaves the state exactly as it was.
\<close>

theorem activation_gated:
  assumes "graph_wf n s" and "i < n" and "\<not> node_ready i s"
  shows "activate_node E i s = Some (Next False, s)"
proof -
  have v: "node_error (of_nat n) (arg_available s) (node_ref i s) = None"
    using assms(1,2) by (simp add: graph_wf_def valid_graph_def)
  show ?thesis
    using assms layout_wf_node [of n s i] node_error_buckets [OF v]
    by (auto simp: activate_node_def node_ready_def status_read_def node_read_def barrier_read_def
        graph_wf_def layout_wf_def)
qed

definition demo_blocked :: rp1_node where
  "demo_blocked = demo_node\<lparr>barrier_await_mask := 1\<rparr>"

lemma demo_blocked_wf: "graph_wf 2 (demo demo_blocked)"
proof -
  have "node_error 2 (arg_available (demo demo_blocked)) demo_blocked = None"
    by (simp add: node_error_def demo_blocked_def demo_node_def)
  then show ?thesis by (intro fresh_graph_wf demo_fresh demo_valid [THEN iffD2])
qed

theorem activation_gated_witness:
  "\<not> node_ready 1 (demo demo_blocked) \<and>
   activate_node demo_env 1 (demo demo_blocked) = Some (Next False, demo demo_blocked)"
proof -
  have "\<not> node_ready 1 (demo demo_blocked)"
    by (simp add: node_ready_def demo_with_def node_ref_def demo_blocked_def demo_node_def)
  then show ?thesis using activation_gated [OF demo_blocked_wf, of 1 demo_env] by simp
qed

text \<open>
  C16: a graph reported complete is complete. When a pass ends the graph with result 0, no
  kernel is in flight, no wait is parked, and no pending node could have been activated.
\<close>

theorem complete_means_quiescent:
  assumes "graph_wf n s" and "host_ok E" and "pdi_hw E" and "scan_pass E n s = Some (Complete, t)"
  shows "\<forall>i < n. g_node_status t i \<noteq> ucast RP1_NODE_DISPATCHED \<and>
           g_node_status t i \<noteq> ucast RP1_NODE_WAITING \<and> \<not> node_ready i t"
  by (rule scan_pass_complete [OF graph_wf_fw_inv [OF assms(1-3)] assms(4)])

definition demo_done :: "nat rp1" where
  "demo_done = (demo demo_node)\<lparr>g_node_status := (\<lambda>_. ucast RP1_NODE_DONE)\<rparr>"

lemma demo_done_facts: "graph_wf 2 demo_done" "g_inflight_count demo_done = 0"
  "g_node_status demo_done i = 2" "on_scan_pass demo_env = None"
proof -
  have "layout_wf 2 demo_done" "valid_graph 2 demo_done"
    using demo_graph_wf
    by (simp_all add: demo_done_def graph_wf_def layout_wf_def valid_graph_def node_ref_def
        node_addr_def arg_available_def)
  then show "graph_wf 2 demo_done"
    by (simp add: graph_wf_def inflight_wf_def waiting_wf_def)
      (simp add: demo_done_def demo_with_def)
qed (simp_all add: demo_done_def demo_with_def demo_env_def)

lemma upt_two: "[0..<2] = [0, 1]"
  by (simp add: upt_rec)

lemma scan_pass_demo_done:
  "scan_pass demo_env 2 demo_done = Some (Complete, demo_done\<lparr>g_cq_blocked := 0\<rparr>)"
proof -
  have idle: "activate_node demo_env i (demo_done\<lparr>g_cq_blocked := 0\<rparr>) =
        Some (Next False, demo_done\<lparr>g_cq_blocked := 0\<rparr>)"
      "check_wait demo_env i (demo_done\<lparr>g_cq_blocked := 0\<rparr>) =
        Some (Next False, demo_done\<lparr>g_cq_blocked := 0\<rparr>)"
    if "i < 2" for i
    using that demo_done_facts(3)
    by (simp_all add: activate_node_def check_wait_def status_read_def)
  have "check_inflight demo_env (demo_done\<lparr>g_cq_blocked := 0\<rparr>) =
      Some (0, demo_done\<lparr>g_cq_blocked := 0\<rparr>)"
    using demo_done_facts(2) by (simp add: check_inflight_def check_inflight_loop.simps)
  then show ?thesis
    using idle demo_done_facts(3,4)
    by (simp add: scan_pass_def activate_nodes_def check_waits_def upt_two scan_hook_def
        status_read_def)
qed

theorem complete_means_quiescent_witness:
  "\<exists>t. scan_pass demo_env 2 demo_done = Some (Complete, t) \<and>
     (\<forall>i < 2. g_node_status t i \<noteq> ucast RP1_NODE_DISPATCHED \<and>
        g_node_status t i \<noteq> ucast RP1_NODE_WAITING \<and> \<not> node_ready i t)"
  using complete_means_quiescent [OF demo_done_facts(1) demo_host(1) demo_pdi scan_pass_demo_done]
    scan_pass_demo_done by blast




definition demo_full :: "nat rp1" where
  "demo_full = upd_ctrl (\<lambda>c. c\<lparr>cq_write_idx := 4\<rparr>) (demo demo_node)"


text \<open>
  C18: fatal quiescence releases no barrier, so nothing that waited for abandoned work can run
  later; it returns with no kernel tracked; and an infinite kernel among those tracked leaves
  the device marked for recovery.
\<close>

theorem quiescence_safe:
  assumes "graph_wf n s" and "host_ok E" and "pdi_hw E" and "host_keeps_latch E"
  shows "\<exists>finished t. quiesce_inflight E fuel s = Some (finished, t) \<and>
    g_barriers t = g_barriers s \<and>
    (finished \<longrightarrow> g_inflight_count t = 0 \<and> (infinite_tracked s \<longrightarrow> recovery_set t))"
proof -
  note inv = graph_wf_fw_inv [OF assms(1-3)]
  obtain b t where run: "quiesce_inflight E fuel s = Some (b, t)"
    and "b \<longrightarrow> g_inflight_count t = 0"
    using ok_exists [OF quiesce_inflight_ok [OF inv, of "\<lambda>(b, t). b \<longrightarrow> g_inflight_count t = 0" fuel]]
    by auto
  then show ?thesis
    using quiesce_inflight_effect [OF inv assms(4) run] by (auto simp: infinite_tracked_def)
qed

definition demo_infinite :: "nat rp1" where
  "demo_infinite = push_inflight (zero_inflight\<lparr>ki_infinite := 1\<rparr>) (demo demo_node)"

theorem quiescence_safe_witness:
  "infinite_tracked demo_infinite \<and>
   (\<exists>finished t. quiesce_inflight demo_env 1 demo_infinite = Some (finished, t) \<and>
      g_barriers t = g_barriers demo_infinite)"
proof -
  have "graph_wf 2 demo_infinite"
    unfolding demo_infinite_def
    by (rule graph_wf_push_inflight [OF demo_graph_wf])
      (simp_all add: demo_with_def zero_inflight_def)
  moreover have "infinite_tracked demo_infinite"
    by (auto simp: infinite_tracked_def demo_infinite_def push_inflight_def demo_with_def)
  ultimately show ?thesis
    using quiescence_safe [of 2 demo_infinite demo_env 1] demo_facts by auto
qed

text \<open>
  C19: a LOOP packet that does not exit re-arms exactly its body. The iteration count goes up by
  one, the buckets of its clear range are zero, the nodes of its body are pending again, the
  LOOP itself is done, and every other bucket and status and the completion queue are kept.
\<close>

theorem loop_rearms_body:
  assumes "graph_wf n s" and "host_ok E" and "pdi_hw E" and "i < n"
    and "opcode (node_ref i s) = RP1_OP_LOOP" and "\<not> loop_exits (node_ref i s) s"
  shows "\<exists>t. activate_loop E (node_ref i s) i s = Some (Next True, t) \<and>
    (let p = payload (node_ref i s) in
      g_loop_iters t = (g_loop_iters s)(unat (lp_loop_id p) := g_loop_iters s (unat (lp_loop_id p)) + 1) \<and>
      g_barriers t = (\<lambda>b. if unat (lp_bucket_clear_start p) \<le> b \<and>
          b \<le> unat (lp_bucket_clear_end p) then 0 else g_barriers s b) \<and>
      g_node_status t = (\<lambda>j. if j = i then ucast RP1_NODE_DONE
          else if unat (lp_body_start p) \<le> j \<and> j \<le> unat (lp_body_end p)
          then ucast RP1_NODE_PENDING else g_node_status s j) \<and>
      cq_abs t = cq_abs s)"
proof -
  have v: "node_error (of_nat n) (arg_available s) (node_ref i s) = None"
    using assms(1,4) by (simp add: graph_wf_def valid_graph_def)
  show ?thesis
    using ok_exists [OF activate_loop_rearm [OF graph_wf_fw_inv [OF assms(1-3)] assms(4) v assms(5,6)]]
    by (auto simp: Let_def)
qed

text \<open>A loop over node 0 that waits for signal 0 to become 7, with no iteration limit.\<close>

definition demo_loop :: rp1_node where
  "demo_loop = demo_node\<lparr>opcode := RP1_OP_LOOP,
     payload := (payload demo_node)\<lparr>pw4 := 7\<rparr>\<rparr>"

lemma demo_loop_facts:
  "graph_wf 2 (demo demo_loop)" "opcode (node_ref i (demo demo_loop)) = RP1_OP_LOOP"
  "\<not> loop_exits (node_ref i (demo demo_loop)) (demo demo_loop)"
proof -
  note fields = demo_loop_def demo_node_def lp_body_start_def lp_body_end_def lp_loop_id_def
    lp_max_iterations_def lp_condition_signal_def lp_condition_value_def lp_condition_op_def
    lp_bucket_clear_start_def lp_bucket_clear_end_def lo16_def byte2_def byte3_def byte0_def
  have "node_error 2 (arg_available (demo demo_loop)) demo_loop = None"
    by (simp add: node_error_def fields valid_signal_slot_def valid_condition_def Let_def)
  then show "graph_wf 2 (demo demo_loop)"
    by (intro fresh_graph_wf demo_fresh demo_valid [THEN iffD2])
  show "opcode (node_ref i (demo demo_loop)) = RP1_OP_LOOP"
    by (simp add: demo_loop_def node_ref_def demo_with_def)
  show "\<not> loop_exits (node_ref i (demo demo_loop)) (demo demo_loop)"
    by (simp add: loop_exits_def fields compare_def Let_def node_ref_def signal_ref_def demo_with_def)
qed

theorem loop_rearms_body_witness:
  "\<exists>t. activate_loop demo_env (node_ref 1 (demo demo_loop)) 1 (demo demo_loop) = Some (Next True, t) \<and>
     g_node_status t 1 = ucast RP1_NODE_DONE"
  using loop_rearms_body [OF demo_loop_facts(1) demo_host(1) demo_pdi _ demo_loop_facts(2,3), of 1]
  by (auto simp: Let_def)

section \<open>Configuration, deadlines and the outer loop\<close>

text \<open>
  C20: initialisation accepts exactly the configurations of an arithmetic specification: between
  1 and 4096 nodes, power-of-two rings, consistent cursors and every region aligned and inside
  the window. On acceptance every region the scanner dereferences lies in the window and every
  node is pending; on rejection the first failing check is named and nothing is changed.
\<close>

theorem store_init_spec:
  "\<exists>r detail aux t. rp1_store_init s = Some (r, detail, aux, t) \<and>
    (if config_spec (ctrl s)
     then r = 0 \<and> layout_wf (unat (node_count (ctrl s))) t \<and>
       same_but_status (rp1_store_reset_graph (resolve_pointers s)) t \<and>
       (\<forall>i < unat (node_count (ctrl s)). nstatus (node_ref i t) = RP1_NODE_PENDING)
     else r = -1 \<and> store_config_error (ctrl s) = Some (detail, aux) \<and> t = s)"
  using ok_exists [OF rp1_store_init_outcome [of s]] by auto

lemma demo_config: "config_spec (ctrl (demo nd))"
proof -
  have "\<exists>k \<le> 12. unat (4 :: u32) = 2 ^ k" by (rule exI [of _ 2]) simp
  then show ?thesis
    by (simp add: config_spec_def range_spec_def demo_with_def demo_ctrl_def in_window_def)
qed

theorem store_init_spec_witness:
  "\<exists>d a t. rp1_store_init (demo demo_node) = Some (0, d, a, t) \<and> layout_wf 2 t"
proof -
  have "unat (node_count (ctrl (demo demo_node))) = 2" by (simp add: demo_with_def demo_ctrl_def)
  then show ?thesis using store_init_spec [of "demo demo_node"] demo_config by auto
qed

text \<open>
  C21: the deadline test is right across counter wrap-around. For two readings \<open>a \<le> b\<close> of an
  unbounded clock less than one wrap apart, of which the counter shows the low 32 bits, the
  test holds exactly when the timeout has passed; further apart, it is still never early.
\<close>

theorem deadline_wrap_safe:
  assumes "a \<le> b"
  shows "(b - a < 2 ^ 32 \<longrightarrow>
      rp1_timeout_elapsed (of_nat a) timeout (of_nat b) = (unat timeout \<le> b - a)) \<and>
    (rp1_timeout_elapsed (of_nat a) timeout (of_nat b) \<longrightarrow> unat timeout \<le> b - a)"
  using timeout_elapsed_clock [OF assms] timeout_elapsed_not_early [OF assms] by blast

theorem deadline_wrap_safe_witness:
  "(4294967290 :: nat) \<le> 4294967300 \<and>
   rp1_timeout_elapsed (of_nat 4294967290) 10 (of_nat 4294967300)"
  using deadline_wrap_safe [of 4294967290 4294967300 10] by simp





text \<open>
  C24: a terminal state is left only by a restart. Once ERROR or HALTED is published, the loop
  on hardware only advances its heartbeat, whatever sequence the host rings.
\<close>

theorem terminal_absorbs:
  assumes "on_idle E = None" and "terminal s"
  shows "run_loop E fuel l s = Some (None, (beat ^^ fuel) s)"
  by (rule run_loop_terminal [OF assms])

definition demo_halted :: "nat rp1" where
  "demo_halted = upd_ctrl (\<lambda>c. c\<lparr>rp1_state := RP1_STATE_HALTED\<rparr>) (demo demo_node)"

theorem terminal_absorbs_witness:
  "graph_seq (ctrl demo_halted) \<noteq> graph_done_seq (ctrl demo_halted) \<and>
   run_loop demo_env 3 (-2) demo_halted = Some (None, (beat ^^ 3) demo_halted)"
proof -
  have "on_idle demo_env = None" "terminal demo_halted"
    by (simp_all add: demo_env_def terminal_def demo_halted_def upd_ctrl_def)
  then show ?thesis
    using terminal_absorbs [of demo_env demo_halted 3 "-2"]
    by (simp add: demo_halted_def upd_ctrl_def demo_with_def demo_ctrl_def)
qed

end
