(* ===== verification/Buddy_Allocator.thy ===== *)
theory Buddy_Allocator
  imports Slash_Prelude
begin

unbundle bit_operations_syntax

text \<open>
  The buddy superblocks of the VRT allocator: \<open>UntypedBuffer\<close> and \<open>BuddySuperblockBase\<close> of
  \<^verbatim>\<open>vrt/include/vrt/allocator/allocator.hpp\<close> and \<^verbatim>\<open>vrt/src/allocator/allocator.cpp\<close>.

  The template parameters are arguments \<open>lo\<close> (\<open>MIN_K\<close>) and \<open>hi\<close> (\<open>MAX_K\<close>). A vector is a list whose
  back is its last element; the array of free lists is a function on bucket indices. An
  exception is the left side of a sum. Sizes and offsets are 64-bit words.

  Shown here: the live and the free blocks always tile the superblock; an allocation is
  aligned, large enough and disjoint from every live block; it fails only when no free block
  is large enough; freeing coalesces completely, so the superblock counts as free exactly
  when nothing is live.
\<close>

section \<open>Buffers\<close>

datatype BufferAllocType = Ddr | Hbm | HbmVnoc

datatype BufferAllocDir = Bidirectional | HostToDevice | DeviceToHost

text \<open>What the allocator reads of a \<open>vrtd::Buffer\<close>.\<close>

record vrtd_buffer =
  vb_id :: nat
  vb_type :: BufferAllocType
  vb_dir :: BufferAllocDir
  vb_arg :: u64
  vb_phys :: u64
  vb_size :: u64

record UntypedBuffer =
  backingBuffer :: vrtd_buffer
  ub_size :: u64
  ub_offset :: u64

datatype alloc_error = bad_alloc | runtime_error | out_of_range

definition whole_buffer :: "vrtd_buffer \<Rightarrow> u64 \<Rightarrow> u64 \<Rightarrow> UntypedBuffer" where
  "whole_buffer b sz off =
     \<lparr>backingBuffer = b, ub_size = (if sz = 0xFFFFFFFFFFFFFFFF then vb_size b else sz),
      ub_offset = off\<rparr>"

definition slice_buffer :: "UntypedBuffer \<Rightarrow> u64 \<Rightarrow> u64 \<Rightarrow> UntypedBuffer" where
  "slice_buffer parent sz off =
     \<lparr>backingBuffer = backingBuffer parent,
      ub_size = (if sz = 0xFFFFFFFFFFFFFFFF then ub_size parent else sz),
      ub_offset = ub_offset parent + off\<rparr>"

definition getHBMRegion :: "UntypedBuffer \<Rightarrow> u64" where
  "getHBMRegion b =
     (if vb_type (backingBuffer b) \<noteq> Hbm then 0xFFFFFFFFFFFFFFFF else vb_arg (backingBuffer b))"

definition getPhysAddr :: "UntypedBuffer \<Rightarrow> u64" where
  "getPhysAddr b = vb_phys (backingBuffer b) + ub_offset b"

text \<open>The range a synchronisation forwards to the backing buffer, as (offset, size).\<close>

definition sync_range :: "u64 \<Rightarrow> u64 \<Rightarrow> UntypedBuffer \<Rightarrow> alloc_error + (u64 \<times> u64)" where
  "sync_range off sz b =
     (let syncSize = (if sz = 0xFFFFFFFFFFFFFFFF then ub_size b - off else sz) in
      if off + syncSize > ub_size b then Inl out_of_range
      else Inr (ub_offset b + off, syncSize))"

definition matchesAllocation ::
  "UntypedBuffer \<Rightarrow> BufferAllocType \<Rightarrow> BufferAllocDir \<Rightarrow> u64 \<Rightarrow> bool" where
  "matchesAllocation b ty dir region =
     (if vb_type (backingBuffer b) \<noteq> ty \<or> vb_dir (backingBuffer b) \<noteq> dir then False
      else if ty = Hbm then getHBMRegion b = region
      else True)"

section \<open>Buddy superblocks\<close>

type_synonym free_lists = "nat \<Rightarrow> UntypedBuffer list"

definition kNumBuckets :: "nat \<Rightarrow> nat \<Rightarrow> nat" where
  "kNumBuckets lo hi = hi - lo + 1"

text \<open>\<open>64 - __builtin_clzll(n)\<close> for \<open>n\<close> other than zero.\<close>

fun bit_length :: "nat \<Rightarrow> nat" where
  "bit_length n = (if n = 0 then 0 else Suc (bit_length (n div 2)))"

declare bit_length.simps [simp del]

definition sizeToIndex :: "nat \<Rightarrow> u64 \<Rightarrow> nat" where
  "sizeToIndex lo sz = (if sz \<le> 2 ^ lo then 0 else bit_length (unat (sz - 1)) - lo)"

definition buddy_seed :: "nat \<Rightarrow> nat \<Rightarrow> UntypedBuffer \<Rightarrow> free_lists \<Rightarrow> alloc_error + free_lists" where
  "buddy_seed lo hi whole fl =
     (let index = sizeToIndex lo (ub_size whole) in
      if index \<ge> kNumBuckets lo hi then Inl runtime_error
      else Inr (fl(index := fl index @ [whole])))"

text \<open>Split the buffer down from bucket \<open>i\<close> to bucket \<open>index\<close>, freeing the upper halves.\<close>

fun buddy_split ::
  "nat \<Rightarrow> nat \<Rightarrow> nat \<Rightarrow> UntypedBuffer \<Rightarrow> free_lists \<Rightarrow> UntypedBuffer \<times> free_lists" where
  "buddy_split lo index 0 b fl = (b, fl)"
| "buddy_split lo index (Suc i) b fl =
     (if Suc i > index then
        (let halfSize = 2 ^ (lo + i);
             fl = fl(i := fl i @ [slice_buffer b halfSize halfSize])
         in buddy_split lo index i (slice_buffer b halfSize 0) fl)
      else (b, fl))"

text \<open>The scan over the buckets from \<open>index\<close> up.\<close>

fun buddy_take ::
  "nat \<Rightarrow> nat \<Rightarrow> nat list \<Rightarrow> free_lists \<Rightarrow> alloc_error + (UntypedBuffer \<times> free_lists)" where
  "buddy_take lo index [] fl = Inl bad_alloc"
| "buddy_take lo index (i # is) fl =
     (if fl i = [] then buddy_take lo index is fl
      else Inr (buddy_split lo index i (last (fl i)) (fl(i := butlast (fl i)))))"

definition buddy_allocate ::
  "nat \<Rightarrow> nat \<Rightarrow> u64 \<Rightarrow> free_lists \<Rightarrow> alloc_error + (UntypedBuffer \<times> free_lists)" where
  "buddy_allocate lo hi sz fl =
     (let index = sizeToIndex lo sz in
      if index \<ge> kNumBuckets lo hi then Inl bad_alloc
      else buddy_take lo index [index..<kNumBuckets lo hi] fl)"

text \<open>The first position of a bucket whose block lies at the given offset.\<close>

fun find_buddy :: "u64 \<Rightarrow> u64 \<Rightarrow> UntypedBuffer list \<Rightarrow> nat option" where
  "find_buddy base off [] = None"
| "find_buddy base off (b # bs) =
     (if getPhysAddr b - base = off then Some 0 else map_option Suc (find_buddy base off bs))"

definition swap_pop :: "nat \<Rightarrow> 'a list \<Rightarrow> 'a list" where
  "swap_pop j xs = butlast (if j + 1 \<noteq> length xs then xs[j := last xs] else xs)"

text \<open>The coalescing loop; \<open>m\<close> is the number of buckets above \<open>i\<close>.\<close>

fun buddy_coalesce ::
  "u64 \<Rightarrow> nat \<Rightarrow> nat \<Rightarrow> u64 \<Rightarrow> u64 \<Rightarrow> free_lists \<Rightarrow> nat \<times> u64 \<times> u64 \<times> free_lists" where
  "buddy_coalesce base 0 i sz off fl = (i, sz, off, fl)"
| "buddy_coalesce base (Suc m) i sz off fl =
     (let buddyOffset = off XOR sz in
      case find_buddy base buddyOffset (fl i) of
        None \<Rightarrow> (i, sz, off, fl)
      | Some j \<Rightarrow>
          buddy_coalesce base m (Suc i) (push_bit 1 sz) (min off buddyOffset)
            (fl(i := swap_pop j (fl i))))"

definition buddy_deallocate ::
  "nat \<Rightarrow> nat \<Rightarrow> UntypedBuffer \<Rightarrow> UntypedBuffer \<Rightarrow> free_lists \<Rightarrow> alloc_error + free_lists" where
  "buddy_deallocate lo hi whole b fl =
     (let index = sizeToIndex lo (ub_size b) in
      if index \<ge> kNumBuckets lo hi then Inl runtime_error
      else let base = getPhysAddr whole;
               off = getPhysAddr b - base
           in
        if off + ub_size b > ub_size whole then Inl runtime_error
        else let (i, sz, off, fl) =
                   buddy_coalesce base (kNumBuckets lo hi - 1 - index) index (ub_size b) off fl
             in Inr (fl(i := fl i @ [slice_buffer whole sz off])))"

definition buddy_isFree :: "nat \<Rightarrow> UntypedBuffer \<Rightarrow> free_lists \<Rightarrow> bool" where
  "buddy_isFree lo whole fl \<longleftrightarrow> length (fl (sizeToIndex lo (ub_size whole))) = 1"

section \<open>Dyadic tilings\<close>

text \<open>
  A block \<open>(i, q)\<close> covers the units \<open>x\<close> of the smallest block size with \<open>x div 2 ^ i = q\<close>. The
  free and the live blocks of a superblock of \<open>2 ^ n\<close> units tile it, and no two free blocks are
  buddies.
\<close>

type_synonym dyadic = "nat \<times> nat"

definition covers :: "nat \<Rightarrow> dyadic \<Rightarrow> bool" where
  "covers x b \<longleftrightarrow> x div 2 ^ fst b = snd b"

definition buddy_of :: "nat \<Rightarrow> nat" where
  "buddy_of q = (if even q then q + 1 else q - 1)"

definition tiling :: "nat \<Rightarrow> dyadic set \<Rightarrow> bool" where
  "tiling n U \<longleftrightarrow>
     (\<forall>b\<in>U. fst b \<le> n \<and> snd b < 2 ^ (n - fst b)) \<and>
     (\<forall>x b b'. b \<in> U \<longrightarrow> b' \<in> U \<longrightarrow> covers x b \<longrightarrow> covers x b' \<longrightarrow> b = b') \<and>
     (\<forall>x<2 ^ n. \<exists>b\<in>U. covers x b)"

definition merged :: "nat \<Rightarrow> dyadic set \<Rightarrow> bool" where
  "merged n F \<longleftrightarrow> (\<forall>i q. (i, q) \<in> F \<longrightarrow> i < n \<longrightarrow> (i, buddy_of q) \<notin> F)"

definition buddy_wf :: "nat \<Rightarrow> dyadic set \<Rightarrow> dyadic set \<Rightarrow> bool" where
  "buddy_wf n F L \<longleftrightarrow> F \<inter> L = {} \<and> tiling n (F \<union> L) \<and> merged n F"

lemma covers_Suc: "covers x (Suc i, q) \<longleftrightarrow> covers x (i, 2 * q) \<or> covers x (i, Suc (2 * q))"
proof -
  have "x div 2 ^ Suc i = x div 2 ^ i div 2"
    by (simp only: power_Suc2 div_mult2_eq)
  moreover have "y div 2 = q \<longleftrightarrow> y = 2 * q \<or> y = Suc (2 * q)" for y :: nat
    by presburger
  ultimately show ?thesis by (simp add: covers_def)
qed

lemma covers_self: "covers (q * 2 ^ i) (i, q)"
  by (simp add: covers_def)

lemma covers_up:
  assumes "covers x (i, q)" and "i \<le> j"
  shows "covers x (j, q div 2 ^ (j - i))"
proof -
  have "(2::nat) ^ j = 2 ^ i * 2 ^ (j - i)"
    using assms(2) by (simp add: power_add [symmetric])
  then have "x div 2 ^ j = x div 2 ^ i div 2 ^ (j - i)"
    by (simp only: div_mult2_eq)
  then show ?thesis using assms(1) by (simp only: covers_def fst_conv snd_conv)
qed

lemma covers_within:
  assumes "covers x (i, q)" and "covers x (j, r)" and "i \<le> j" and "covers y (i, q)"
  shows "covers y (j, r)"
  using covers_up [OF assms(1,3)] covers_up [OF assms(4,3)] assms(2)
  by (simp only: covers_def fst_conv snd_conv)

lemma buddy_of_cases:
  obtains p where "q = 2 * p" "buddy_of q = Suc (2 * p)"
  | p where "q = Suc (2 * p)" "buddy_of q = 2 * p"
  by (cases "even q") (auto simp: buddy_of_def elim!: evenE oddE)

lemma buddy_of_invol [simp]: "buddy_of (buddy_of q) = q"
  by (rule buddy_of_cases [of q]) (auto simp: buddy_of_def)

lemma buddy_of_neq [simp]: "buddy_of q \<noteq> q"
  by (rule buddy_of_cases [of q]) auto

lemma buddy_of_div [simp]: "buddy_of q div 2 = q div 2"
  by (rule buddy_of_cases [of q]) auto

lemma covers_parent: "covers x (Suc i, q div 2) \<longleftrightarrow> covers x (i, q) \<or> covers x (i, buddy_of q)"
  by (rule buddy_of_cases [of q]) (auto simp: covers_Suc)

lemma covers_fun: "covers x (i, q) \<Longrightarrow> covers x (i, r) \<Longrightarrow> q = r"
  by (simp add: covers_def)

text \<open>Replacing a block by its halves, and two halves by their parent.\<close>

lemma tiling_bound: "tiling n U \<Longrightarrow> b \<in> U \<Longrightarrow> fst b \<le> n \<and> snd b < 2 ^ (n - fst b)"
  by (simp add: tiling_def)

lemma tiling_unique:
  "tiling n U \<Longrightarrow> b \<in> U \<Longrightarrow> b' \<in> U \<Longrightarrow> covers x b \<Longrightarrow> covers x b' \<Longrightarrow> b = b'"
  unfolding tiling_def by blast

lemma tiling_cover: "tiling n U \<Longrightarrow> x < 2 ^ n \<Longrightarrow> \<exists>b\<in>U. covers x b"
  by (simp add: tiling_def)

lemma tilingI:
  assumes "\<And>b. b \<in> U \<Longrightarrow> fst b \<le> n \<and> snd b < 2 ^ (n - fst b)"
    and "\<And>x b b'. b \<in> U \<Longrightarrow> b' \<in> U \<Longrightarrow> covers x b \<Longrightarrow> covers x b' \<Longrightarrow> b = b'"
    and "\<And>x. x < 2 ^ n \<Longrightarrow> \<exists>b\<in>U. covers x b"
  shows "tiling n U"
  unfolding tiling_def using assms by blast

lemma pow2_half: "i < n \<Longrightarrow> (2::nat) ^ (n - i) = 2 * 2 ^ (n - Suc i)"
  by (metis Suc_diff_Suc power_Suc)

text \<open>Exchanging the blocks \<open>A\<close> for blocks \<open>B\<close> that cover the same units.\<close>

lemma tiling_exchange:
  assumes T: "tiling n (A \<union> U)" and AU: "A \<inter> U = {}"
    and same: "\<And>x. (\<exists>b\<in>A. covers x b) \<longleftrightarrow> (\<exists>b\<in>B. covers x b)"
    and uniq: "\<And>x b b'. b \<in> B \<Longrightarrow> b' \<in> B \<Longrightarrow> covers x b \<Longrightarrow> covers x b' \<Longrightarrow> b = b'"
    and bound: "\<And>b. b \<in> B \<Longrightarrow> fst b \<le> n \<and> snd b < 2 ^ (n - fst b)"
  shows "tiling n (B \<union> U)" and "B \<inter> U = {}"
proof -
  have dis: False if bc: "b \<in> U" "c \<in> B" "covers x b" "covers x c" for x b c
  proof -
    obtain a where "a \<in> A" "covers x a" using same [of x] bc(2,4) by blast
    then have "a = b" using tiling_unique [OF T, of a b x] bc by blast
    then show False using AU \<open>a \<in> A\<close> bc(1) by blast
  qed
  show "tiling n (B \<union> U)"
  proof (rule tilingI)
    fix x b b' assume "b \<in> B \<union> U" "b' \<in> B \<union> U" "covers x b" "covers x b'"
    then show "b = b'"
      using dis [of b b' x] dis [of b' b x] uniq [of b b' x] tiling_unique [OF T, of b b' x]
      by blast
  next
    fix x :: nat assume "x < 2 ^ n"
    then obtain b where "b \<in> A \<union> U" "covers x b" using tiling_cover [OF T] by blast
    then show "\<exists>b\<in>B \<union> U. covers x b" using same [of x] by blast
  qed (use bound tiling_bound [OF T] in blast)
  show "B \<inter> U = {}"
  proof (rule equals0I)
    fix b assume "b \<in> B \<inter> U"
    then show False using dis [of b b "snd b * 2 ^ fst b"] covers_self [of "snd b" "fst b"] by simp
  qed
qed

lemma tiling_split:
  assumes T: "tiling n (insert (Suc i, q) U)" and nin: "(Suc i, q) \<notin> U"
  shows "tiling n (insert (i, 2 * q) (insert (i, Suc (2 * q)) U))"
    and "(i, 2 * q) \<notin> U" and "(i, Suc (2 * q)) \<notin> U"
proof -
  let ?A = "{(Suc i, q)}" and ?B = "{(i, 2 * q), (i, Suc (2 * q))}"
  have b: "Suc i \<le> n" "q < 2 ^ (n - Suc i)" using tiling_bound [OF T, of "(Suc i, q)"] by auto
  have A: "tiling n (?A \<union> U)" "?A \<inter> U = {}" using T nin by auto
  have same: "(\<exists>b\<in>?A. covers x b) \<longleftrightarrow> (\<exists>b\<in>?B. covers x b)" for x
    by (simp add: covers_Suc)
  have uniq: "b = b'" if "b \<in> ?B" "b' \<in> ?B" "covers x b" "covers x b'" for x b b'
    using that by (auto dest: covers_fun)
  have bound: "fst b \<le> n \<and> snd b < 2 ^ (n - fst b)" if "b \<in> ?B" for b
    using that b pow2_half [of i n] by auto
  note E = tiling_exchange [OF A same uniq bound]
  show "tiling n (insert (i, 2 * q) (insert (i, Suc (2 * q)) U))" using E(1) by simp
  show "(i, 2 * q) \<notin> U" and "(i, Suc (2 * q)) \<notin> U" using E(2) by auto
qed

lemma tiling_join:
  assumes T: "tiling n (insert (i, q) (insert (i, buddy_of q) U))" and "i < n"
    and nin: "(i, q) \<notin> U" "(i, buddy_of q) \<notin> U"
  shows "tiling n (insert (Suc i, q div 2) U)" and "(Suc i, q div 2) \<notin> U"
proof -
  let ?A = "{(i, q), (i, buddy_of q)}" and ?B = "{(Suc i, q div 2)}"
  have b: "q < 2 ^ (n - i)" using tiling_bound [OF T, of "(i, q)"] by auto
  have A: "tiling n (?A \<union> U)" "?A \<inter> U = {}" using T nin by auto
  have same: "(\<exists>b\<in>?A. covers x b) \<longleftrightarrow> (\<exists>b\<in>?B. covers x b)" for x
    by (simp add: covers_parent)
  have uniq: "b = b'" if "b \<in> ?B" "b' \<in> ?B" "covers x b" "covers x b'" for x b b'
    using that by simp
  have bound: "fst b \<le> n \<and> snd b < 2 ^ (n - fst b)" if "b \<in> ?B" for b
    using that b pow2_half [of i n] \<open>i < n\<close> by auto
  note E = tiling_exchange [OF A same uniq bound]
  show "tiling n (insert (Suc i, q div 2) U)" using E(1) by simp
  show "(Suc i, q div 2) \<notin> U" using E(2) by auto
qed

section \<open>The buddy discipline\<close>

lemma buddy_wf_init: "buddy_wf n {(n, 0)} {}"
proof -
  have "tiling n {(n, 0)}"
    by (rule tilingI) (auto simp: covers_def)
  then show ?thesis by (simp add: buddy_wf_def merged_def)
qed

lemma buddy_wf_take:
  assumes "buddy_wf n (insert b F) L" and "b \<notin> F"
  shows "buddy_wf n F (insert b L)" and "b \<notin> L"
  using assms by (auto simp: buddy_wf_def merged_def)

lemma buddy_wf_split:
  assumes W: "buddy_wf n F (insert (Suc i, q) L)" and nin: "(Suc i, q) \<notin> L"
  shows "buddy_wf n (insert (i, Suc (2 * q)) F) (insert (i, 2 * q) L)"
    and "(i, 2 * q) \<notin> L" and "(i, Suc (2 * q)) \<notin> F"
proof -
  have T: "tiling n (insert (Suc i, q) (F \<union> L))" and D: "F \<inter> insert (Suc i, q) L = {}"
    and M: "merged n F"
    using W by (auto simp: buddy_wf_def)
  note S = tiling_split [OF T] 
  have nin': "(Suc i, q) \<notin> F \<union> L" using nin D by auto
  show "(i, 2 * q) \<notin> L" and "(i, Suc (2 * q)) \<notin> F" using S(2,3) [OF nin'] by auto
  have "buddy_of (Suc (2 * q)) = 2 * q" by (simp add: buddy_of_def)
  then have "merged n (insert (i, Suc (2 * q)) F)"
    using M S(2,3) [OF nin'] unfolding merged_def
    by (metis Pair_inject Un_iff buddy_of_invol buddy_of_neq insert_iff)
  then show "buddy_wf n (insert (i, Suc (2 * q)) F) (insert (i, 2 * q) L)"
    using S [OF nin'] D nin by (auto simp: buddy_wf_def)
qed

lemma buddy_wf_merge:
  assumes W: "buddy_wf n (insert (i, buddy_of q) F) (insert (i, q) L)"
    and nin: "(i, q) \<notin> L" "(i, buddy_of q) \<notin> F" and "i < n"
  shows "buddy_wf n F (insert (Suc i, q div 2) L)" and "(Suc i, q div 2) \<notin> L"
proof -
  have T: "tiling n (insert (i, q) (insert (i, buddy_of q) (F \<union> L)))"
    and D: "insert (i, buddy_of q) F \<inter> insert (i, q) L = {}"
    and M: "merged n (insert (i, buddy_of q) F)"
    using W by (simp_all add: buddy_wf_def insert_commute)
  have nin': "(i, q) \<notin> F \<union> L" "(i, buddy_of q) \<notin> F \<union> L" using nin D by auto
  note S = tiling_join [OF T \<open>i < n\<close> nin']
  show "(Suc i, q div 2) \<notin> L" using S(2) by simp
  have "merged n F" using M by (auto simp: merged_def)
  then show "buddy_wf n F (insert (Suc i, q div 2) L)"
    using S D by (auto simp: buddy_wf_def)
qed

lemma buddy_wf_give:
  assumes W: "buddy_wf n F (insert (i, q) L)" and nin: "(i, q) \<notin> L"
    and lone: "i < n \<Longrightarrow> (i, buddy_of q) \<notin> F"
  shows "buddy_wf n (insert (i, q) F) L"
proof -
  have "merged n (insert (i, q) F)"
    using W lone unfolding buddy_wf_def merged_def
    by (metis Pair_inject buddy_of_invol buddy_of_neq insert_iff)
  then show ?thesis using W nin by (auto simp: buddy_wf_def)
qed

text \<open>A dyadic block that meets no live block lies inside one free block.\<close>

lemma dyadic_nested:
  assumes "i \<le> j" and "covers x (i, q)" and "covers x (j, r)"
  shows "r = q div 2 ^ (j - i)"
  using covers_up [OF assms(2,1)] assms(3) by (simp only: covers_def fst_conv snd_conv)

lemma hole_free:
  assumes W: "buddy_wf n F L" and "i \<le> n" and "q < 2 ^ (n - i)"
    and hole: "\<And>b x. b \<in> L \<Longrightarrow> covers x (i, q) \<Longrightarrow> \<not> covers x b"
  shows "\<exists>j\<ge>i. (j, q div 2 ^ (j - i)) \<in> F"
  using assms(2-4)
proof (induction i arbitrary: q)
  case 0
  have T: "tiling n (F \<union> L)" using W by (simp add: buddy_wf_def)
  have c: "covers q (0, q)" by (simp add: covers_def)
  obtain j r where b: "(j, r) \<in> F \<union> L" "covers q (j, r)"
    using tiling_cover [OF T, of q] 0 by auto
  then have "(j, r) \<in> F" using 0(3) [of "(j, r)" q] c by blast
  moreover have "r = q div 2 ^ j" using dyadic_nested [OF _ c b(2)] by simp
  ultimately show ?case by auto
next
  case (Suc i)
  have bnd: "2 * q < 2 ^ (n - i)" "Suc (2 * q) < 2 ^ (n - i)" "i < n" "i \<le> n"
    using pow2_half [of i n] Suc.prems by auto
  have h: "\<not> covers x b" if "b \<in> L" "covers x (i, 2 * q) \<or> covers x (i, Suc (2 * q))" for x b
    using Suc.prems(3) [of b x] that by (simp add: covers_Suc)
  obtain j where j: "j \<ge> i" "(j, 2 * q div 2 ^ (j - i)) \<in> F"
    using Suc.IH [of "2 * q"] bnd h by blast
  obtain j' where j': "j' \<ge> i" "(j', Suc (2 * q) div 2 ^ (j' - i)) \<in> F"
    using Suc.IH [of "Suc (2 * q)"] bnd h by blast
  show ?case
  proof (cases "j = i \<and> j' = i")
    case True
    then have "(i, 2 * q) \<in> F" "(i, buddy_of (2 * q)) \<in> F" using j j' by (auto simp: buddy_of_def)
    then show ?thesis using W bnd(3) by (auto simp: buddy_wf_def merged_def)
  next
    case False
    have up: "2 * q div 2 ^ (k - i) = q div 2 ^ (k - Suc i)"
      "Suc (2 * q) div 2 ^ (k - i) = q div 2 ^ (k - Suc i)" if "k > i" for k
      using that by (simp_all add: Suc_diff_Suc [symmetric] div_mult2_eq)
    show ?thesis using False j j' up [of j] up [of j'] by (metis Suc_leI le_neq_implies_less)
  qed
qed

lemma buddy_wf_disjoint:
  assumes "buddy_wf n F L" and "b \<in> F \<union> L" and "b' \<in> F \<union> L" and "covers x b" and "covers x b'"
  shows "b = b'"
  using assms tiling_unique [of n "F \<union> L" b b' x] by (simp add: buddy_wf_def)

lemma buddy_wf_bound:
  assumes "buddy_wf n F L" and "(i, q) \<in> F \<union> L"
  shows "i \<le> n" and "q < 2 ^ (n - i)"
  using assms tiling_bound [of n "F \<union> L" "(i, q)"] by (auto simp: buddy_wf_def)

lemma free_is_hole:
  assumes "buddy_wf n F L" and "b \<in> F" and "b' \<in> L" and "covers x b"
  shows "\<not> covers x b'"
  using buddy_wf_disjoint [OF assms(1), of b b' x] assms by (auto simp: buddy_wf_def)

text \<open>The free blocks are determined by the live ones.\<close>

lemma buddy_wf_canonical_le:
  assumes W: "buddy_wf n F L" and W': "buddy_wf n F' L"
  shows "F \<subseteq> F'"
proof
  fix b assume "b \<in> F"
  then obtain i q where b: "b = (i, q)" "(i, q) \<in> F" by (cases b) auto
  let ?x = "q * 2 ^ i"
  have c: "covers ?x (i, q)" by (rule covers_self)
  have in1: "(i, q) \<in> F \<union> L" using b by simp
  obtain j where j: "j \<ge> i" "(j, q div 2 ^ (j - i)) \<in> F'"
    using hole_free [OF W' buddy_wf_bound [OF W in1]] free_is_hole [OF W b(2)] by blast
  have cj: "covers ?x (j, q div 2 ^ (j - i))" using covers_up [OF c j(1)] .
  have in2: "(j, q div 2 ^ (j - i)) \<in> F' \<union> L" using j by simp
  obtain k where k: "k \<ge> j" "(k, q div 2 ^ (j - i) div 2 ^ (k - j)) \<in> F"
    using hole_free [OF W buddy_wf_bound [OF W' in2]] free_is_hole [OF W' j(2)] by blast
  have "covers ?x (k, q div 2 ^ (j - i) div 2 ^ (k - j))" using covers_up [OF cj k(1)] .
  then have "(i, q) = (k, q div 2 ^ (j - i) div 2 ^ (k - j))"
    using buddy_wf_disjoint [OF W in1 _ c] k(2) by blast
  then have "j = i" using j k by simp
  then show "b \<in> F'" using j b by simp
qed

lemma buddy_wf_canonical: "buddy_wf n F L \<Longrightarrow> buddy_wf n F' L \<Longrightarrow> F = F'"
  by (simp add: buddy_wf_canonical_le subset_antisym)

lemma buddy_wf_empty:
  assumes "buddy_wf n F L"
  shows "(n, 0) \<in> F \<longleftrightarrow> L = {}"
proof
  assume "(n, 0) \<in> F"
  show "L = {}"
  proof (rule equals0I)
    fix b assume b: "b \<in> L"
    then obtain i q where iq: "b = (i, q)" "(i, q) \<in> F \<union> L" by (cases b) auto
    note bd = buddy_wf_bound [OF assms iq(2)]
    have "covers (q * 2 ^ i) (n, q div 2 ^ (n - i))"
      using covers_up [OF covers_self bd(1)] .
    then have "covers (q * 2 ^ i) (n, 0)" using bd(2) by simp
    then show False using free_is_hole [OF assms \<open>(n, 0) \<in> F\<close> b] iq covers_self by blast
  qed
next
  assume "L = {}"
  then obtain j where j: "j \<ge> n" "(j, 0 div 2 ^ (j - n)) \<in> F"
    using hole_free [OF assms order_refl, of 0] by auto
  then show "(n, 0) \<in> F" using buddy_wf_bound(1) [OF assms, of j 0] by auto
qed

section \<open>Representation\<close>

definition blk :: "nat \<Rightarrow> UntypedBuffer \<Rightarrow> dyadic \<Rightarrow> UntypedBuffer" where
  "blk lo whole b =
     slice_buffer whole (2 ^ (lo + fst b)) (of_nat (snd b * 2 ^ (lo + fst b)))"

definition frees :: "(nat \<Rightarrow> nat list) \<Rightarrow> dyadic set" where
  "frees qs = {(i, q). q \<in> set (qs i)}"

definition buddy_rep ::
  "nat \<Rightarrow> nat \<Rightarrow> UntypedBuffer \<Rightarrow> free_lists \<Rightarrow> (nat \<Rightarrow> nat list) \<Rightarrow> dyadic set \<Rightarrow> bool" where
  "buddy_rep lo hi whole fl qs L \<longleftrightarrow>
     lo \<le> hi \<and> hi < 64 \<and> ub_size whole = 2 ^ hi \<and>
     (\<forall>i. fl i = map (\<lambda>q. blk lo whole (i, q)) (qs i) \<and> distinct (qs i)) \<and>
     buddy_wf (hi - lo) (frees qs) L"

lemma pow2_no_sentinel [simp]: "(2::u64) ^ k \<noteq> 0xFFFFFFFFFFFFFFFF"
proof
  assume "(2::u64) ^ k = 0xFFFFFFFFFFFFFFFF"
  moreover have "(0xFFFFFFFFFFFFFFFF::u64) = - 1" by simp
  ultimately have "bit (2 ^ k :: u64) 0" "bit (2 ^ k :: u64) 1" by simp_all
  then show False by (simp add: bit_exp_iff)
qed

lemma slice_simps [simp]:
  "ub_size (slice_buffer p (2 ^ k) off) = 2 ^ k"
  "ub_offset (slice_buffer p s off) = ub_offset p + off"
  "backingBuffer (slice_buffer p s off) = backingBuffer p"
  by (simp_all add: slice_buffer_def)

lemma blk_simps [simp]:
  "ub_size (blk lo whole (i, q)) = 2 ^ (lo + i)"
  "getPhysAddr (blk lo whole (i, q)) = getPhysAddr whole + of_nat (q * 2 ^ (lo + i))"
  by (simp_all add: blk_def getPhysAddr_def)

lemma slice_blk:
  "slice_buffer (blk lo whole (Suc i, q)) (2 ^ (lo + i)) 0 = blk lo whole (i, 2 * q)"
  "slice_buffer (blk lo whole (Suc i, q)) (2 ^ (lo + i)) (2 ^ (lo + i)) = blk lo whole (i, Suc (2 * q))"
  by (simp_all add: blk_def slice_buffer_def algebra_simps)

lemma blk_whole: "ub_size whole = 2 ^ hi \<Longrightarrow> lo \<le> hi \<Longrightarrow> blk lo whole (hi - lo, 0) = whole"
  by (simp add: blk_def slice_buffer_def)

lemma bit_length_pow: "2 ^ k \<le> n \<Longrightarrow> n < 2 ^ Suc k \<Longrightarrow> bit_length n = Suc k"
proof (induction k arbitrary: n)
  case 0
  then show ?case by (simp add: bit_length.simps)
next
  case (Suc k)
  then have "bit_length (n div 2) = Suc k" by simp
  moreover have "n \<noteq> 0" using Suc.prems by auto
  ultimately show ?case by (simp add: bit_length.simps [of n])
qed

lemma bit_length_le: "n < 2 ^ k \<Longrightarrow> bit_length n \<le> k"
proof (induction k arbitrary: n)
  case 0
  then show ?case by (simp add: bit_length.simps)
next
  case (Suc k)
  then have "bit_length (n div 2) \<le> k" by simp
  then show ?case by (simp add: bit_length.simps [of n])
qed

lemma less_bit_length: "n < 2 ^ bit_length n"
proof (induction n rule: less_induct)
  case (less n)
  show ?case
  proof (cases "n = 0")
    case False
    then have "n div 2 < 2 ^ bit_length (n div 2)" using less.IH [of "n div 2"] by simp
    then show ?thesis using False by (simp add: bit_length.simps [of n])
  qed (simp add: bit_length.simps)
qed

lemma word_pow_le: "k < 64 \<Longrightarrow> l < 64 \<Longrightarrow> (2::u64) ^ k \<le> 2 ^ l \<longleftrightarrow> k \<le> l"
  by (simp add: word_le_nat_alt unat_pow2)

lemma sizeToIndex_pow:
  assumes "lo \<le> k" and "k < 64"
  shows "sizeToIndex lo (2 ^ k) = k - lo"
proof (cases "k = lo")
  case False
  then obtain l where k: "k = Suc l" using assms by (cases k) auto
  have "unat (2 ^ k - 1 :: u64) = 2 ^ k - 1"
    using assms by (simp add: unat_minus_one unat_pow2)
  moreover have "bit_length (2 ^ k - 1) = k"
    unfolding k by (rule bit_length_pow) (auto simp: Suc_le_eq)
  ultimately show ?thesis using assms False by (simp add: sizeToIndex_def word_pow_le)
qed (simp add: sizeToIndex_def)

lemma sizeToIndex_fits:
  assumes "lo < 64"
  shows "unat sz \<le> 2 ^ (lo + sizeToIndex lo sz)"
proof (cases "sz \<le> 2 ^ lo")
  case True
  then show ?thesis using assms by (simp add: sizeToIndex_def word_le_nat_alt unat_pow2)
next
  case False
  then have "sz \<noteq> 0" and gt: "2 ^ lo < unat sz"
    using assms by (auto simp: word_le_nat_alt unat_pow2)
  then have m: "unat (sz - 1) = unat sz - 1" by (simp add: unat_minus_one)
  have lt: "unat (sz - 1) < 2 ^ bit_length (unat (sz - 1))" by (rule less_bit_length)
  have "2 ^ lo \<le> unat (sz - 1)" using gt m by simp
  then have "(2::nat) ^ lo < 2 ^ bit_length (unat (sz - 1))" using lt by (rule le_less_trans)
  then have "lo < bit_length (unat (sz - 1))" by simp
  then have "lo + sizeToIndex lo sz = bit_length (unat (sz - 1))"
    using False by (simp add: sizeToIndex_def)
  then show ?thesis using lt m gt by simp
qed

lemma sizeToIndex_tight:
  assumes "lo < 64" and "unat sz \<le> 2 ^ (lo + i)"
  shows "sizeToIndex lo sz \<le> i"
proof (cases "sz \<le> 2 ^ lo")
  case False
  then have "sz \<noteq> 0" by auto
  then have "unat sz \<noteq> 0" "unat (sz - 1) = unat sz - 1"
    by (simp_all add: unat_minus_one unat_eq_0)
  then have "unat (sz - 1) < 2 ^ (lo + i)" using assms(2) by linarith
  then show ?thesis using False bit_length_le [of "unat (sz - 1)" "lo + i"]
    by (simp add: sizeToIndex_def)
qed (simp add: sizeToIndex_def)

text \<open>Offsets of blocks as words.\<close>

lemma unat_of_nat_u64: "m < 2 ^ 64 \<Longrightarrow> unat (of_nat m :: u64) = m"
  by (simp add: unsigned_of_nat take_bit_nat_eq_self)

lemma of_nat_u64_inject:
  assumes "m < 2 ^ 64" and "n < 2 ^ 64"
  shows "(of_nat m :: u64) = of_nat n \<longleftrightarrow> m = n"
  using unat_of_nat_u64 [OF assms(1)] unat_of_nat_u64 [OF assms(2)] by metis

lemma dyadic_off_less:
  fixes q :: nat
  assumes "lo \<le> hi" and "i \<le> hi - lo" and "q < 2 ^ (hi - lo - i)"
  shows "q * 2 ^ (lo + i) + 2 ^ (lo + i) \<le> 2 ^ hi"
proof -
  have "Suc q * 2 ^ (lo + i) \<le> 2 ^ (hi - lo - i) * 2 ^ (lo + i)"
    using assms(3) by (intro mult_right_mono) auto
  also have "\<dots> = 2 ^ hi" using assms by (simp add: power_add [symmetric])
  finally show ?thesis by simp
qed

lemma off_xor: "(of_nat (q * 2 ^ k) :: u64) XOR 2 ^ k = of_nat (buddy_of q * 2 ^ k)"
proof -
  have p: "of_nat (m * 2 ^ k) = push_bit k (of_nat m :: u64)" for m
    by (simp add: push_bit_eq_mult)
  have "(2::u64) ^ k = push_bit k 1" by (simp add: push_bit_eq_mult)
  then have "(of_nat (q * 2 ^ k) :: u64) XOR 2 ^ k = push_bit k (of_nat q XOR 1)"
    by (simp only: p push_bit_xor)
  also have "(of_nat q :: u64) XOR 1 = of_nat (buddy_of q)"
    by (auto simp: xor_one_eq buddy_of_def elim: oddE)
  finally show ?thesis by (simp only: p)
qed

lemma off_min:
  assumes "q * 2 ^ k < 2 ^ 64" and "buddy_of q * 2 ^ k < 2 ^ 64"
  shows "min (of_nat (q * 2 ^ k) :: u64) (of_nat (buddy_of q * 2 ^ k)) = of_nat (q div 2 * 2 ^ Suc k)"
proof -
  have le: "(of_nat a :: u64) \<le> of_nat b \<longleftrightarrow> a \<le> b" if "a < 2 ^ 64" "b < 2 ^ 64" for a b
    using that by (simp add: word_le_nat_alt unat_of_nat_u64)
  have "min (of_nat (q * 2 ^ k) :: u64) (of_nat (buddy_of q * 2 ^ k)) =
      of_nat (min (q * 2 ^ k) (buddy_of q * 2 ^ k))"
    using le [OF assms] by (simp add: min_def)
  also have "min (q * 2 ^ k) (buddy_of q * 2 ^ k) = min q (buddy_of q) * 2 ^ k"
    by (simp only: nat_mult_min_left)
  also have "min q (buddy_of q) = 2 * (q div 2)"
    by (rule buddy_of_cases [of q]) auto
  finally show ?thesis by (simp add: algebra_simps)
qed

section \<open>Operations and the invariant\<close>

lemma frees_upd: "frees (qs(i := xs)) = {b \<in> frees qs. fst b \<noteq> i} \<union> Pair i ` set xs"
  by (auto simp: frees_def split: if_splits)

lemma frees_push: "frees (qs(i := qs i @ [q])) = insert (i, q) (frees qs)"
  by (auto simp: frees_upd) (auto simp: frees_def)

lemma frees_remove:
  assumes "set xs = set (qs i) - {q}" and "q \<in> set (qs i)"
  shows "frees qs = insert (i, q) (frees (qs(i := xs)))" and "(i, q) \<notin> frees (qs(i := xs))"
proof -
  have "frees (qs(i := xs)) = frees qs - {(i, q)}"
    unfolding frees_upd assms(1) by (auto simp: frees_def)
  then show "frees qs = insert (i, q) (frees (qs(i := xs)))" "(i, q) \<notin> frees (qs(i := xs))"
    using assms(2) by (auto simp: frees_def)
qed

lemma buddy_rep_push:
  assumes R: "buddy_rep lo hi whole fl qs L" and "(i, q) \<notin> frees qs"
    and W: "buddy_wf (hi - lo) (insert (i, q) (frees qs)) L'"
  shows "buddy_rep lo hi whole (fl(i := fl i @ [blk lo whole (i, q)])) (qs(i := qs i @ [q])) L'"
  using assms by (auto simp: buddy_rep_def frees_push) (auto simp: frees_def)

lemma buddy_rep_remove:
  assumes R: "buddy_rep lo hi whole fl qs L" and "xs = map (\<lambda>q. blk lo whole (i, q)) ys"
    and "distinct ys" and "set ys = set (qs i) - {q}" and "q \<in> set (qs i)"
    and W: "\<And>F. frees qs = insert (i, q) F \<Longrightarrow> (i, q) \<notin> F \<Longrightarrow> buddy_wf (hi - lo) F L'"
  shows "buddy_rep lo hi whole (fl(i := xs)) (qs(i := ys)) L'"
proof -
  from frees_remove [where qs = qs and i = i, OF assms(4,5)] have "buddy_wf (hi - lo) (frees (qs(i := ys))) L'"
    by (rule W)
  then show ?thesis using R assms(2,3) by (auto simp: buddy_rep_def)
qed

lemma buddy_rep_wf: "buddy_rep lo hi whole fl qs L \<Longrightarrow> buddy_wf (hi - lo) (frees qs) L"
  by (simp add: buddy_rep_def)

lemma buddy_split_ok:
  assumes "buddy_rep lo hi whole fl qs (insert (i, q) L)" and "(i, q) \<notin> L" and "index \<le> i"
  shows "\<exists>q' fl' qs'. buddy_split lo index i (blk lo whole (i, q)) fl = (blk lo whole (index, q'), fl') \<and>
           buddy_rep lo hi whole fl' qs' (insert (index, q') L) \<and> (index, q') \<notin> L"
  using assms
proof (induction i arbitrary: q fl qs)
  case 0
  then show ?case by auto
next
  case (Suc i)
  show ?case
  proof (cases "index = Suc i")
    case True
    then show ?thesis using Suc.prems by auto
  next
    case False
    note S = buddy_wf_split [OF buddy_rep_wf [OF Suc.prems(1)] Suc.prems(2)]
    let ?fl = "fl(i := fl i @ [blk lo whole (i, Suc (2 * q))])"
    have R: "buddy_rep lo hi whole ?fl (qs(i := qs i @ [Suc (2 * q)])) (insert (i, 2 * q) L)"
      by (rule buddy_rep_push [OF Suc.prems(1) S(3) S(1)])
    have "buddy_split lo index (Suc i) (blk lo whole (Suc i, q)) fl =
        buddy_split lo index i (blk lo whole (i, 2 * q)) ?fl"
      using False Suc.prems(3) by (simp add: slice_blk Let_def)
    then show ?thesis
      using Suc.IH [where fl = ?fl, OF R S(2)] False Suc.prems(3) by (simp only: le_Suc_eq) blast
  qed
qed

lemma buddy_take_ok:
  assumes R: "buddy_rep lo hi whole fl qs L" and "\<forall>i\<in>set is. index \<le> i"
    and some: "\<exists>i\<in>set is. fl i \<noteq> []"
  shows "\<exists>q fl' qs'. buddy_take lo index is fl = Inr (blk lo whole (index, q), fl') \<and>
           buddy_rep lo hi whole fl' qs' (insert (index, q) L) \<and> (index, q) \<notin> L"
  using assms(2,3)
proof (induction "is")
  case (Cons i "is")
  show ?case
  proof (cases "fl i = []")
    case False
    let ?q = "last (qs i)"
    have fi: "fl i = map (\<lambda>q. blk lo whole (i, q)) (qs i)" and d: "distinct (qs i)"
      using R by (auto simp: buddy_rep_def)
    then have ne: "qs i \<noteq> []" using False by auto
    have m: "set (butlast (qs i)) = set (qs i) - {?q}" "distinct (butlast (qs i))" "?q \<in> set (qs i)"
      using d ne by (auto simp: distinct_butlast in_set_butlastD)
        (metis append_butlast_last_id distinct.simps(2) distinct1_rotate rotate1.simps(2),
          metis UnE append_butlast_last_id empty_iff empty_set insertE list.simps(15) set_append)
    have W: "buddy_wf (hi - lo) F (insert (i, ?q) L)" "(i, ?q) \<notin> L"
      if "frees qs = insert (i, ?q) F" "(i, ?q) \<notin> F" for F
      using buddy_wf_take [of "hi - lo" "(i, ?q)" F L] that buddy_rep_wf [OF R] by auto
    have R': "buddy_rep lo hi whole (fl(i := butlast (fl i))) (qs(i := butlast (qs i))) (insert (i, ?q) L)"
      by (rule buddy_rep_remove [OF R _ m(2,1,3)]) (auto simp: fi map_butlast W)
    have nin: "(i, ?q) \<notin> L"
      using W(2) frees_remove [where qs = qs and i = i, OF m(1) m(3)] by blast
    have "last (fl i) = blk lo whole (i, ?q)" using ne by (simp add: fi last_map)
    then show ?thesis
      using buddy_split_ok [where fl = "fl(i := butlast (fl i))", OF R' nin, of index] False
        Cons.prems(1) by auto
  qed (use Cons in auto)
qed simp

definition buddy_inv :: "nat \<Rightarrow> nat \<Rightarrow> UntypedBuffer \<Rightarrow> free_lists \<Rightarrow> dyadic set \<Rightarrow> bool" where
  "buddy_inv lo hi whole fl L \<longleftrightarrow> (\<exists>qs. buddy_rep lo hi whole fl qs L)"

lemma buddy_seed_inv:
  assumes "lo \<le> hi" and "hi < 64" and "ub_size whole = 2 ^ hi"
  shows "\<exists>fl. buddy_seed lo hi whole (\<lambda>_. []) = Inr fl \<and> buddy_inv lo hi whole fl {}"
proof -
  let ?qs = "(\<lambda>_. [])(hi - lo := [0])"
  have "frees ?qs = {(hi - lo, 0)}" by (auto simp: frees_def split: if_splits)
  then have "buddy_rep lo hi whole ((\<lambda>_. [])(hi - lo := [whole])) ?qs {}"
    using assms by (auto simp: buddy_rep_def blk_whole buddy_wf_init)
  then show ?thesis
    using assms by (auto simp: buddy_seed_def sizeToIndex_pow kNumBuckets_def buddy_inv_def)
qed

lemma buddy_allocate_cases:
  assumes I: "buddy_inv lo hi whole fl L" and idx: "index = sizeToIndex lo sz"
  shows "(index \<le> hi - lo \<and> (\<exists>i. index \<le> i \<and> i \<le> hi - lo \<and> fl i \<noteq> []) \<and>
            (\<exists>q fl'. buddy_allocate lo hi sz fl = Inr (blk lo whole (index, q), fl') \<and>
               buddy_inv lo hi whole fl' (insert (index, q) L) \<and> (index, q) \<notin> L)) \<or>
         (\<forall>i. index \<le> i \<longrightarrow> i \<le> hi - lo \<longrightarrow> fl i = []) \<and> buddy_allocate lo hi sz fl = Inl bad_alloc"
proof -
  obtain qs where R: "buddy_rep lo hi whole fl qs L" using I by (auto simp: buddy_inv_def)
  have none: "buddy_take lo index is fl = Inl bad_alloc" if "\<forall>i\<in>set is. fl i = []" for "is"
    using that by (induction "is") auto
  show ?thesis
  proof (cases "\<exists>i. index \<le> i \<and> i \<le> hi - lo \<and> fl i \<noteq> []")
    case True
    then have le: "index \<le> hi - lo" by auto
    have "\<exists>i\<in>set [index..<kNumBuckets lo hi]. fl i \<noteq> []"
      using True by (auto simp: kNumBuckets_def)
    then show ?thesis
      using buddy_take_ok [OF R, of "[index..<kNumBuckets lo hi]" index] le True
      by (auto simp: buddy_allocate_def idx [symmetric] kNumBuckets_def buddy_inv_def
          simp del: upt_Suc)
  next
    case False
    then have "\<forall>i\<in>set [index..<kNumBuckets lo hi]. fl i = []" by (auto simp: kNumBuckets_def)
    then show ?thesis
      using False none by (auto simp: buddy_allocate_def idx [symmetric])
  qed
qed

text \<open>Deallocation.\<close>

fun find_q :: "nat \<Rightarrow> nat list \<Rightarrow> nat option" where
  "find_q r [] = None"
| "find_q r (q # qs) = (if q = r then Some 0 else map_option Suc (find_q r qs))"

lemma find_q_None: "find_q r qs = None \<longleftrightarrow> r \<notin> set qs"
  by (induction qs) auto

lemma find_q_Some: "find_q r qs = Some j \<Longrightarrow> j < length qs \<and> qs ! j = r"
  by (induction qs arbitrary: j) (auto split: if_splits)

lemma find_buddy_blk:
  assumes "\<forall>q\<in>set qs. q * 2 ^ (lo + i) < 2 ^ 64" and "r * 2 ^ (lo + i) < 2 ^ 64"
  shows "find_buddy (getPhysAddr whole) (of_nat (r * 2 ^ (lo + i)))
           (map (\<lambda>q. blk lo whole (i, q)) qs) = find_q r qs"
  using assms(1)
proof (induction qs)
  case (Cons q qs)
  have "(of_nat (q * 2 ^ (lo + i)) :: u64) = of_nat (r * 2 ^ (lo + i)) \<longleftrightarrow> q = r"
    using of_nat_u64_inject [of "q * 2 ^ (lo + i)" "r * 2 ^ (lo + i)"] assms(2) Cons.prems by simp
  then show ?case using Cons by (simp del: of_nat_mult of_nat_power)
qed simp

lemma swap_pop_map: "j < length xs \<Longrightarrow> swap_pop j (map f xs) = map f (swap_pop j xs)"
  by (cases "xs = []") (auto simp: swap_pop_def map_butlast map_update last_map)

lemma swap_pop_set:
  assumes "j < length xs" and "distinct xs"
  shows "set (swap_pop j xs) = set xs - {xs ! j}" and "distinct (swap_pop j xs)"
proof -
  obtain ys z where xs: "xs = ys @ [z]" using assms(1) by (cases xs rule: rev_cases) auto
  have "set (swap_pop j xs) = set xs - {xs ! j} \<and> distinct (swap_pop j xs)"
  proof (cases "j = length ys")
    case True
    then show ?thesis using xs assms(2) by (auto simp: swap_pop_def)
  next
    case False
    then have j: "j < length ys" using assms(1) xs by simp
    then have "swap_pop j xs = ys[j := z]" using xs by (simp add: swap_pop_def list_update_append)
    moreover have "set (ys[j := z]) = insert z (set ys - {ys ! j})"
      using set_update_distinct [of ys j z] j xs assms(2) by simp
    ultimately show ?thesis
      using xs j assms(2) by (auto simp: nth_append distinct_list_update)
  qed
  then show "set (swap_pop j xs) = set xs - {xs ! j}" and "distinct (swap_pop j xs)" by auto
qed

lemma buddy_of_bound: "q < 2 ^ (n - i) \<Longrightarrow> i < n \<Longrightarrow> buddy_of q < 2 ^ (n - i)"
  by (rule buddy_of_cases [of q]) (auto simp: pow2_half)

lemma buddy_rep_off:
  fixes q :: nat
  assumes "buddy_rep lo hi whole fl qs L" and "i \<le> hi - lo" and "q < 2 ^ (hi - lo - i)"
  shows "q * 2 ^ (lo + i) + 2 ^ (lo + i) \<le> 2 ^ hi" and "q * 2 ^ (lo + i) < 2 ^ 64"
proof -
  have h: "lo \<le> hi" "hi < 64" using assms(1) by (auto simp: buddy_rep_def)
  show le: "q * 2 ^ (lo + i) + 2 ^ (lo + i) \<le> 2 ^ hi"
    using dyadic_off_less [OF h(1) assms(2,3)] .
  have "(2::nat) ^ hi < 2 ^ 64" using h by (intro power_strict_increasing) auto
  then show "q * 2 ^ (lo + i) < 2 ^ 64" using le by linarith
qed

lemma buddy_coalesce_step:
  assumes R: "buddy_rep lo hi whole fl qs (insert (i, q) L)" and nin: "(i, q) \<notin> L"
    and i: "i < hi - lo"
  shows "(of_nat (q * 2 ^ (lo + i)) :: u64) XOR 2 ^ (lo + i) = of_nat (buddy_of q * 2 ^ (lo + i))"
    and "min (of_nat (q * 2 ^ (lo + i)) :: u64) (of_nat (buddy_of q * 2 ^ (lo + i))) =
           of_nat (q div 2 * 2 ^ (lo + Suc i))"
    and "find_buddy (getPhysAddr whole) (of_nat (buddy_of q * 2 ^ (lo + i))) (fl i) =
           find_q (buddy_of q) (qs i)"
    and "find_q (buddy_of q) (qs i) = Some j \<Longrightarrow>
           buddy_rep lo hi whole (fl(i := swap_pop j (fl i))) (qs(i := swap_pop j (qs i)))
             (insert (Suc i, q div 2) L) \<and> (Suc i, q div 2) \<notin> L"
proof -
  note W = buddy_rep_wf [OF R]
  have fi: "fl i = map (\<lambda>q. blk lo whole (i, q)) (qs i)" and d: "distinct (qs i)"
    using R by (auto simp: buddy_rep_def)
  have b: "i \<le> hi - lo" "q < 2 ^ (hi - lo - i)" using buddy_wf_bound [OF W, of i q] by auto
  note b' = buddy_of_bound [OF b(2) i]
  note o1 = buddy_rep_off(2) [OF R b] and o2 = buddy_rep_off(2) [OF R b(1) b']
  show "(of_nat (q * 2 ^ (lo + i)) :: u64) XOR 2 ^ (lo + i) = of_nat (buddy_of q * 2 ^ (lo + i))"
    by (rule off_xor)
  show "min (of_nat (q * 2 ^ (lo + i)) :: u64) (of_nat (buddy_of q * 2 ^ (lo + i))) =
      of_nat (q div 2 * 2 ^ (lo + Suc i))"
    using off_min [OF o1 o2] by simp
  have "\<forall>q\<in>set (qs i). q * 2 ^ (lo + i) < 2 ^ 64"
    using buddy_wf_bound [OF W, of i] buddy_rep_off(2) [OF R b(1)] by (auto simp: frees_def)
  then show "find_buddy (getPhysAddr whole) (of_nat (buddy_of q * 2 ^ (lo + i))) (fl i) =
      find_q (buddy_of q) (qs i)"
    unfolding fi by (rule find_buddy_blk [OF _ o2])
  assume "find_q (buddy_of q) (qs i) = Some j"
  then have j: "j < length (qs i)" "qs i ! j = buddy_of q" by (auto dest: find_q_Some)
  note sp = swap_pop_set [OF j(1) d]
  have mem: "buddy_of q \<in> set (qs i)" using j nth_mem [of j "qs i"] by simp
  note fr = frees_remove [where qs = qs and i = i, OF sp(1) [unfolded j(2)] mem]
  note m = buddy_wf_merge [OF W [unfolded fr(1)] nin fr(2) i]
  have "buddy_rep lo hi whole (fl(i := swap_pop j (fl i))) (qs(i := swap_pop j (qs i)))
      (insert (Suc i, q div 2) L)"
    using R m(1) sp(2) swap_pop_map [OF j(1)] by (auto simp: buddy_rep_def)
  then show "buddy_rep lo hi whole (fl(i := swap_pop j (fl i))) (qs(i := swap_pop j (qs i)))
      (insert (Suc i, q div 2) L) \<and> (Suc i, q div 2) \<notin> L"
    using m(2) by simp
qed

lemma buddy_coalesce_ok:
  assumes "buddy_rep lo hi whole fl qs (insert (i, q) L)" and "(i, q) \<notin> L" and "i + m = hi - lo"
  shows "\<exists>i' q' fl' qs'.
    buddy_coalesce (getPhysAddr whole) m i (2 ^ (lo + i)) (of_nat (q * 2 ^ (lo + i))) fl =
      (i', 2 ^ (lo + i'), of_nat (q' * 2 ^ (lo + i')), fl') \<and>
    buddy_rep lo hi whole fl' qs' (insert (i', q') L) \<and> (i', q') \<notin> L \<and>
    (i' < hi - lo \<longrightarrow> (i', buddy_of q') \<notin> frees qs')"
  using assms
proof (induction m arbitrary: i q fl qs)
  case 0
  then show ?case by force
next
  case (Suc m)
  then have i: "i < hi - lo" by simp
  note st = buddy_coalesce_step [OF Suc.prems(1,2) i]
  have sh: "push_bit 1 (2 ^ (lo + i) :: u64) = 2 ^ (lo + Suc i)" by (simp add: push_bit_eq_mult)
  show ?case
  proof (cases "find_q (buddy_of q) (qs i)")
    case None
    then have "(i, buddy_of q) \<notin> frees qs" by (simp add: find_q_None frees_def)
    moreover have "buddy_coalesce (getPhysAddr whole) (Suc m) i (2 ^ (lo + i))
        (of_nat (q * 2 ^ (lo + i))) fl = (i, 2 ^ (lo + i), of_nat (q * 2 ^ (lo + i)), fl)"
      by (simp only: buddy_coalesce.simps Let_def st(1,3) None option.case)
    ultimately show ?thesis using Suc.prems by blast
  next
    case (Some j)
    note R = st(4) [OF Some]
    have eq: "buddy_coalesce (getPhysAddr whole) (Suc m) i (2 ^ (lo + i)) (of_nat (q * 2 ^ (lo + i))) fl =
        buddy_coalesce (getPhysAddr whole) m (Suc i) (2 ^ (lo + Suc i))
          (of_nat (q div 2 * 2 ^ (lo + Suc i))) (fl(i := swap_pop j (fl i)))"
      by (simp only: buddy_coalesce.simps Let_def st(1,2,3) Some option.case sh)
    have "Suc i + m = hi - lo" using Suc.prems(3) by simp
    then show ?thesis
      unfolding eq by (rule Suc.IH [OF conjunct1 [OF R] conjunct2 [OF R]])
  qed
qed

lemma buddy_deallocate_ok:
  assumes I: "buddy_inv lo hi whole fl (insert (i, q) L)" and nin: "(i, q) \<notin> L"
  shows "\<exists>fl'. buddy_deallocate lo hi whole (blk lo whole (i, q)) fl = Inr fl' \<and>
           buddy_inv lo hi whole fl' L"
proof -
  obtain qs where R: "buddy_rep lo hi whole fl qs (insert (i, q) L)"
    using I by (auto simp: buddy_inv_def)
  then have h: "lo \<le> hi" "hi < 64" "ub_size whole = 2 ^ hi" by (auto simp: buddy_rep_def)
  have b: "i \<le> hi - lo" "q < 2 ^ (hi - lo - i)"
    using buddy_wf_bound [OF buddy_rep_wf [OF R], of i q] by auto
  have idx: "sizeToIndex lo (2 ^ (lo + i)) = i"
    using b h sizeToIndex_pow [of lo "lo + i"] by simp
  note off = buddy_rep_off [OF R b]
  have "(of_nat (q * 2 ^ (lo + i)) :: u64) + 2 ^ (lo + i) = of_nat (q * 2 ^ (lo + i) + 2 ^ (lo + i))"
    by simp
  also have "\<dots> \<le> 2 ^ hi"
  proof -
    have "(2::nat) ^ hi < 2 ^ 64" using h by (intro power_strict_increasing) auto
    then show ?thesis
      using off(1) h unat_of_nat_u64 [of "q * 2 ^ (lo + i) + 2 ^ (lo + i)"]
      by (simp add: word_le_nat_alt unat_pow2 del: of_nat_add of_nat_mult of_nat_power)
  qed
  finally have own: "\<not> (of_nat (q * 2 ^ (lo + i)) :: u64) + 2 ^ (lo + i) > 2 ^ hi" by simp
  obtain i' q' fl' qs' where
    C: "buddy_coalesce (getPhysAddr whole) (hi - lo - i) i (2 ^ (lo + i)) (of_nat (q * 2 ^ (lo + i))) fl =
          (i', 2 ^ (lo + i'), of_nat (q' * 2 ^ (lo + i')), fl')"
    and R': "buddy_rep lo hi whole fl' qs' (insert (i', q') L)" "(i', q') \<notin> L"
      "i' < hi - lo \<longrightarrow> (i', buddy_of q') \<notin> frees qs'"
    using buddy_coalesce_ok [OF R nin le_add_diff_inverse [OF b(1)]] by blast
  note W = buddy_rep_wf [OF R'(1)]
  have "(i', q') \<notin> frees qs'" using W by (auto simp: buddy_wf_def)
  from buddy_rep_push [OF R'(1) this buddy_wf_give [OF W R'(2)]] R'(3)
  have "buddy_inv lo hi whole (fl'(i' := fl' i' @ [blk lo whole (i', q')])) L"
    by (auto simp: buddy_inv_def)
  moreover have "kNumBuckets lo hi - 1 - i = hi - lo - i" "\<not> kNumBuckets lo hi \<le> i"
    using b by (auto simp: kNumBuckets_def)
  ultimately show ?thesis
    using C own h(3) idx
    by (simp add: buddy_deallocate_def blk_def Let_def getPhysAddr_def algebra_simps)
qed

lemma buddy_inv_facts:
  assumes "buddy_inv lo hi whole fl L"
  shows "lo \<le> hi" "hi < 64" "ub_size whole = 2 ^ hi"
  using assms by (auto simp: buddy_inv_def buddy_rep_def)

lemma buddy_isFree_iff:
  assumes "buddy_inv lo hi whole fl L"
  shows "buddy_isFree lo whole fl \<longleftrightarrow> L = {}"
proof -
  obtain qs where R: "buddy_rep lo hi whole fl qs L" using assms by (auto simp: buddy_inv_def)
  note h = buddy_inv_facts [OF assms]
  note W = buddy_rep_wf [OF R]
  let ?n = "hi - lo"
  have len: "length (fl ?n) = length (qs ?n)" and d: "distinct (qs ?n)"
    using R by (auto simp: buddy_rep_def)
  have "set (qs ?n) \<subseteq> {0}"
    using buddy_wf_bound(2) [OF W, of ?n] by (auto simp: frees_def)
  then consider "qs ?n = []" | "set (qs ?n) = {0}" by (auto simp: subset_singleton_iff)
  then have "length (qs ?n) = 1 \<longleftrightarrow> 0 \<in> set (qs ?n)"
    by cases (simp_all add: distinct_card [OF d, symmetric])
  then show ?thesis
    using buddy_wf_empty [OF W] h len
    by (simp add: buddy_isFree_def sizeToIndex_pow frees_def)
qed

text \<open>An allocation fails only when every aligned block of its size meets a live block.\<close>

lemma buddy_allocate_complete:
  assumes I: "buddy_inv lo hi whole fl L" and "sizeToIndex lo sz \<le> i"
    and "i \<le> hi - lo" and "q < 2 ^ (hi - lo - i)"
    and hole: "\<And>b x. b \<in> L \<Longrightarrow> covers x (i, q) \<Longrightarrow> \<not> covers x b"
  shows "buddy_allocate lo hi sz fl \<noteq> Inl bad_alloc"
proof -
  obtain qs where R: "buddy_rep lo hi whole fl qs L" using I by (auto simp: buddy_inv_def)
  note W = buddy_rep_wf [OF R]
  obtain j where j: "j \<ge> i" "(j, q div 2 ^ (j - i)) \<in> frees qs"
    using hole_free [OF W assms(3,4)] hole by blast
  have "j \<le> hi - lo" using buddy_wf_bound(1) [OF W] j(2) by blast
  moreover have "fl j \<noteq> []" using R j(2) by (auto simp: buddy_rep_def frees_def)
  moreover have "sizeToIndex lo sz \<le> j" using j(1) assms(2) by simp
  ultimately have "\<not> (\<forall>k. sizeToIndex lo sz \<le> k \<longrightarrow> k \<le> hi - lo \<longrightarrow> fl k = [])" by blast
  then show ?thesis using buddy_allocate_cases [OF I refl, of sz] by auto
qed

section \<open>Histories of a superblock\<close>

text \<open>
  The states a client can bring a seeded superblock to: the free lists with the set of buffers
  handed out and not yet returned.
\<close>

inductive buddy_reach ::
  "nat \<Rightarrow> nat \<Rightarrow> UntypedBuffer \<Rightarrow> free_lists \<Rightarrow> UntypedBuffer set \<Rightarrow> bool"
  for lo hi whole where
  seeded: "buddy_seed lo hi whole (\<lambda>_. []) = Inr fl \<Longrightarrow> buddy_reach lo hi whole fl {}"
| allocated: "buddy_reach lo hi whole fl L \<Longrightarrow> buddy_allocate lo hi sz fl = Inr (b, fl') \<Longrightarrow>
    buddy_reach lo hi whole fl' (insert b L)"
| released: "buddy_reach lo hi whole fl L \<Longrightarrow> b \<in> L \<Longrightarrow>
    buddy_deallocate lo hi whole b fl = Inr fl' \<Longrightarrow> buddy_reach lo hi whole fl' (L - {b})"

lemma buddy_inv_bound:
  assumes "buddy_inv lo hi whole fl D" and "(i, q) \<in> D"
  shows "i \<le> hi - lo" and "q < 2 ^ (hi - lo - i)"
proof -
  obtain qs where "buddy_rep lo hi whole fl qs D" using assms(1) by (auto simp: buddy_inv_def)
  from buddy_wf_bound [OF buddy_rep_wf [OF this], of i q] assms(2)
  show "i \<le> hi - lo" and "q < 2 ^ (hi - lo - i)" by auto
qed

lemma blk_inj_bounded:
  assumes "buddy_inv lo hi whole fl D"
  shows "inj_on (blk lo whole) {(i, q). i \<le> hi - lo \<and> q < 2 ^ (hi - lo - i)}"
proof (rule inj_onI)
  obtain qs where R: "buddy_rep lo hi whole fl qs D" using assms by (auto simp: buddy_inv_def)
  note h = buddy_inv_facts [OF assms]
  let ?B = "{(i, q). i \<le> hi - lo \<and> q < 2 ^ (hi - lo - i)}"
  fix b c assume m: "b \<in> ?B" "c \<in> ?B" and e: "blk lo whole b = blk lo whole c"
  obtain i q j r where b: "b = (i, q)" "c = (j, r)" by (cases b, cases c)
  have bi: "i \<le> hi - lo" "q < 2 ^ (hi - lo - i)" and bj: "j \<le> hi - lo" "r < 2 ^ (hi - lo - j)"
    using m b by auto
  have "(2::u64) ^ (lo + i) = 2 ^ (lo + j)"
    using e b by (metis blk_simps(1))
  moreover have "lo + i < 64" "lo + j < 64" using h(1,2) bi(1) bj(1) by linarith+
  ultimately have "i = j" using word_pow_le [of "lo + i" "lo + j"] word_pow_le [of "lo + j" "lo + i"]
    by simp
  moreover have "(of_nat (q * 2 ^ (lo + i)) :: u64) = of_nat (r * 2 ^ (lo + j))"
    using e b by (metis add_left_cancel blk_simps(2))
  then have "q * 2 ^ (lo + i) = r * 2 ^ (lo + j)"
    using of_nat_u64_inject [OF buddy_rep_off(2) [OF R bi] buddy_rep_off(2) [OF R bj]] by blast
  ultimately show "b = c" using b by simp
qed

lemma blk_inj:
  assumes "buddy_inv lo hi whole fl D"
  shows "inj_on (blk lo whole) D"
  by (rule inj_on_subset [OF blk_inj_bounded [OF assms]]) (auto dest: buddy_inv_bound [OF assms])

lemma blk_image_inj:
  assumes "buddy_inv lo hi whole fl D" and "buddy_inv lo hi whole fl' D'"
    and "blk lo whole ` D = blk lo whole ` D'"
  shows "D = D'"
proof -
  let ?B = "{(i, q). i \<le> hi - lo \<and> q < 2 ^ (hi - lo - i)}"
  have "D \<subseteq> ?B" and "D' \<subseteq> ?B"
    by (auto dest: buddy_inv_bound [OF assms(1)] buddy_inv_bound [OF assms(2)])
  then show ?thesis using inj_on_image_eq_iff [OF blk_inj_bounded [OF assms(1)]] assms(3) by blast
qed

lemma buddy_reach_inv:
  assumes "buddy_reach lo hi whole fl L" and "lo \<le> hi" "hi < 64" "ub_size whole = 2 ^ hi"
  shows "\<exists>D. buddy_inv lo hi whole fl D \<and> L = blk lo whole ` D"
  using assms(1)
proof (induction rule: buddy_reach.induct)
  case (seeded fl)
  then show ?case using buddy_seed_inv [OF assms(2-4)] by auto
next
  case (allocated fl L sz b fl')
  then obtain D where D: "buddy_inv lo hi whole fl D" "L = blk lo whole ` D" by blast
  from buddy_allocate_cases [OF D(1) refl, of sz] allocated.hyps(2)
  show ?case using D(2) by (elim disjE) (auto intro: exI [of _ "insert _ D"])
next
  case (released fl L b fl')
  then obtain D where D: "buddy_inv lo hi whole fl D" "L = blk lo whole ` D" by blast
  then obtain d where d: "d \<in> D" "b = blk lo whole d" using released.hyps(2) by blast
  obtain i q where iq: "d = (i, q)" by (cases d)
  have "buddy_inv lo hi whole fl (insert (i, q) (D - {(i, q)}))"
    using D d iq by (simp add: insert_absorb)
  from buddy_deallocate_ok [OF this] released.hyps(3) d iq
  have "buddy_inv lo hi whole fl' (D - {d})" by simp
  moreover have "L - {b} = blk lo whole ` (D - {d})"
    using blk_inj [OF D(1)] D(2) d by (auto simp: inj_on_def)
  ultimately show ?case by blast
qed

text \<open>The bytes of a buffer.\<close>

definition bytes_of :: "UntypedBuffer \<Rightarrow> nat set" where
  "bytes_of b = {unat (getPhysAddr b) ..< unat (getPhysAddr b) + unat (ub_size b)}"

lemma bytes_of_block:
  assumes I: "buddy_inv lo hi whole fl D" and b: "i \<le> hi - lo" "q < 2 ^ (hi - lo - i)"
    and fit: "unat (getPhysAddr whole) + 2 ^ hi \<le> 2 ^ 64"
  shows "bytes_of (blk lo whole (i, q)) =
    {unat (getPhysAddr whole) + q * 2 ^ (lo + i) ..<
     unat (getPhysAddr whole) + q * 2 ^ (lo + i) + 2 ^ (lo + i)}"
    and "q * 2 ^ (lo + i) + 2 ^ (lo + i) \<le> 2 ^ hi" and "lo + i \<le> hi"
    and "unat (getPhysAddr (blk lo whole (i, q))) = unat (getPhysAddr whole) + q * 2 ^ (lo + i)"
proof -
  obtain qs where R: "buddy_rep lo hi whole fl qs D" using I by (auto simp: buddy_inv_def)
  note h = buddy_inv_facts [OF I]
  note off = buddy_rep_off [OF R b]
  show "q * 2 ^ (lo + i) + 2 ^ (lo + i) \<le> 2 ^ hi" by (rule off(1))
  show "lo + i \<le> hi" using b h by simp
  have "unat (getPhysAddr whole) + q * 2 ^ (lo + i) < 2 ^ 64"
    using off(1) fit zero_less_power [of "2::nat" "lo + i"] by linarith
  then have a: "unat (getPhysAddr whole + of_nat (q * 2 ^ (lo + i))) =
      unat (getPhysAddr whole) + q * 2 ^ (lo + i)"
    using unat_of_nat_u64 [OF off(2)] by (subst unat_add_lem [THEN iffD1]) simp_all
  then show "unat (getPhysAddr (blk lo whole (i, q))) = unat (getPhysAddr whole) + q * 2 ^ (lo + i)"
    by (simp only: blk_simps)
  have "unat ((2::u64) ^ (lo + i)) = 2 ^ (lo + i)"
    using b h by (simp add: unat_pow2)
  with a show "bytes_of (blk lo whole (i, q)) =
      {unat (getPhysAddr whole) + q * 2 ^ (lo + i) ..<
       unat (getPhysAddr whole) + q * 2 ^ (lo + i) + 2 ^ (lo + i)}"
    by (simp only: bytes_of_def blk_simps)
qed

lemma covers_byte:
  assumes I: "buddy_inv lo hi whole fl D" and b: "i \<le> hi - lo" "q < 2 ^ (hi - lo - i)"
    and fit: "unat (getPhysAddr whole) + 2 ^ hi \<le> 2 ^ 64" and "covers x (i, q)"
  shows "unat (getPhysAddr whole) + x * 2 ^ lo \<in> bytes_of (blk lo whole (i, q))"
proof -
  have "q * 2 ^ i \<le> x" "x < Suc q * 2 ^ i"
    using assms(5) dividend_less_div_times [of "2 ^ i" x] by (auto simp: covers_def)
  then have "q * 2 ^ i * 2 ^ lo \<le> x * 2 ^ lo" "x * 2 ^ lo < Suc q * 2 ^ i * 2 ^ lo"
    by (simp_all only: mult_le_mono1 mult_less_cancel2 zero_less_power zero_less_numeral simp_thms)
  then show ?thesis
    unfolding bytes_of_block(1) [OF I b fit] by (simp add: power_add algebra_simps)
qed

lemma blk_disjoint:
  assumes I: "buddy_inv lo hi whole fl D" and m: "d \<in> D" "e \<in> D" and "d \<noteq> e"
    and fit: "unat (getPhysAddr whole) + 2 ^ hi \<le> 2 ^ 64"
  shows "bytes_of (blk lo whole d) \<inter> bytes_of (blk lo whole e) = {}"
proof (rule equals0I)
  obtain qs where R: "buddy_rep lo hi whole fl qs D" using I by (auto simp: buddy_inv_def)
  obtain i q j r where ij: "d = (i, q)" "e = (j, r)" by (cases d, cases e)
  fix y assume y: "y \<in> bytes_of (blk lo whole d) \<inter> bytes_of (blk lo whole e)"
  let ?z = "y - unat (getPhysAddr whole)"
  have in_blk: "covers (?z div 2 ^ lo) (k, p)"
    if "(k, p) \<in> D" and yk: "y \<in> bytes_of (blk lo whole (k, p))" for k p
  proof -
    have "p * 2 ^ (lo + k) \<le> ?z" "?z < p * 2 ^ (lo + k) + 2 ^ (lo + k)"
      using yk bytes_of_block(1) [OF I buddy_inv_bound [OF I that(1)] fit] by auto
    then have "?z div 2 ^ (lo + k) = p" by (intro div_nat_eqI) (simp_all add: algebra_simps)
    then show ?thesis by (simp add: covers_def power_add div_mult2_eq)
  qed
  have "d = e"
    using buddy_wf_disjoint [OF buddy_rep_wf [OF R], of d e "?z div 2 ^ lo"] m ij y in_blk by blast
  then show False using assms(4) by simp
qed

lemma blk_inside:
  assumes I: "buddy_inv lo hi whole fl D" and m: "d \<in> D"
    and fit: "unat (getPhysAddr whole) + 2 ^ hi \<le> 2 ^ 64"
  shows "bytes_of (blk lo whole d) \<subseteq> bytes_of whole"
    and "\<exists>k. lo \<le> k \<and> k \<le> hi \<and> ub_size (blk lo whole d) = 2 ^ k \<and>
           2 ^ k dvd unat (getPhysAddr (blk lo whole d)) - unat (getPhysAddr whole)"
proof -
  obtain i q where d: "d = (i, q)" by (cases d)
  note b = bytes_of_block [OF I buddy_inv_bound [OF I m [unfolded d]] fit]
  have w: "bytes_of whole = {unat (getPhysAddr whole) ..< unat (getPhysAddr whole) + 2 ^ hi}"
    using buddy_inv_facts [OF I] by (simp add: bytes_of_def unat_pow2)
  show "bytes_of (blk lo whole d) \<subseteq> bytes_of whole"
    unfolding d b(1) w using b(2) by auto
  show "\<exists>k. lo \<le> k \<and> k \<le> hi \<and> ub_size (blk lo whole d) = 2 ^ k \<and>
      2 ^ k dvd unat (getPhysAddr (blk lo whole d)) - unat (getPhysAddr whole)"
    unfolding d b(4) using b(3) by (intro exI [of _ "lo + i"]) simp
qed

lemma blk_frees:
  assumes "buddy_rep lo hi whole fl qs D"
  shows "set (fl i) = (\<lambda>q. blk lo whole (i, q)) ` {q. (i, q) \<in> frees qs}"
  using assms by (auto simp: buddy_rep_def frees_def)

lemma buddy_inv_canonical:
  assumes "buddy_inv lo hi whole fl D" and "buddy_inv lo hi whole fl' D"
  shows "set (fl i) = set (fl' i)"
proof -
  obtain qs qs' where R: "buddy_rep lo hi whole fl qs D" "buddy_rep lo hi whole fl' qs' D"
    using assms by (auto simp: buddy_inv_def)
  have "frees qs = frees qs'"
    by (rule buddy_wf_canonical [OF buddy_rep_wf [OF R(1)] buddy_rep_wf [OF R(2)]])
  then show ?thesis by (simp only: blk_frees [OF R(1)] blk_frees [OF R(2)])
qed

section \<open>Properties of a superblock\<close>

text \<open>
  The size arguments of a superblock: \<open>2 ^ hi\<close> bytes, inside the 64-bit address space.
\<close>

definition superblock_ok :: "nat \<Rightarrow> nat \<Rightarrow> UntypedBuffer \<Rightarrow> bool" where
  "superblock_ok lo hi whole \<longleftrightarrow> lo \<le> hi \<and> hi < 64 \<and> ub_size whole = 2 ^ hi \<and>
     unat (getPhysAddr whole) + 2 ^ hi \<le> 2 ^ 64"

lemma superblock_reach:
  assumes "superblock_ok lo hi whole" and "buddy_reach lo hi whole fl L"
  obtains D where "buddy_inv lo hi whole fl D" and "L = blk lo whole ` D"
  using buddy_reach_inv [OF assms(2)] assms(1) by (auto simp: superblock_ok_def)

text \<open>The demonstration superblock: one medium superblock of 2 MiB, two halves handed out.\<close>

definition demo_whole :: UntypedBuffer where
  "demo_whole = whole_buffer
     \<lparr>vb_id = 0, vb_type = Ddr, vb_dir = Bidirectional, vb_arg = 0, vb_phys = 0x60000000,
      vb_size = 0x200000\<rparr> 0xFFFFFFFFFFFFFFFF 0"

definition demo_low :: UntypedBuffer where
  "demo_low = slice_buffer demo_whole 0x100000 0"

definition demo_high :: UntypedBuffer where
  "demo_high = slice_buffer demo_whole 0x100000 0x100000"

lemma demo_index: "sizeToIndex 12 0x100000 = 8" "sizeToIndex 12 0x200000 = 9"
  using sizeToIndex_pow [of 12 20] sizeToIndex_pow [of 12 21] by simp_all

lemmas demo_buffer_defs = demo_whole_def demo_low_def demo_high_def whole_buffer_def slice_buffer_def

lemma demo_superblock: "superblock_ok 12 21 demo_whole"
  by (simp add: superblock_ok_def demo_buffer_defs getPhysAddr_def)

lemma demo_seed: "buddy_seed 12 21 demo_whole (\<lambda>_. []) = Inr ((\<lambda>_. [])(9 := [demo_whole]))"
  by (simp add: buddy_seed_def demo_buffer_defs demo_index kNumBuckets_def)

lemma buddy_split_same: "buddy_split lo i i b fl = (b, fl)"
  by (cases i) simp_all

lemma demo_split:
  "buddy_split 12 8 9 b fl =
     (slice_buffer b 0x100000 0, fl(8 := fl 8 @ [slice_buffer b 0x100000 0x100000]))"
  using buddy_split.simps(2) [of 12 8 8 b fl] by (simp add: buddy_split_same Let_def)

lemma demo_alloc1:
  "buddy_allocate 12 21 0x100000 ((\<lambda>_. [])(9 := [demo_whole])) =
     Inr (demo_low, (\<lambda>_. [])(9 := [], 8 := [demo_high]))"
  by (simp add: buddy_allocate_def demo_index kNumBuckets_def upt_rec [of 8] upt_rec [of 9] demo_split
      demo_low_def demo_high_def)

lemma demo_reach1: "buddy_reach 12 21 demo_whole ((\<lambda>_. [])(9 := [], 8 := [demo_high])) {demo_low}"
  using buddy_reach.allocated [OF buddy_reach.seeded [OF demo_seed] demo_alloc1] by simp

lemma demo_alloc2:
  "buddy_allocate 12 21 0x100000 ((\<lambda>_. [])(9 := [], 8 := [demo_high])) =
     Inr (demo_high, (\<lambda>_. [])(9 := [], 8 := []))"
  by (simp add: buddy_allocate_def demo_index kNumBuckets_def upt_rec [of 8] buddy_split_same)

lemma demo_reach2:
  "buddy_reach 12 21 demo_whole ((\<lambda>_. [])(9 := [], 8 := [])) {demo_high, demo_low}"
  using buddy_reach.allocated [OF demo_reach1 demo_alloc2] by simp

lemma demo_release:
  "buddy_deallocate 12 21 demo_whole demo_low ((\<lambda>_. [])(9 := [], 8 := [demo_high])) =
     Inr ((\<lambda>_. [])(9 := [demo_whole], 8 := []))"
  by (simp add: buddy_deallocate_def demo_buffer_defs demo_index kNumBuckets_def getPhysAddr_def
      swap_pop_def fun_upd_twist)

lemma demo_distinct: "demo_high \<noteq> demo_low"
  by (simp add: demo_buffer_defs)

lemma demo_bytes: "bytes_of demo_high = {0x60100000..<0x60200000}" "bytes_of demo_low = {0x60000000..<0x60100000}"
  by (simp_all add: bytes_of_def demo_buffer_defs getPhysAddr_def)

text \<open>
  C8: Whatever sequence of allocations and releases a superblock has served, the buffers handed
  out and not yet released lie inside it, are powers of two aligned to their size, and no two of
  them share a byte.
\<close>

theorem buddy_blocks_disjoint:
  assumes "superblock_ok lo hi whole" and "buddy_reach lo hi whole fl L"
    and "b \<in> L" and "c \<in> L" and "b \<noteq> c"
  shows "bytes_of b \<inter> bytes_of c = {} \<and> bytes_of b \<subseteq> bytes_of whole \<and>
    (\<exists>k. lo \<le> k \<and> k \<le> hi \<and> ub_size b = 2 ^ k \<and>
       2 ^ k dvd unat (getPhysAddr b) - unat (getPhysAddr whole))"
proof -
  have fit: "unat (getPhysAddr whole) + 2 ^ hi \<le> 2 ^ 64"
    using assms(1) by (simp add: superblock_ok_def)
  obtain D where D: "buddy_inv lo hi whole fl D" "L = blk lo whole ` D"
    by (rule superblock_reach [OF assms(1,2)])
  then obtain d e where de: "d \<in> D" "e \<in> D" "d \<noteq> e" "b = blk lo whole d" "c = blk lo whole e"
    using assms(3-5) by blast
  show ?thesis
    unfolding de(4,5)
    using blk_disjoint [OF D(1) de(1-3) fit] blk_inside [OF D(1) de(1) fit] by blast
qed

theorem buddy_blocks_disjoint_witness:
  "bytes_of demo_high \<inter> bytes_of demo_low = {} \<and> demo_high \<noteq> demo_low \<and>
   bytes_of demo_high = {0x60100000..<0x60200000}"
  using buddy_blocks_disjoint [OF demo_superblock demo_reach2, of demo_high demo_low]
  by (simp add: demo_distinct demo_bytes)

lemma buddy_allocate_success:
  assumes I: "buddy_inv lo hi whole fl' (insert (index, q) D)" and "(index, q) \<notin> D"
    and fit: "unat (getPhysAddr whole) + 2 ^ hi \<le> 2 ^ 64" and idx: "index = sizeToIndex lo sz"
  shows "blk lo whole (index, q) \<notin> blk lo whole ` D"
    and "c \<in> blk lo whole ` D \<Longrightarrow> bytes_of (blk lo whole (index, q)) \<inter> bytes_of c = {}"
    and "unat sz \<le> unat (ub_size (blk lo whole (index, q)))"
    and "unat (ub_size (blk lo whole (index, q))) = 2 ^ lo \<or>
         unat (ub_size (blk lo whole (index, q))) < 2 * unat sz"
proof -
  note h = buddy_inv_facts [OF I]
  have le: "lo + index < 64" using buddy_inv_bound(1) [OF I, of index q] h by auto
  show "blk lo whole (index, q) \<notin> blk lo whole ` D"
    using blk_inj [OF I] assms(2) by (auto simp: inj_on_def)
  show "bytes_of (blk lo whole (index, q)) \<inter> bytes_of c = {}" if c: "c \<in> blk lo whole ` D"
  proof -
    obtain d where d: "d \<in> D" "c = blk lo whole d" using c by blast
    then have "d \<noteq> (index, q)" using assms(2) by blast
    then show ?thesis
      unfolding d(2) using d(1) by (intro blk_disjoint [OF I _ _ _ fit]) auto
  qed
  show "unat sz \<le> unat (ub_size (blk lo whole (index, q)))"
    using sizeToIndex_fits [of lo sz] h le by (simp add: unat_pow2 idx)
  show "unat (ub_size (blk lo whole (index, q))) = 2 ^ lo \<or>
      unat (ub_size (blk lo whole (index, q))) < 2 * unat sz"
  proof (cases index)
    case (Suc i)
    then have "\<not> unat sz \<le> 2 ^ (lo + i)" using sizeToIndex_tight [of lo sz i] h idx by auto
    moreover have "unat ((2::u64) ^ (lo + Suc i)) = 2 * 2 ^ (lo + i)"
      using le Suc unat_pow2 [of "lo + Suc i", where 'a = 64] by simp
    ultimately show ?thesis unfolding Suc blk_simps by linarith
  qed (use le in \<open>simp add: unat_pow2\<close>)
qed

lemma buddy_allocate_failure:
  assumes I: "buddy_inv lo hi whole fl D" and "buddy_allocate lo hi sz fl = Inl bad_alloc"
    and fit: "unat (getPhysAddr whole) + 2 ^ hi \<le> 2 ^ 64"
    and k: "lo \<le> k" "k \<le> hi" "unat sz \<le> 2 ^ k" "p < 2 ^ (hi - k)"
  shows "\<exists>c\<in>blk lo whole ` D. bytes_of c \<inter> bytes_of (slice_buffer whole (2 ^ k) (of_nat (p * 2 ^ k))) \<noteq> {}"
proof -
  note h = buddy_inv_facts [OF I]
  have B: "slice_buffer whole (2 ^ k) (of_nat (p * 2 ^ k)) = blk lo whole (k - lo, p)"
    using k(1) by (simp add: blk_def)
  have bd: "k - lo \<le> hi - lo" "p < 2 ^ (hi - lo - (k - lo))" using k by auto
  have "sizeToIndex lo sz \<le> k - lo"
    using sizeToIndex_tight [of lo sz "k - lo"] k h by simp
  then obtain d x where d: "d \<in> D" "covers x (k - lo, p)" "covers x d"
    using buddy_allocate_complete [OF I _ bd] assms(2) by blast
  obtain i q where iq: "d = (i, q)" by (cases d)
  have "unat (getPhysAddr whole) + x * 2 ^ lo \<in> bytes_of (blk lo whole d)"
    using covers_byte [OF I buddy_inv_bound [OF I] fit] d iq by blast
  moreover have "unat (getPhysAddr whole) + x * 2 ^ lo \<in> bytes_of (blk lo whole (k - lo, p))"
    by (rule covers_byte [OF I bd fit d(2)])
  ultimately show ?thesis unfolding B using d(1) by blast
qed

text \<open>
  C27: An allocation that succeeds returns a buffer no live buffer overlaps, at least as large as
  the request and, above the minimum block size, less than twice as large. It fails only with
  \<open>bad_alloc\<close>, and only when every aligned block of a sufficient size meets a live buffer:
  the superblock never refuses a request because of fragmentation of its own making.
\<close>

theorem buddy_allocate_spec:
  assumes "superblock_ok lo hi whole" and "buddy_reach lo hi whole fl L"
  shows "case buddy_allocate lo hi sz fl of
      Inr (b, fl') \<Rightarrow>
        b \<notin> L \<and> (\<forall>c\<in>L. bytes_of b \<inter> bytes_of c = {}) \<and>
        unat sz \<le> unat (ub_size b) \<and> (unat (ub_size b) = 2 ^ lo \<or> unat (ub_size b) < 2 * unat sz)
    | Inl e \<Rightarrow>
        e = bad_alloc \<and>
        (\<forall>k p. lo \<le> k \<longrightarrow> k \<le> hi \<longrightarrow> unat sz \<le> 2 ^ k \<longrightarrow> p < 2 ^ (hi - k) \<longrightarrow>
           (\<exists>c\<in>L. bytes_of c \<inter> bytes_of (slice_buffer whole (2 ^ k) (of_nat (p * 2 ^ k))) \<noteq> {}))"
proof -
  have fit: "unat (getPhysAddr whole) + 2 ^ hi \<le> 2 ^ 64"
    using assms(1) by (simp add: superblock_ok_def)
  obtain D where D: "buddy_inv lo hi whole fl D" "L = blk lo whole ` D"
    by (rule superblock_reach [OF assms])
  from buddy_allocate_cases [OF D(1) refl, of sz] show ?thesis
  proof (elim disjE conjE exE)
    fix q fl'
    assume a: "buddy_allocate lo hi sz fl = Inr (blk lo whole (sizeToIndex lo sz, q), fl')"
      and i: "buddy_inv lo hi whole fl' (insert (sizeToIndex lo sz, q) D)" "(sizeToIndex lo sz, q) \<notin> D"
    show ?thesis
      unfolding a D(2) using buddy_allocate_success [OF i fit refl] by simp
  next
    assume a: "buddy_allocate lo hi sz fl = Inl bad_alloc"
    show ?thesis
      unfolding a D(2) using buddy_allocate_failure [OF D(1) a fit] by simp
  qed
qed

theorem buddy_allocate_spec_witness:
  "buddy_allocate 12 21 0x100000 ((\<lambda>_. [])(9 := [], 8 := [demo_high])) =
     Inr (demo_high, (\<lambda>_. [])(9 := [], 8 := [])) \<and>
   bytes_of demo_high \<inter> bytes_of demo_low = {} \<and> 0x100000 \<le> unat (ub_size demo_high)"
  using buddy_allocate_spec [OF demo_superblock demo_reach1, where sz = "0x100000"]
  by (simp add: demo_alloc2)

text \<open>
  C28: Releasing a live buffer never throws, and afterwards the superblock reports itself free
  exactly when that buffer was the last live one, so a superblock is erased neither too early
  nor too late.
\<close>

theorem buddy_release_spec:
  assumes "superblock_ok lo hi whole" and "buddy_reach lo hi whole fl L" and "b \<in> L"
  shows "\<exists>fl'. buddy_deallocate lo hi whole b fl = Inr fl' \<and>
           (buddy_isFree lo whole fl' \<longleftrightarrow> L = {b}) \<and> \<not> buddy_isFree lo whole fl"
proof -
  obtain D where D: "buddy_inv lo hi whole fl D" "L = blk lo whole ` D"
    by (rule superblock_reach [OF assms(1,2)])
  then obtain i q where d: "(i, q) \<in> D" "b = blk lo whole (i, q)" using assms(3) by auto
  have ins: "insert (i, q) (D - {(i, q)}) = D" using d by blast
  obtain fl' where fl': "buddy_deallocate lo hi whole b fl = Inr fl'"
    "buddy_inv lo hi whole fl' (D - {(i, q)})"
    using buddy_deallocate_ok [of lo hi whole fl i q "D - {(i, q)}"] ins D(1) d(2) by auto
  have "D - {(i, q)} = {} \<longleftrightarrow> L = {b}"
    using blk_inj [OF D(1)] D(2) d by (auto simp: inj_on_def)
  then show ?thesis
    using fl' buddy_isFree_iff [OF fl'(2)] buddy_isFree_iff [OF D(1)] d(1) by auto
qed

theorem buddy_release_spec_witness:
  "\<exists>fl'. buddy_deallocate 12 21 demo_whole demo_low ((\<lambda>_. [])(9 := [], 8 := [demo_high])) = Inr fl' \<and>
     buddy_isFree 12 demo_whole fl'"
  using buddy_release_spec [OF demo_superblock demo_reach1, of demo_low] by auto

text \<open>
  C29: The free blocks of a superblock depend only on what is live, not on the order of the
  allocations and releases that led there: coalescing undoes splitting completely.
\<close>

theorem buddy_history_independent:
  assumes "superblock_ok lo hi whole"
    and "buddy_reach lo hi whole fl L" and "buddy_reach lo hi whole fl' L"
  shows "set (fl i) = set (fl' i)"
proof -
  obtain D where D: "buddy_inv lo hi whole fl D" "L = blk lo whole ` D"
    by (rule superblock_reach [OF assms(1,2)])
  obtain D' where D': "buddy_inv lo hi whole fl' D'" "L = blk lo whole ` D'"
    by (rule superblock_reach [OF assms(1,3)])
  have "D = D'"
    using blk_image_inj [OF D(1) D'(1)] D(2) D'(2) by simp
  then show ?thesis using buddy_inv_canonical D(1) D'(1) by blast
qed

theorem buddy_history_independent_witness:
  "\<exists>fl. buddy_deallocate 12 21 demo_whole demo_low ((\<lambda>_. [])(9 := [], 8 := [demo_high])) = Inr fl \<and>
     set (fl 9) = {demo_whole}"
proof -
  obtain fl where fl:
    "buddy_deallocate 12 21 demo_whole demo_low ((\<lambda>_. [])(9 := [], 8 := [demo_high])) = Inr fl"
    using demo_release by blast
  have "buddy_reach 12 21 demo_whole fl {}"
    using buddy_reach.released [OF demo_reach1 _ fl] by simp
  from buddy_history_independent [OF demo_superblock this buddy_reach.seeded [OF demo_seed], of 9]
  show ?thesis using fl by simp
qed


end
