(* ===== verification/Vrtd_Config.thy ===== *)
theory Vrtd_Config
  imports Slash_Prelude
begin

text \<open>
  The daemon's configuration, from \<^verbatim>\<open>vrt/vrtd/src/config.h\<close> and \<^verbatim>\<open>config.c\<close>: the data model of roles,
  users and groups, the handlers of the INI sections, the files with their includes, and the
  merging of roles.

  What the code takes from outside is the argument \<open>fs\<close>: \<open>realpath\<close>, \<open>glob\<close>, the passwd and group
  databases, and inih, represented for a file by the section/key/value triples it passes to the
  callback (inih goes on after a callback reports an error and returns the line number in the
  end). Memory allocation succeeds. A handler returns its success flag with the updated state,
  because inih continues on the state a failing handler leaves. The recursion through includes
  carries a fuel argument; \<open>parse_file_returns\<close> shows how much is enough.
\<close>

section \<open>Data model\<close>

record device_policy =
  dp_bdf :: string
  dp_bar :: bool
  dp_qdma :: bool
  dp_buffer :: bool
  dp_design_write :: bool
  dp_cfgmem_program :: bool
  dp_clock :: bool
  dp_pcie_hotplug :: bool
  dp_raw_mem_access :: bool

record role =
  role_name :: string
  device_policies :: "device_policy list"
  role_query :: bool

record user_config =
  uc_name :: string
  uc_uid :: u32
  uc_role_names :: "string list"
  uc_roles :: "role list"

record group_config =
  gc_name :: string
  gc_gid :: u32
  gc_role_names :: "string list"
  gc_roles :: "role list"

record config =
  cfg_roles :: "role list"
  default_user :: user_config
  cfg_users :: "user_config list"
  cfg_groups :: "group_config list"
  mock_device :: bool

record config_parse_state =
  ps_config :: config
  visited_files :: "string list"

datatype ini_result =
    Ini_entries "(string \<times> string \<times> string) list" bool
  | Ini_open_failed
  | Ini_no_memory
  | Ini_unknown

datatype glob_result = Glob_matches "string list" | Glob_nomatch | Glob_failed

record fs =
  realpath :: "string \<Rightarrow> string option"
  ini_file :: "string \<Rightarrow> ini_result"
  glob_files :: "string \<Rightarrow> glob_result"
  getpwnam :: "string \<Rightarrow> u32 option"
  getgrnam :: "string \<Rightarrow> u32 option"

section \<open>Strings\<close>

definition is_space :: "char \<Rightarrow> bool" where
  "is_space c \<longleftrightarrow> c \<in> {CHR '' '', CHR 0x09, CHR 0x0A, CHR 0x0B, CHR 0x0C, CHR 0x0D}"

definition to_lower :: "char \<Rightarrow> char" where
  "to_lower c = (let n = of_char c :: nat in if 65 \<le> n \<and> n \<le> 90 then char_of (n + 32) else c)"

definition string_to_bool :: "string \<Rightarrow> bool" where
  "string_to_bool s =
     (let t = rev (dropWhile is_space (rev (dropWhile is_space s))) in
      if t = [] then False
      else if length t = 1 then hd t = CHR ''1'' \<or> hd t = CHR ''y'' \<or> hd t = CHR ''Y''
      else if length t = 3 \<and> map to_lower t = ''yes'' then True
      else if length t = 4 \<and> map to_lower t = ''true'' then True
      else False)"

text \<open>\<open>strchr\<close>: the text before and after the first occurrence; \<open>strrchr\<close>: of the last one.\<close>

fun split_first :: "char \<Rightarrow> string \<Rightarrow> (string \<times> string) option" where
  "split_first c [] = None"
| "split_first c (x # xs) =
     (if x = c then Some ([], xs)
      else map_option (\<lambda>(a, b). (x # a, b)) (split_first c xs))"

definition split_last :: "char \<Rightarrow> string \<Rightarrow> (string \<times> string) option" where
  "split_last c s = map_option (\<lambda>(a, b). (rev b, rev a)) (split_first c (rev s))"

definition normalize_bdf :: "string \<Rightarrow> nat \<Rightarrow> string option" where
  "normalize_bdf input out_len =
     (if input = ''any'' then (if out_len < 4 then None else Some ''any'')
      else if length input \<ge> 64 then None
      else let buf = (case split_last CHR ''.'' input of None \<Rightarrow> input | Some (b, _) \<Rightarrow> b);
               colons = length (filter (\<lambda>c. c = CHR '':'') buf)
           in
        if colons = 1 then
          (if length (''0000:'' @ buf) \<ge> out_len then None else Some (''0000:'' @ buf))
        else if colons = 2 then
          (if length buf \<ge> out_len then None else Some buf)
        else None)"

section \<open>Roles and device policies\<close>

definition new_role :: "string \<Rightarrow> role" where
  "new_role nm = \<lparr>role_name = nm, device_policies = [], role_query = False\<rparr>"

definition new_device_policy :: "string \<Rightarrow> device_policy" where
  "new_device_policy bdf =
     \<lparr>dp_bdf = bdf, dp_bar = False, dp_qdma = False, dp_buffer = False, dp_design_write = False,
      dp_cfgmem_program = False, dp_clock = False, dp_pcie_hotplug = False,
      dp_raw_mem_access = False\<rparr>"

text \<open>Update the first element that satisfies \<open>P\<close>; \<open>None\<close> when there is none.\<close>

fun update_first :: "('a \<Rightarrow> bool) \<Rightarrow> ('a \<Rightarrow> bool \<times> 'a) \<Rightarrow> 'a list \<Rightarrow> (bool \<times> 'a list) option" where
  "update_first P f [] = None"
| "update_first P f (x # xs) =
     (if P x then (case f x of (r, x') \<Rightarrow> Some (r, x' # xs))
      else map_option (\<lambda>(r, ys). (r, x # ys)) (update_first P f xs))"

definition role_add_value :: "role \<Rightarrow> string \<Rightarrow> string \<Rightarrow> bool \<times> role" where
  "role_add_value r name value =
     (if name = ''query-devices'' then
        if value = ''yes'' then (True, r\<lparr>role_query := True\<rparr>)
        else if value = ''no'' then (True, r\<lparr>role_query := False\<rparr>)
        else (False, r)
      else (False, r))"

definition yes_no :: "string \<Rightarrow> bool option" where
  "yes_no value = (if value = ''yes'' then Some True else if value = ''no'' then Some False else None)"

definition flag_value ::
  "string \<Rightarrow> (bool \<Rightarrow> device_policy \<Rightarrow> device_policy) \<Rightarrow> device_policy \<Rightarrow> bool \<times> device_policy" where
  "flag_value value upd dp = (case yes_no value of Some b \<Rightarrow> (True, upd b dp) | None \<Rightarrow> (False, dp))"

definition device_policy_add_value ::
  "device_policy \<Rightarrow> string \<Rightarrow> string \<Rightarrow> bool \<times> device_policy" where
  "device_policy_add_value dp name value =
     (if name = ''bar-access'' then
        (if value = ''full'' then (True, dp\<lparr>dp_bar := True\<rparr>) else (False, dp))
      else if name = ''qdma'' then flag_value value (\<lambda>b d. d\<lparr>dp_qdma := b\<rparr>) dp
      else if name = ''buffer'' then flag_value value (\<lambda>b d. d\<lparr>dp_buffer := b\<rparr>) dp
      else if name = ''design-write'' then flag_value value (\<lambda>b d. d\<lparr>dp_design_write := b\<rparr>) dp
      else if name = ''cfgmem-program'' then flag_value value (\<lambda>b d. d\<lparr>dp_cfgmem_program := b\<rparr>) dp
      else if name = ''clock'' then flag_value value (\<lambda>b d. d\<lparr>dp_clock := b\<rparr>) dp
      else if name = ''pcie-hotplug'' then flag_value value (\<lambda>b d. d\<lparr>dp_pcie_hotplug := b\<rparr>) dp
      else if name = ''raw-mem-access'' then flag_value value (\<lambda>b d. d\<lparr>dp_raw_mem_access := b\<rparr>) dp
      else (False, dp))"

text \<open>Find or create the policy of a BDF and apply \<open>f\<close> to it.\<close>

definition with_device_policy ::
  "string \<Rightarrow> (device_policy \<Rightarrow> bool \<times> device_policy) \<Rightarrow> device_policy list \<Rightarrow> bool \<times> device_policy list" where
  "with_device_policy bdf f ps =
     (case update_first (\<lambda>p. dp_bdf p = bdf) f ps of
        Some r \<Rightarrow> r
      | None \<Rightarrow> (case f (new_device_policy bdf) of (r, p) \<Rightarrow> (r, ps @ [p])))"

definition role_find_and_add_value :: "config \<Rightarrow> string \<Rightarrow> string \<Rightarrow> string \<Rightarrow> bool \<times> config" where
  "role_find_and_add_value cfg objname name value =
     (case update_first (\<lambda>r. role_name r = objname) (\<lambda>r. role_add_value r name value) (cfg_roles cfg) of
        Some (good, rs) \<Rightarrow> (good, cfg\<lparr>cfg_roles := rs\<rparr>)
      | None \<Rightarrow>
          (case role_add_value (new_role objname) name value of
             (True, r) \<Rightarrow> (True, cfg\<lparr>cfg_roles := cfg_roles cfg @ [r]\<rparr>)
           | (False, _) \<Rightarrow> (False, cfg)))"

text \<open>Find or create the role of a name and apply \<open>f\<close> to it.\<close>

definition with_role :: "string \<Rightarrow> (role \<Rightarrow> bool \<times> role) \<Rightarrow> config \<Rightarrow> bool \<times> config" where
  "with_role nm f cfg =
     (case update_first (\<lambda>r. role_name r = nm) f (cfg_roles cfg) of
        Some (good, rs) \<Rightarrow> (good, cfg\<lparr>cfg_roles := rs\<rparr>)
      | None \<Rightarrow> (case f (new_role nm) of (good, r) \<Rightarrow> (good, cfg\<lparr>cfg_roles := cfg_roles cfg @ [r]\<rparr>)))"

definition role_device_add_value :: "string \<Rightarrow> string \<Rightarrow> string \<Rightarrow> role \<Rightarrow> bool \<times> role" where
  "role_device_add_value dev_selector name value r =
     (case normalize_bdf dev_selector 32 of
        None \<Rightarrow> (False, r)
      | Some bdf \<Rightarrow>
          (case with_device_policy bdf (\<lambda>dp. device_policy_add_value dp name value) (device_policies r) of
             (good, ps) \<Rightarrow> (good, r\<lparr>device_policies := ps\<rparr>)))"

definition role_device_find_and_add_value ::
  "config \<Rightarrow> string \<Rightarrow> string \<Rightarrow> string \<Rightarrow> string \<Rightarrow> bool \<times> config" where
  "role_device_find_and_add_value cfg rname dev_selector name value =
     with_role rname (role_device_add_value dev_selector name value) cfg"

section \<open>Users and groups\<close>

definition user_add_value :: "user_config \<Rightarrow> string \<Rightarrow> string \<Rightarrow> bool \<times> user_config" where
  "user_add_value u name value =
     (if name = ''role'' then (True, u\<lparr>uc_role_names := uc_role_names u @ [value]\<rparr>) else (False, u))"

definition group_add_value :: "group_config \<Rightarrow> string \<Rightarrow> string \<Rightarrow> bool \<times> group_config" where
  "group_add_value g name value =
     (if name = ''role'' then (True, g\<lparr>gc_role_names := gc_role_names g @ [value]\<rparr>) else (False, g))"

definition user_find_and_add_value ::
  "fs \<Rightarrow> config \<Rightarrow> string \<Rightarrow> string \<Rightarrow> string \<Rightarrow> bool \<times> config" where
  "user_find_and_add_value fs cfg objname name value =
     (if objname = ''*'' then
        (case user_add_value (default_user cfg) name value of
           (good, u) \<Rightarrow> (good, cfg\<lparr>default_user := u\<rparr>))
      else
        case update_first (\<lambda>u. uc_name u = objname) (\<lambda>u. user_add_value u name value) (cfg_users cfg) of
          Some (good, us) \<Rightarrow> (good, cfg\<lparr>cfg_users := us\<rparr>)
        | None \<Rightarrow>
            (case getpwnam fs objname of
               None \<Rightarrow> (False, cfg)
             | Some uid \<Rightarrow>
                 (case user_add_value
                         \<lparr>uc_name = objname, uc_uid = uid, uc_role_names = [], uc_roles = []\<rparr> name value of
                    (True, u) \<Rightarrow> (True, cfg\<lparr>cfg_users := cfg_users cfg @ [u]\<rparr>)
                  | (False, _) \<Rightarrow> (False, cfg))))"

definition group_find_and_add_value ::
  "fs \<Rightarrow> config \<Rightarrow> string \<Rightarrow> string \<Rightarrow> string \<Rightarrow> bool \<times> config" where
  "group_find_and_add_value fs cfg objname name value =
     (case update_first (\<lambda>g. gc_name g = objname) (\<lambda>g. group_add_value g name value) (cfg_groups cfg) of
        Some (good, gs) \<Rightarrow> (good, cfg\<lparr>cfg_groups := gs\<rparr>)
      | None \<Rightarrow>
          (case getgrnam fs objname of
             None \<Rightarrow> (False, cfg)
           | Some gid \<Rightarrow>
               (case group_add_value
                       \<lparr>gc_name = objname, gc_gid = gid, gc_role_names = [], gc_roles = []\<rparr> name value of
                  (True, g) \<Rightarrow> (True, cfg\<lparr>cfg_groups := cfg_groups cfg @ [g]\<rparr>)
                | (False, _) \<Rightarrow> (False, cfg))))"

section \<open>Files\<close>

definition resolve_relative_pattern :: "config_parse_state \<Rightarrow> string \<Rightarrow> string" where
  "resolve_relative_pattern st pattern =
     (if (pattern \<noteq> [] \<and> hd pattern = CHR ''/'') \<or> visited_files st = [] then pattern
      else case split_last CHR ''/'' (last (visited_files st)) of
             None \<Rightarrow> pattern
           | Some (dir, _) \<Rightarrow> dir @ ''/'' @ pattern)"

type_synonym parser = "string \<Rightarrow> config_parse_state \<Rightarrow> (bool \<times> config_parse_state) option"

text \<open>\<open>parse\<close> stands for the recursive call of \<open>parse_file\<close>.\<close>

fun parse_all :: "parser \<Rightarrow> string list \<Rightarrow> parser" where
  "parse_all parse [] _ st = Some (True, st)"
| "parse_all parse (p # ps) pat st = do {
     (good, st) \<leftarrow> parse p st;
     if good then parse_all parse ps pat st else Some (False, st)
   }"

definition parse_file_glob :: "parser \<Rightarrow> fs \<Rightarrow> parser" where
  "parse_file_glob parse fs pattern st =
     (case glob_files fs (resolve_relative_pattern st pattern) of
        Glob_nomatch \<Rightarrow> Some (True, st)
      | Glob_failed \<Rightarrow> Some (True, st)
      | Glob_matches paths \<Rightarrow> parse_all parse paths pattern st)"

definition match_object :: "string \<Rightarrow> string \<Rightarrow> string option" where
  "match_object c sect =
     (case split_first CHR '':'' sect of
        None \<Rightarrow> None
      | Some (pre, objname) \<Rightarrow> if pre = c \<and> objname \<noteq> [] then Some objname else None)"

definition lift_config ::
  "config_parse_state \<Rightarrow> bool \<times> config \<Rightarrow> (bool \<times> config_parse_state) option" where
  "lift_config st r = Some (fst r, st\<lparr>ps_config := snd r\<rparr>)"

definition parse_role_section ::
  "config_parse_state \<Rightarrow> string \<Rightarrow> string \<Rightarrow> string \<Rightarrow> (bool \<times> config_parse_state) option" where
  "parse_role_section st objname name value =
     lift_config st
       (case split_first CHR '':'' objname of
          Some (rname, dev_selector) \<Rightarrow>
            role_device_find_and_add_value (ps_config st) rname dev_selector name value
        | None \<Rightarrow> role_find_and_add_value (ps_config st) objname name value)"

definition parse_config_callback ::
  "parser \<Rightarrow> fs \<Rightarrow> config_parse_state \<Rightarrow> string \<Rightarrow> string \<Rightarrow> string \<Rightarrow>
   (bool \<times> config_parse_state) option" where
  "parse_config_callback parse fs st sect name value =
     (if sect = '''' \<and> name = ''include'' then parse value st
      else if sect = '''' \<and> name = ''include-glob'' then parse_file_glob parse fs value st
      else if sect = '''' \<and> name = ''enable-mock-device'' then
        lift_config st (True, (ps_config st)\<lparr>mock_device := string_to_bool value\<rparr>)
      else case match_object ''role'' sect of
        Some objname \<Rightarrow> parse_role_section st objname name value
      | None \<Rightarrow>
      (case match_object ''user'' sect of
        Some objname \<Rightarrow> lift_config st (user_find_and_add_value fs (ps_config st) objname name value)
      | None \<Rightarrow>
      (case match_object ''group'' sect of
        Some objname \<Rightarrow> lift_config st (group_find_and_add_value fs (ps_config st) objname name value)
      | None \<Rightarrow> Some (True, st))))"

text \<open>inih: every entry reaches the callback; the result is whether none reported an error.\<close>

fun ini_run ::
  "parser \<Rightarrow> fs \<Rightarrow> (string \<times> string \<times> string) list \<Rightarrow> config_parse_state \<Rightarrow>
   (bool \<times> config_parse_state) option" where
  "ini_run parse fs [] st = Some (True, st)"
| "ini_run parse fs ((sect, name, value) # es) st = do {
     (good1, st) \<leftarrow> parse_config_callback parse fs st sect name value;
     (good2, st) \<leftarrow> ini_run parse fs es st;
     Some (good1 \<and> good2, st)
   }"

definition parse_file_unique :: "parser \<Rightarrow> fs \<Rightarrow> parser" where
  "parse_file_unique parse fs path st =
     (case ini_file fs path of
        Ini_entries es well_formed \<Rightarrow> do {
          (good, st) \<leftarrow> ini_run parse fs es st;
          Some (well_formed \<and> good, st)
        }
      | Ini_open_failed \<Rightarrow> Some (False, st)
      | Ini_no_memory \<Rightarrow> Some (False, st)
      | Ini_unknown \<Rightarrow> Some (True, st))"

primrec parse_file :: "nat \<Rightarrow> fs \<Rightarrow> parser" where
  "parse_file 0 fs path st = None"
| "parse_file (Suc n) fs path st =
     (case realpath fs path of
        None \<Rightarrow> Some (False, st)
      | Some full_path \<Rightarrow>
          if full_path \<in> set (visited_files st) then Some (True, st)
          else parse_file_unique (parse_file n fs) fs full_path
                 (st\<lparr>visited_files := visited_files st @ [full_path]\<rparr>))"

section \<open>Role assignment and loading\<close>

fun find_role :: "role list \<Rightarrow> string \<Rightarrow> role option" where
  "find_role [] nm = None"
| "find_role (r # rs) nm = (if nm = role_name r then Some r else find_role rs nm)"

definition resolve_roles :: "role list \<Rightarrow> string list \<Rightarrow> role list" where
  "resolve_roles rs names = List.map_filter (find_role rs) names"

definition assign_user_roles :: "config \<Rightarrow> user_config \<Rightarrow> user_config" where
  "assign_user_roles cfg u =
     u\<lparr>uc_roles := uc_roles u @ resolve_roles (cfg_roles cfg) (uc_role_names u)\<rparr>"

definition assign_users_roles :: "config \<Rightarrow> config" where
  "assign_users_roles cfg =
     cfg\<lparr>default_user := assign_user_roles cfg (default_user cfg),
         cfg_users := map (assign_user_roles cfg) (cfg_users cfg)\<rparr>"

definition assign_group_roles :: "config \<Rightarrow> group_config \<Rightarrow> group_config" where
  "assign_group_roles cfg g =
     g\<lparr>gc_roles := gc_roles g @ resolve_roles (cfg_roles cfg) (gc_role_names g)\<rparr>"

definition assign_groups_roles :: "config \<Rightarrow> config" where
  "assign_groups_roles cfg = cfg\<lparr>cfg_groups := map (assign_group_roles cfg) (cfg_groups cfg)\<rparr>"

definition empty_config :: config where
  "empty_config =
     \<lparr>cfg_roles = [],
      default_user = \<lparr>uc_name = ''*'', uc_uid = 0, uc_role_names = [], uc_roles = []\<rparr>,
      cfg_users = [], cfg_groups = [], mock_device = False\<rparr>"

definition config_path :: "string option \<Rightarrow> string" where
  "config_path env = (case env of Some p \<Rightarrow> if p = '''' then ''/etc/vrt/vrtd.conf'' else p
                      | None \<Rightarrow> ''/etc/vrt/vrtd.conf'')"

text \<open>\<open>None\<close>: out of fuel; \<open>Some None\<close>: the load failed.\<close>

definition config_load :: "nat \<Rightarrow> fs \<Rightarrow> string option \<Rightarrow> config option option" where
  "config_load n fs env = do {
     (good, st) \<leftarrow> parse_file n fs (config_path env) \<lparr>ps_config = empty_config, visited_files = []\<rparr>;
     Some (if good then Some (assign_groups_roles (assign_users_roles (ps_config st))) else None)
   }"

section \<open>Role merging\<close>

definition role_merge_new :: "string \<Rightarrow> role" where
  "role_merge_new nm = new_role nm"

definition merge_policy :: "device_policy \<Rightarrow> device_policy \<Rightarrow> device_policy" where
  "merge_policy src dst =
     dst\<lparr>dp_bar := dp_bar dst \<or> dp_bar src, dp_qdma := dp_qdma dst \<or> dp_qdma src,
         dp_buffer := dp_buffer dst \<or> dp_buffer src,
         dp_design_write := dp_design_write dst \<or> dp_design_write src,
         dp_cfgmem_program := dp_cfgmem_program dst \<or> dp_cfgmem_program src,
         dp_clock := dp_clock dst \<or> dp_clock src,
         dp_pcie_hotplug := dp_pcie_hotplug dst \<or> dp_pcie_hotplug src,
         dp_raw_mem_access := dp_raw_mem_access dst \<or> dp_raw_mem_access src\<rparr>"

fun merge_policies :: "device_policy list \<Rightarrow> device_policy list \<Rightarrow> device_policy list" where
  "merge_policies [] dst = dst"
| "merge_policies (src # srcs) dst =
     merge_policies srcs (snd (with_device_policy (dp_bdf src) (\<lambda>d. (True, merge_policy src d)) dst))"

definition role_merge_add_role :: "role \<Rightarrow> role \<Rightarrow> role" where
  "role_merge_add_role dst src =
     dst\<lparr>role_query := role_query dst \<or> role_query src,
         device_policies := merge_policies (device_policies src) (device_policies dst)\<rparr>"

fun role_merge_add_array :: "role \<Rightarrow> role list \<Rightarrow> role" where
  "role_merge_add_array dst [] = dst"
| "role_merge_add_array dst (r # rs) = role_merge_add_array (role_merge_add_role dst r) rs"

section \<open>Merging is a union\<close>

lemma update_first_None: "update_first P f xs = None \<longleftrightarrow> (\<forall>x\<in>set xs. \<not> P x)"
  by (induction xs) (auto split: prod.splits)

lemma update_first_Some:
  "update_first P f xs = Some (r, ys) \<Longrightarrow>
   \<exists>as x bs x'. xs = as @ x # bs \<and> P x \<and> (\<forall>a\<in>set as. \<not> P a) \<and> f x = (r, x') \<and> ys = as @ x' # bs"
proof (induction xs arbitrary: ys)
  case (Cons x xs)
  show ?case
  proof (cases "P x")
    case True
    then show ?thesis using Cons.prems by (auto split: prod.splits intro!: exI [of _ "[]"])
  next
    case False
    then obtain zs where z: "update_first P f xs = Some (r, zs)" "ys = x # zs"
      using Cons.prems by auto
    then obtain as y bs y' where
      "xs = as @ y # bs" "P y" "\<forall>a\<in>set as. \<not> P a" "f y = (r, y')" "zs = as @ y' # bs"
      using Cons.IH by blast
    then show ?thesis using z False by (intro exI [of _ "x # as"]) auto
  qed
qed simp

definition has_policy :: "device_policy list \<Rightarrow> string \<Rightarrow> bool" where
  "has_policy ps bdf \<longleftrightarrow> (\<exists>p\<in>set ps. dp_bdf p = bdf)"

definition grants :: "device_policy list \<Rightarrow> string \<Rightarrow> (device_policy \<Rightarrow> bool) \<Rightarrow> bool" where
  "grants ps bdf f \<longleftrightarrow> (\<exists>p\<in>set ps. dp_bdf p = bdf \<and> f p)"

text \<open>A flag that merging ors and that a new policy does not have.\<close>

definition merge_flag :: "(device_policy \<Rightarrow> bool) \<Rightarrow> bool" where
  "merge_flag f \<longleftrightarrow> (\<forall>s d. f (merge_policy s d) \<longleftrightarrow> f d \<or> f s) \<and> (\<forall>b. \<not> f (new_device_policy b))"

lemma merge_policy_bdf [simp]: "dp_bdf (merge_policy s d) = dp_bdf d"
  by (simp add: merge_policy_def)

lemma new_policy_bdf [simp]: "dp_bdf (new_device_policy b) = b"
  by (simp add: new_device_policy_def)

lemma with_policy_cases:
  obtains (found) as x bs where "ps = as @ x # bs" "dp_bdf x = bdf" "\<forall>a\<in>set as. dp_bdf a \<noteq> bdf"
    "with_device_policy bdf (\<lambda>d. (True, g d)) ps = (True, as @ g x # bs)"
  | (created) "\<forall>a\<in>set ps. dp_bdf a \<noteq> bdf"
    "with_device_policy bdf (\<lambda>d. (True, g d)) ps = (True, ps @ [g (new_device_policy bdf)])"
proof (cases "update_first (\<lambda>p. dp_bdf p = bdf) (\<lambda>d. (True, g d)) ps")
  case None
  then have "\<forall>a\<in>set ps. dp_bdf a \<noteq> bdf" by (simp add: update_first_None)
  then show ?thesis
    by (rule that(2)) (simp add: with_device_policy_def None)
next
  case (Some r)
  then obtain b ys where "r = (b, ys)" by (cases r)
  with Some update_first_Some [of "\<lambda>p. dp_bdf p = bdf" "\<lambda>d. (True, g d)" ps b ys] that(1)
  show ?thesis by (auto simp: with_device_policy_def)
qed

lemma merge_one:
  assumes "distinct (map dp_bdf ps)" and qs_def: "qs = snd (with_device_policy (dp_bdf s) (\<lambda>d. (True, merge_policy s d)) ps)"
  shows "distinct (map dp_bdf qs)"
    and "has_policy qs b \<longleftrightarrow> has_policy ps b \<or> b = dp_bdf s"
    and "merge_flag f \<Longrightarrow> grants qs b f \<longleftrightarrow> grants ps b f \<or> b = dp_bdf s \<and> f s"
proof -
  have "distinct (map dp_bdf qs) \<and> (has_policy qs b \<longleftrightarrow> has_policy ps b \<or> b = dp_bdf s) \<and>
      (merge_flag f \<longrightarrow> (grants qs b f \<longleftrightarrow> grants ps b f \<or> b = dp_bdf s \<and> f s))"
  proof (cases rule: with_policy_cases [of ps "dp_bdf s" "merge_policy s"])
    case (found as x bs)
    then have q: "qs = as @ merge_policy s x # bs" by (simp add: qs_def)
    have "grants qs b f \<longleftrightarrow> grants ps b f \<or> b = dp_bdf s \<and> f s" if "merge_flag f"
      unfolding q found(1) grants_def using that found(2) by (auto simp: merge_flag_def)
    then show ?thesis
      using assms(1) found unfolding q by (auto simp: has_policy_def)
  next
    case created
    then have q: "qs = ps @ [merge_policy s (new_device_policy (dp_bdf s))]" by (simp add: qs_def)
    have "grants qs b f \<longleftrightarrow> grants ps b f \<or> b = dp_bdf s \<and> f s" if "merge_flag f"
      unfolding q grants_def using that by (auto simp: merge_flag_def)
    then show ?thesis
      using assms(1) created unfolding q by (auto simp: has_policy_def)
  qed
  then show "distinct (map dp_bdf qs)" and "has_policy qs b \<longleftrightarrow> has_policy ps b \<or> b = dp_bdf s"
    and "merge_flag f \<Longrightarrow> grants qs b f \<longleftrightarrow> grants ps b f \<or> b = dp_bdf s \<and> f s" by blast+
qed

lemma merge_policies_union:
  assumes "distinct (map dp_bdf dst)"
  shows "distinct (map dp_bdf (merge_policies srcs dst))"
    and "has_policy (merge_policies srcs dst) b \<longleftrightarrow> has_policy dst b \<or> has_policy srcs b"
    and "merge_flag f \<Longrightarrow> grants (merge_policies srcs dst) b f \<longleftrightarrow> grants dst b f \<or> grants srcs b f"
  using assms
proof (induction srcs arbitrary: dst)
  case Nil
  case 1 then show ?case by simp
  case 2 then show ?case by (simp add: has_policy_def)
  case 3 then show ?case by (simp add: grants_def)
next
  case (Cons s srcs)
  case 1
  then show ?case using Cons.IH(1) [OF merge_one(1) [OF _ refl]] by simp
  case 2
  then show ?case using Cons.IH(2) [OF merge_one(1) [OF _ refl]] merge_one(2) [of dst _ s b, OF _ refl]
    by (auto simp: has_policy_def)
  case 3
  then show ?case using Cons.IH(3) [OF _ merge_one(1) [OF _ refl]] merge_one(3) [of dst _ s f b, OF _ refl]
    by (auto simp: grants_def)
qed

text \<open>The union over a list of roles.\<close>

definition role_ok :: "role \<Rightarrow> bool" where
  "role_ok r \<longleftrightarrow> distinct (map dp_bdf (device_policies r))"

lemma role_merge_union:
  assumes "role_ok dst"
  shows "role_ok (role_merge_add_array dst rs)"
    and "role_query (role_merge_add_array dst rs) \<longleftrightarrow> role_query dst \<or> (\<exists>r\<in>set rs. role_query r)"
    and "has_policy (device_policies (role_merge_add_array dst rs)) b \<longleftrightarrow>
           has_policy (device_policies dst) b \<or> (\<exists>r\<in>set rs. has_policy (device_policies r) b)"
    and "merge_flag f \<Longrightarrow> grants (device_policies (role_merge_add_array dst rs)) b f \<longleftrightarrow>
           grants (device_policies dst) b f \<or> (\<exists>r\<in>set rs. grants (device_policies r) b f)"
  using assms
proof (induction rs arbitrary: dst)
  case (Cons r rs)
  have ok: "role_ok (role_merge_add_role dst r)" if "role_ok dst" for dst
    using that merge_policies_union(1) by (simp add: role_ok_def role_merge_add_role_def)
  case 1
  then show ?case using Cons.IH(1) [OF ok] by simp
  case 2
  then show ?case using Cons.IH(2) [OF ok] by (auto simp: role_merge_add_role_def)
  case 3
  then show ?case using Cons.IH(3) [OF ok] merge_policies_union(2)
    by (auto simp: role_merge_add_role_def role_ok_def)
  case 4
  then show ?case using Cons.IH(4) [OF _ ok] merge_policies_union(3)
    by (auto simp: role_merge_add_role_def role_ok_def)
qed simp_all

lemma role_merge_append:
  "role_merge_add_array (role_merge_add_array dst rs) rs' = role_merge_add_array dst (rs @ rs')"
  by (induction rs arbitrary: dst) auto

section \<open>Includes end\<close>

text \<open>The canonical paths that can be reached at all.\<close>

definition canonical_files :: "fs \<Rightarrow> string set" where
  "canonical_files fs = {f. \<exists>p. realpath fs p = Some f}"

definition unvisited :: "string set \<Rightarrow> config_parse_state \<Rightarrow> nat" where
  "unvisited R st = card (R - set (visited_files st))"

definition grows :: "config_parse_state \<Rightarrow> (bool \<times> config_parse_state) option \<Rightarrow> bool" where
  "grows st m \<longleftrightarrow> ok m (\<lambda>(b, st'). set (visited_files st) \<subseteq> set (visited_files st'))"

definition returns_below :: "string set \<Rightarrow> nat \<Rightarrow> parser \<Rightarrow> bool" where
  "returns_below R n parse \<longleftrightarrow> (\<forall>p st. unvisited R st < n \<longrightarrow> grows st (parse p st))"

lemma grows_refl: "set (visited_files st) \<subseteq> set (visited_files st') \<Longrightarrow> grows st (Some (b, st'))"
  by (simp add: grows_def)

lemma unvisited_mono:
  "finite R \<Longrightarrow> set (visited_files st) \<subseteq> set (visited_files st') \<Longrightarrow> unvisited R st' \<le> unvisited R st"
  unfolding unvisited_def by (intro card_mono) auto

lemma grows_bind:
  assumes "grows st m" and "finite R" and "unvisited R st < n"
    and "\<And>b st'. unvisited R st' < n \<Longrightarrow> grows st' (f (b, st'))"
  shows "grows st (Option.bind m f)"
proof -
  obtain b st' where m: "m = Some (b, st')" "set (visited_files st) \<subseteq> set (visited_files st')"
    using assms(1) by (cases m) (auto simp: grows_def)
  then have "unvisited R st' < n" using unvisited_mono [OF assms(2) m(2)] assms(3) by simp
  then have "grows st' (f (b, st'))" by (rule assms(4))
  then show ?thesis using m by (cases "f (b, st')") (auto simp: grows_def)
qed

lemma grows_callback:
  assumes P: "returns_below R n parse" and R: "finite R" and st: "unvisited R st < n"
  shows "grows st (parse_config_callback parse fs st sect name value)"
proof -
  have all: "grows st (parse_all parse ps pat st)" if "unvisited R st < n" for ps pat st
    using that
  proof (induction ps arbitrary: st)
    case (Cons p ps)
    have "grows st (parse p st)" using P Cons.prems by (auto simp: returns_below_def)
    then show ?case
      using grows_bind [OF _ R Cons.prems] Cons.IH by (auto simp: grows_refl split: if_splits)
  qed (simp add: grows_refl)
  have "grows st (parse_file_glob parse fs value st)"
    using all [OF st] by (auto simp: parse_file_glob_def grows_refl split: glob_result.splits)
  then show ?thesis
    using P st
    by (auto simp: parse_config_callback_def returns_below_def lift_config_def parse_role_section_def
        grows_refl split: option.splits)
qed

lemma returns_unique:
  assumes P: "returns_below R n parse" and R: "finite R"
  shows "returns_below R n (parse_file_unique parse fs)"
proof -
  have run: "grows st (ini_run parse fs es st)" if "unvisited R st < n" for es st
    using that
  proof (induction es arbitrary: st)
    case (Cons e es)
    obtain s nm v where e: "e = (s, nm, v)" by (cases e)
    show ?case
      unfolding e ini_run.simps
      by (rule grows_bind [OF grows_callback [OF P R Cons.prems] R Cons.prems])
        (auto intro!: grows_bind [OF Cons.IH R] grows_refl)
  qed (simp add: grows_refl)
  show ?thesis
    unfolding returns_below_def parse_file_unique_def
    by (auto simp: grows_refl split: ini_result.splits intro!: grows_bind [OF run R])
qed

lemma parse_file_returns:
  assumes "finite (canonical_files fs)"
  shows "returns_below (canonical_files fs) n (parse_file n fs)"
proof (induction n)
  case (Suc n)
  let ?R = "canonical_files fs"
  have "grows st (parse_file (Suc n) fs p st)" if st: "unvisited ?R st < Suc n" for p st
  proof (cases "realpath fs p")
    case (Some full)
    show ?thesis
    proof (cases "full \<in> set (visited_files st)")
      case False
      let ?st = "st\<lparr>visited_files := visited_files st @ [full]\<rparr>"
      have "full \<in> ?R" using Some by (auto simp: canonical_files_def)
      then have "?R - set (visited_files ?st) \<subset> ?R - set (visited_files st)" using False by auto
      then have "unvisited ?R ?st < unvisited ?R st"
        unfolding unvisited_def using assms by (intro psubset_card_mono) auto
      then have "grows ?st (parse_file_unique (parse_file n fs) fs full ?st)"
        using returns_unique [OF Suc.IH assms] st by (auto simp: returns_below_def)
      then show ?thesis
        using Some False by (cases "parse_file_unique (parse_file n fs) fs full ?st") (auto simp: grows_def)
    qed (simp add: Some grows_refl)
  qed (simp add: grows_refl)
  then show ?case by (simp add: returns_below_def)
qed (simp add: returns_below_def)

section \<open>A load fails closed\<close>

text \<open>The entries the documentation of the handlers allows.\<close>

definition policy_entry_ok :: "string \<Rightarrow> string \<Rightarrow> bool" where
  "policy_entry_ok name value \<longleftrightarrow>
     name = ''bar-access'' \<and> value = ''full'' \<or>
     name \<in> {''qdma'', ''buffer'', ''design-write'', ''cfgmem-program'', ''clock'', ''pcie-hotplug'',
       ''raw-mem-access''} \<and> value \<in> {''yes'', ''no''}"

definition entry_ok :: "string \<Rightarrow> string \<Rightarrow> string \<Rightarrow> bool" where
  "entry_ok sect name value \<longleftrightarrow>
     (case match_object ''role'' sect of
        Some objname \<Rightarrow>
          (case split_first CHR '':'' objname of
             Some (_, dev) \<Rightarrow> normalize_bdf dev 32 \<noteq> None \<and> policy_entry_ok name value
           | None \<Rightarrow> name = ''query-devices'' \<and> value \<in> {''yes'', ''no''})
      | None \<Rightarrow>
          (match_object ''user'' sect \<noteq> None \<or> match_object ''group'' sect \<noteq> None \<longrightarrow> name = ''role''))"

lemma match_object_empty [simp]: "match_object c [] = None"
  by (simp add: match_object_def)

lemma role_add_value_ok: "fst (role_add_value r name value) \<Longrightarrow> name = ''query-devices'' \<and> value \<in> {''yes'', ''no''}"
  by (auto simp: role_add_value_def split: if_splits)

lemma flag_value_ok: "fst (flag_value value upd dp) \<Longrightarrow> value \<in> {''yes'', ''no''}"
  by (auto simp: flag_value_def yes_no_def split: if_splits)

lemma device_policy_add_value_ok:
  "fst (device_policy_add_value dp name value) \<Longrightarrow> policy_entry_ok name value"
  by (auto simp: device_policy_add_value_def policy_entry_ok_def split: if_splits dest!: flag_value_ok)

lemma update_first_ok:
  "update_first P f xs = Some (True, ys) \<Longrightarrow> \<exists>x. fst (f x)"
  by (drule update_first_Some) (metis fst_conv)

lemma with_policy_ok:
  assumes "with_device_policy bdf f ps = (True, qs)"
  shows "\<exists>x. fst (f x)"
proof (cases "update_first (\<lambda>p. dp_bdf p = bdf) f ps")
  case None
  then show ?thesis
    using assms by (intro exI [of _ "new_device_policy bdf"]) (auto simp: with_device_policy_def split: prod.splits)
next
  case (Some r)
  then show ?thesis using assms update_first_ok by (auto simp: with_device_policy_def)
qed

lemma with_role_ok:
  assumes "fst (with_role nm f cfg)"
  shows "\<exists>x. fst (f x)"
proof (cases "update_first (\<lambda>r. role_name r = nm) f (cfg_roles cfg)")
  case None
  then show ?thesis
    using assms by (intro exI [of _ "new_role nm"]) (auto simp: with_role_def split: prod.splits)
next
  case (Some r)
  then show ?thesis using assms update_first_ok by (cases r) (auto simp: with_role_def)
qed

lemma role_find_ok:
  assumes "fst (role_find_and_add_value cfg objname name value)"
  shows "name = ''query-devices'' \<and> value \<in> {''yes'', ''no''}"
proof -
  have "\<exists>r::role. fst (role_add_value r name value)"
  proof (cases "update_first (\<lambda>r. role_name r = objname) (\<lambda>r. role_add_value r name value) (cfg_roles cfg)")
    case None
    then show ?thesis
      using assms by (intro exI [of _ "new_role objname"])
        (auto simp: role_find_and_add_value_def split: prod.splits bool.splits)
  next
    case (Some p)
    then show ?thesis
      using assms update_first_ok by (cases p) (auto simp: role_find_and_add_value_def)
  qed
  then show ?thesis using role_add_value_ok by blast
qed

lemma role_device_ok:
  assumes "fst (role_device_find_and_add_value cfg rname dev name value)"
  shows "normalize_bdf dev 32 \<noteq> None \<and> policy_entry_ok name value"
proof (cases "normalize_bdf dev 32")
  case None
  then show ?thesis
    using with_role_ok [OF assms [unfolded role_device_find_and_add_value_def]]
    by (simp add: role_device_add_value_def)
next
  case (Some bdf)
  obtain r :: role where
    "fst (with_device_policy bdf (\<lambda>dp. device_policy_add_value dp name value) (device_policies r))"
    using with_role_ok [OF assms [unfolded role_device_find_and_add_value_def]] Some
    by (auto simp: role_device_add_value_def case_prod_beta)
  then obtain qs where
    "with_device_policy bdf (\<lambda>dp. device_policy_add_value dp name value) (device_policies r) = (True, qs)"
    by (cases "with_device_policy bdf (\<lambda>dp. device_policy_add_value dp name value) (device_policies r)")
      simp
  from with_policy_ok [OF this] show ?thesis using Some device_policy_add_value_ok by auto
qed

lemma user_find_ok: "fst (user_find_and_add_value fs cfg objname name value) \<Longrightarrow> name = ''role''"
  using update_first_ok [of "\<lambda>u. uc_name u = objname" "\<lambda>u. user_add_value u name value"]
  by (force simp: user_find_and_add_value_def user_add_value_def split: option.splits prod.splits
      bool.splits if_splits)

lemma group_find_ok: "fst (group_find_and_add_value fs cfg objname name value) \<Longrightarrow> name = ''role''"
  using update_first_ok [of "\<lambda>g. gc_name g = objname" "\<lambda>g. group_add_value g name value"]
  by (force simp: group_find_and_add_value_def group_add_value_def split: option.splits prod.splits
      bool.splits if_splits)

lemma callback_entry_ok:
  assumes "parse_config_callback parse fs st sect name value = Some (True, st')"
  shows "entry_ok sect name value"
proof (cases "sect = []")
  case True
  then show ?thesis by (simp add: entry_ok_def)
next
  case False
  show ?thesis
  proof (cases "match_object ''role'' sect")
    case None
    then show ?thesis
      using assms False user_find_ok group_find_ok
      by (auto simp: parse_config_callback_def entry_ok_def lift_config_def split: option.splits)
  next
    case (Some objname)
    then show ?thesis
      using assms False role_find_ok role_device_ok
      by (cases "split_first CHR '':'' objname")
        (auto simp: parse_config_callback_def entry_ok_def lift_config_def parse_role_section_def)
  qed
qed

definition file_accepted :: "fs \<Rightarrow> string set \<Rightarrow> string \<Rightarrow> bool" where
  "file_accepted fs V f \<longleftrightarrow>
     (case ini_file fs f of
        Ini_entries es w \<Rightarrow>
          w \<and> (\<forall>(sect, name, value) \<in> set es. entry_ok sect name value \<and>
            (sect = [] \<and> name = ''include'' \<longrightarrow> (\<exists>g. realpath fs value = Some g \<and> g \<in> V)))
      | Ini_unknown \<Rightarrow> True
      | _ \<Rightarrow> False)"

definition closes :: "fs \<Rightarrow> config_parse_state \<Rightarrow> config_parse_state \<Rightarrow> bool" where
  "closes fs st st' \<longleftrightarrow> set (visited_files st) \<subseteq> set (visited_files st') \<and>
     (\<forall>f\<in>set (visited_files st') - set (visited_files st). file_accepted fs (set (visited_files st')) f)"

definition strict_parser :: "fs \<Rightarrow> parser \<Rightarrow> bool" where
  "strict_parser fs parse \<longleftrightarrow> (\<forall>p st st'. parse p st = Some (True, st') \<longrightarrow>
     closes fs st st' \<and> (\<exists>f. realpath fs p = Some f \<and> f \<in> set (visited_files st')))"

lemma file_accepted_mono: "file_accepted fs V f \<Longrightarrow> V \<subseteq> W \<Longrightarrow> file_accepted fs W f"
  by (fastforce simp: file_accepted_def split: ini_result.splits)

lemma closes_refl: "visited_files st = visited_files st' \<Longrightarrow> closes fs st st'"
  by (simp add: closes_def)

lemma closes_trans: "closes fs s t \<Longrightarrow> closes fs t u \<Longrightarrow> closes fs s u"
  unfolding closes_def using file_accepted_mono by blast

lemma closes_callback:
  assumes P: "strict_parser fs parse"
    and run: "parse_config_callback parse fs st sect name value = Some (True, st')"
  shows "closes fs st st'"
    and "sect = [] \<and> name = ''include'' \<Longrightarrow> \<exists>f. realpath fs value = Some f \<and> f \<in> set (visited_files st')"
proof -
  have all: "closes fs st st'" if "parse_all parse ps pat st = Some (True, st')" for ps pat st st'
    using that
  proof (induction ps arbitrary: st)
    case (Cons p ps)
    then obtain t where t: "parse p st = Some (True, t)" "parse_all parse ps pat t = Some (True, st')"
      by (auto simp: bind_eq_Some_conv split: if_splits)
    have "closes fs st t" using P t(1) by (auto simp: strict_parser_def)
    then show ?case using Cons.IH [OF t(2)] by (rule closes_trans)
  qed (simp add: closes_refl)
  have glob: "closes fs st st'" if "parse_file_glob parse fs value st = Some (True, st')"
    using that all by (auto simp: parse_file_glob_def closes_refl split: glob_result.splits)
  show "closes fs st st'"
    using run P glob
    by (auto simp: parse_config_callback_def strict_parser_def lift_config_def parse_role_section_def
        closes_refl split: if_splits option.splits)
  show "\<exists>f. realpath fs value = Some f \<and> f \<in> set (visited_files st')" if "sect = [] \<and> name = ''include''"
    using run P that by (auto simp: parse_config_callback_def strict_parser_def)
qed

lemma closes_run:
  assumes P: "strict_parser fs parse" and "ini_run parse fs es st = Some (True, st')"
  shows "closes fs st st' \<and> (\<forall>(sect, name, value) \<in> set es. entry_ok sect name value \<and>
    (sect = [] \<and> name = ''include'' \<longrightarrow>
       (\<exists>g. realpath fs value = Some g \<and> g \<in> set (visited_files st'))))"
  using assms(2)
proof (induction es arbitrary: st)
  case (Cons e es)
  obtain sect name v where e: "e = (sect, name, v)" by (cases e)
  obtain t where t: "parse_config_callback parse fs st sect name v = Some (True, t)"
    "ini_run parse fs es t = Some (True, st')"
    using Cons.prems by (auto simp: e bind_eq_Some_conv)
  note IH = Cons.IH [OF t(2)] and c = closes_callback [OF P t(1)]
  have sub: "set (visited_files t) \<subseteq> set (visited_files st')" using IH by (simp add: closes_def)
  have "closes fs st st'" using closes_trans [OF c(1)] IH by blast
  moreover have "entry_ok sect name v" by (rule callback_entry_ok [OF t(1)])
  moreover have "sect = [] \<and> name = ''include'' \<longrightarrow>
      (\<exists>g. realpath fs v = Some g \<and> g \<in> set (visited_files st'))"
    using c(2) sub by blast
  ultimately show ?case using IH by (simp add: e)
qed (simp add: closes_refl)

lemma parse_file_strict: "strict_parser fs (parse_file n fs)"
proof (induction n)
  case (Suc n)
  have "closes fs st st' \<and> (\<exists>f. realpath fs p = Some f \<and> f \<in> set (visited_files st'))"
    if r: "parse_file (Suc n) fs p st = Some (True, st')" for p st st'
  proof -
    obtain full where full: "realpath fs p = Some full" using r by (auto split: option.splits)
    show ?thesis
    proof (cases "full \<in> set (visited_files st)")
      case True
      then show ?thesis using r full by (auto simp: closes_refl)
    next
      case False
      let ?st = "st\<lparr>visited_files := visited_files st @ [full]\<rparr>"
      have u: "parse_file_unique (parse_file n fs) fs full ?st = Some (True, st')"
        using r full False by simp
      have c: "closes fs ?st st' \<and> file_accepted fs (set (visited_files st')) full"
      proof (cases "ini_file fs full")
        case (Ini_entries es w)
        then have w: "w" "ini_run (parse_file n fs) fs es ?st = Some (True, st')"
          using u by (auto simp: parse_file_unique_def bind_eq_Some_conv)
        show ?thesis using closes_run [OF Suc.IH w(2)] w(1) Ini_entries by (simp add: file_accepted_def)
      qed (use u in \<open>auto simp: parse_file_unique_def file_accepted_def closes_refl\<close>)
      then have "full \<in> set (visited_files st')" by (auto simp: closes_def)
      moreover have "closes fs st st'" using c by (auto simp: closes_def)
      ultimately show ?thesis using full by blast
    qed
  qed
  then show ?case unfolding strict_parser_def by blast
qed (simp add: strict_parser_def)

text \<open>The files a configuration includes by name.\<close>

inductive included :: "fs \<Rightarrow> string \<Rightarrow> string \<Rightarrow> bool" for fs path where
  root: "realpath fs path = Some f \<Longrightarrow> included fs path f"
| step: "included fs path f \<Longrightarrow> ini_file fs f = Ini_entries es w \<Longrightarrow>
    ([], ''include'', p) \<in> set es \<Longrightarrow> realpath fs p = Some g \<Longrightarrow> included fs path g"

lemma included_accepted:
  assumes "included fs path f" and "parse_file n fs path st = Some (True, st')" and "visited_files st = []"
  shows "f \<in> set (visited_files st') \<and> file_accepted fs (set (visited_files st')) f"
  using assms(1)
proof (induction rule: included.induct)
  have c: "closes fs st st'" and ex: "\<exists>f. realpath fs path = Some f \<and> f \<in> set (visited_files st')"
    using parse_file_strict [of fs n] assms(2) by (auto simp: strict_parser_def)
  {
    case (root f)
    then show ?case using c ex assms(3) by (auto simp: closes_def)
  next
    case (step f es w p g)
    then obtain h where "realpath fs p = Some h" "h \<in> set (visited_files st')"
      by (fastforce simp: file_accepted_def)
    then show ?case using step.hyps c assms(3) by (auto simp: closes_def)
  }
qed

section \<open>Well-formed configurations\<close>

definition colon_count :: "string \<Rightarrow> nat" where
  "colon_count s = length (filter (\<lambda>c. c = CHR '':'') s)"

definition canonical_bdf :: "string \<Rightarrow> bool" where
  "canonical_bdf s \<longleftrightarrow> s = ''any'' \<or> colon_count s = 2 \<and> length s < 32"

definition role_wf :: "role \<Rightarrow> bool" where
  "role_wf r \<longleftrightarrow> role_ok r \<and> (\<forall>p\<in>set (device_policies r). canonical_bdf (dp_bdf p))"

definition config_wf :: "fs \<Rightarrow> config \<Rightarrow> bool" where
  "config_wf fs cfg \<longleftrightarrow>
     distinct (map role_name (cfg_roles cfg)) \<and> (\<forall>r\<in>set (cfg_roles cfg). role_wf r) \<and>
     distinct (map uc_name (cfg_users cfg)) \<and>
     (\<forall>u\<in>set (cfg_users cfg). getpwnam fs (uc_name u) = Some (uc_uid u)) \<and>
     distinct (map gc_name (cfg_groups cfg)) \<and>
     (\<forall>g\<in>set (cfg_groups cfg). getgrnam fs (gc_name g) = Some (gc_gid g))"

text \<open>During parsing no role is assigned yet.\<close>

definition config_raw :: "fs \<Rightarrow> config \<Rightarrow> bool" where
  "config_raw fs cfg \<longleftrightarrow> config_wf fs cfg \<and> uc_roles (default_user cfg) = [] \<and>
     (\<forall>u\<in>set (cfg_users cfg). uc_roles u = []) \<and> (\<forall>g\<in>set (cfg_groups cfg). gc_roles g = [])"

lemma normalize_canonical: "normalize_bdf s 32 = Some b \<Longrightarrow> canonical_bdf b"
  by (auto simp: normalize_bdf_def canonical_bdf_def colon_count_def Let_def split: if_splits option.splits)

text \<open>Updating the element of a key, or appending a fresh one, keeps the keys distinct.\<close>

lemma update_first_keyed:
  assumes "update_first (\<lambda>x. key x = k) f xs = Some (b, ys)" and "distinct (map key xs)"
    and "\<forall>x\<in>set xs. Q x" and step: "\<And>x. Q x \<Longrightarrow> key x = k \<Longrightarrow> key (snd (f x)) = k \<and> Q (snd (f x))"
  shows "distinct (map key ys) \<and> (\<forall>y\<in>set ys. Q y)"
proof -
  obtain as x bs x' where s: "xs = as @ x # bs" "key x = k" "f x = (b, x')" "ys = as @ x' # bs"
    using update_first_Some [OF assms(1)] by blast
  have "key x' = k \<and> Q x'" using step [of x] s assms(3) by simp
  then show ?thesis using assms(2,3) s by auto
qed

lemma append_keyed:
  assumes "update_first (\<lambda>x. key x = k) f xs = None" and "distinct (map key xs)"
    and "\<forall>x\<in>set xs. Q x" and "key y = k" and "Q y"
  shows "distinct (map key (xs @ [y])) \<and> (\<forall>x\<in>set (xs @ [y]). Q x)"
  using assms by (auto simp: update_first_None)

lemma role_add_value_wf: "role_wf r \<Longrightarrow> role_wf (snd (role_add_value r name value))"
  "role_name (snd (role_add_value r name value)) = role_name r"
  by (auto simp: role_add_value_def role_wf_def role_ok_def)

lemma policy_add_value_bdf [simp]: "dp_bdf (snd (device_policy_add_value dp name value)) = dp_bdf dp"
  by (auto simp: device_policy_add_value_def flag_value_def split: option.splits)

lemma with_policy_wf:
  assumes "with_device_policy bdf f ps = (b, qs)" and "distinct (map dp_bdf ps)"
    and "\<forall>p\<in>set ps. canonical_bdf (dp_bdf p)" and "canonical_bdf bdf"
    and keep: "\<And>p. dp_bdf (snd (f p)) = dp_bdf p"
  shows "distinct (map dp_bdf qs) \<and> (\<forall>p\<in>set qs. canonical_bdf (dp_bdf p))"
proof (cases "update_first (\<lambda>p. dp_bdf p = bdf) f ps")
  case None
  obtain c p where p: "f (new_device_policy bdf) = (c, p)" by (cases "f (new_device_policy bdf)")
  then have "dp_bdf p = bdf" using keep [of "new_device_policy bdf"] by simp
  then show ?thesis
    using append_keyed [OF None assms(2,3), of p] None p assms(1,4) by (auto simp: with_device_policy_def)
next
  case (Some r)
  then obtain c ys where r: "r = (c, ys)" by (cases r)
  show ?thesis
    using update_first_keyed [OF Some [unfolded r] assms(2,3)] keep assms(1) Some r
    by (auto simp: with_device_policy_def)
qed

lemma role_device_step_wf:
  assumes "role_wf r"
  shows "role_wf (snd (role_device_add_value dev name value r)) \<and>
    role_name (snd (role_device_add_value dev name value r)) = role_name r"
proof (cases "normalize_bdf dev 32")
  case None
  then show ?thesis using assms by (simp add: role_device_add_value_def)
next
  case (Some bdf)
  obtain b qs where w:
    "with_device_policy bdf (\<lambda>dp. device_policy_add_value dp name value) (device_policies r) = (b, qs)"
    by (cases "with_device_policy bdf (\<lambda>dp. device_policy_add_value dp name value) (device_policies r)")
  have "distinct (map dp_bdf qs) \<and> (\<forall>p\<in>set qs. canonical_bdf (dp_bdf p))"
    using assms(1) normalize_canonical [OF Some]
    by (intro with_policy_wf [OF w]) (auto simp: role_wf_def role_ok_def)
  then show ?thesis using Some w by (simp add: role_device_add_value_def role_wf_def role_ok_def)
qed

lemma with_role_wf:
  assumes C: "config_raw fs cfg"
    and step: "\<And>r. role_wf r \<Longrightarrow> role_wf (snd (f r)) \<and> role_name (snd (f r)) = role_name r"
  shows "config_raw fs (snd (with_role nm f cfg))"
proof (cases "update_first (\<lambda>r. role_name r = nm) f (cfg_roles cfg)")
  case None
  have n: "role_wf (new_role nm)" "role_name (new_role nm) = nm"
    by (simp_all add: new_role_def role_wf_def role_ok_def)
  obtain b r where r: "f (new_role nm) = (b, r)" by (cases "f (new_role nm)")
  then have "role_wf r" "role_name r = nm" using step [OF n(1)] n(2) by auto
  then show ?thesis
    using append_keyed [OF None, of role_wf r] C None r
    by (auto simp: with_role_def config_raw_def config_wf_def)
next
  case (Some p)
  then obtain b rs where p: "p = (b, rs)" by (cases p)
  show ?thesis
    using update_first_keyed [OF Some [unfolded p], of role_wf] step C Some p
    by (auto simp: with_role_def config_raw_def config_wf_def)
qed

lemma role_find_wf:
  assumes C: "config_raw fs cfg"
  shows "config_raw fs (snd (role_find_and_add_value cfg nm name value))"
proof (cases "update_first (\<lambda>r. role_name r = nm) (\<lambda>r. role_add_value r name value) (cfg_roles cfg)")
  case None
  have n: "role_wf (new_role nm)" "role_name (new_role nm) = nm"
    by (simp_all add: new_role_def role_wf_def role_ok_def)
  obtain b r where r: "role_add_value (new_role nm) name value = (b, r)"
    by (cases "role_add_value (new_role nm) name value")
  then have "role_wf r" "role_name r = nm"
    using role_add_value_wf [of "new_role nm" name "value"] n by auto
  then show ?thesis
    using append_keyed [OF None, of role_wf r] C None r
    by (cases b) (auto simp: role_find_and_add_value_def config_raw_def config_wf_def)
next
  case (Some p)
  then obtain b rs where p: "p = (b, rs)" by (cases p)
  show ?thesis
    using update_first_keyed [OF Some [unfolded p], of role_wf] role_add_value_wf C Some p
    by (auto simp: role_find_and_add_value_def config_raw_def config_wf_def)
qed

lemma user_find_wf:
  assumes C: "config_raw fs cfg"
  shows "config_raw fs (snd (user_find_and_add_value fs cfg nm name value))"
proof (cases "nm = ''*''")
  case True
  then show ?thesis
    using C by (auto simp: user_find_and_add_value_def user_add_value_def config_raw_def config_wf_def split: prod.splits)
next
  case ne: False
  let ?Q = "\<lambda>u. getpwnam fs (uc_name u) = Some (uc_uid u) \<and> uc_roles u = []"
  show ?thesis
  proof (cases "update_first (\<lambda>u. uc_name u = nm) (\<lambda>u. user_add_value u name value) (cfg_users cfg)")
    case None
    show ?thesis
      using None [unfolded update_first_None] C None ne
      by (auto simp: user_find_and_add_value_def user_add_value_def config_raw_def config_wf_def split: option.splits)
  next
    case (Some p)
    then obtain b us where p: "p = (b, us)" by (cases p)
    have "distinct (map uc_name us) \<and> (\<forall>u\<in>set us. ?Q u)"
      using C by (intro update_first_keyed [OF Some [unfolded p]]) (auto simp: config_raw_def config_wf_def user_add_value_def)
    then show ?thesis
      using C Some p ne by (auto simp: user_find_and_add_value_def config_raw_def config_wf_def)
  qed
qed

lemma group_find_wf:
  assumes C: "config_raw fs cfg"
  shows "config_raw fs (snd (group_find_and_add_value fs cfg nm name value))"
proof (cases "update_first (\<lambda>g. gc_name g = nm) (\<lambda>g. group_add_value g name value) (cfg_groups cfg)")
  case None
  show ?thesis
    using None [unfolded update_first_None] C None
    by (auto simp: group_find_and_add_value_def group_add_value_def config_raw_def config_wf_def split: option.splits)
next
  case (Some p)
  let ?Q = "\<lambda>g. getgrnam fs (gc_name g) = Some (gc_gid g) \<and> gc_roles g = []"
  obtain b gs where p: "p = (b, gs)" by (cases p)
  have "distinct (map gc_name gs) \<and> (\<forall>g\<in>set gs. ?Q g)"
    using C by (intro update_first_keyed [OF Some [unfolded p]]) (auto simp: config_raw_def config_wf_def group_add_value_def)
  then show ?thesis
    using C Some p by (auto simp: group_find_and_add_value_def config_raw_def config_wf_def)
qed

text \<open>The whole parser keeps the configuration well-formed, on failing entries too.\<close>

definition wf_parser :: "fs \<Rightarrow> parser \<Rightarrow> bool" where
  "wf_parser fs parse \<longleftrightarrow>
     (\<forall>p st b st'. config_raw fs (ps_config st) \<longrightarrow> parse p st = Some (b, st') \<longrightarrow> config_raw fs (ps_config st'))"

lemma callback_wf:
  assumes P: "wf_parser fs parse" and C: "config_raw fs (ps_config st)"
    and r: "parse_config_callback parse fs st sect name value = Some (b, st')"
  shows "config_raw fs (ps_config st')"
proof -
  have all: "config_raw fs (ps_config st')"
    if "parse_all parse ps pat st = Some (b, st')" "config_raw fs (ps_config st)" for ps pat st b st'
    using that
  proof (induction ps arbitrary: st)
    case (Cons p ps)
    then obtain c t where t: "parse p st = Some (c, t)"
      "(if c then parse_all parse ps pat t else Some (False, t)) = Some (b, st')"
      by (auto simp: bind_eq_Some_conv)
    then have "config_raw fs (ps_config t)" using P Cons.prems unfolding wf_parser_def by blast
    then show ?case using t Cons.IH by (auto split: if_splits)
  qed simp
  have glob: "config_raw fs (ps_config st')" if "parse_file_glob parse fs value st = Some (b, st')"
    using that all C by (auto simp: parse_file_glob_def split: glob_result.splits)
  have inc: "config_raw fs (ps_config st')" if "parse value st = Some (b, st')"
    using that P C unfolding wf_parser_def by blast
  have sections: "config_raw fs (snd (role_find_and_add_value (ps_config st) nm name value))"
    "config_raw fs (snd (role_device_find_and_add_value (ps_config st) nm dev name value))"
    "config_raw fs (snd (user_find_and_add_value fs (ps_config st) nm name value))"
    "config_raw fs (snd (group_find_and_add_value fs (ps_config st) nm name value))" for nm dev
    using role_find_wf [OF C] user_find_wf [OF C] group_find_wf [OF C]
      with_role_wf [OF C role_device_step_wf] by (simp_all add: role_device_find_and_add_value_def)
  have mock: "config_raw fs ((ps_config st)\<lparr>mock_device := m\<rparr>)" for m
    using C by (simp add: config_raw_def config_wf_def)
  show ?thesis
    using r glob inc sections mock C
    by (auto simp: parse_config_callback_def lift_config_def parse_role_section_def
        split: if_splits option.splits)
qed

lemma parse_file_wf: "wf_parser fs (parse_file n fs)"
proof (induction n)
  case (Suc n)
  have run: "config_raw fs (ps_config st')"
    if "ini_run (parse_file n fs) fs es st = Some (b, st')" "config_raw fs (ps_config st)" for es st b st'
    using that
  proof (induction es arbitrary: st b)
    case (Cons e es)
    obtain sect name v where e: "e = (sect, name, v)" by (cases e)
    obtain c t d where t: "parse_config_callback (parse_file n fs) fs st sect name v = Some (c, t)"
      "ini_run (parse_file n fs) fs es t = Some (d, st')"
      using Cons.prems(1) by (auto simp: e bind_eq_Some_conv)
    then show ?case using callback_wf [OF Suc.IH Cons.prems(2)] Cons.IH by blast
  qed simp
  show ?case
    unfolding wf_parser_def parse_file.simps parse_file_unique_def
    by (auto simp: bind_eq_Some_conv split: option.splits if_splits ini_result.splits dest!: run)
qed (simp add: wf_parser_def)

section \<open>Properties of the configuration\<close>

text \<open>A file system with two files that include each other.\<close>

definition demo_fs :: fs where
  "demo_fs =
     \<lparr>realpath = (\<lambda>p. if p = ''/etc/vrt/vrtd.conf'' \<or> p = ''/opt/site/roles.conf'' then Some p else None),
      ini_file = (\<lambda>p.
        if p = ''/etc/vrt/vrtd.conf'' then
          Ini_entries
            [([], ''include'', ''/opt/site/roles.conf''),
             (''user:alice'', ''role'', ''admin''),
             (''role:admin:03:00.0'', ''qdma'', ''yes'')] True
        else
          Ini_entries
            [([], ''include'', ''/etc/vrt/vrtd.conf''),
             (''role:admin'', ''query-devices'', ''yes'')] True),
      glob_files = (\<lambda>_. Glob_nomatch),
      getpwnam = (\<lambda>n. if n = ''alice'' then Some 1000 else None),
      getgrnam = (\<lambda>_. None)\<rparr>"

definition demo_role :: role where
  "demo_role =
     \<lparr>role_name = ''admin'',
      device_policies = [(new_device_policy ''0000:03:00'')\<lparr>dp_qdma := True\<rparr>],
      role_query = True\<rparr>"

definition demo_cfg :: config where
  "demo_cfg =
     \<lparr>cfg_roles = [demo_role],
      default_user = \<lparr>uc_name = ''*'', uc_uid = 0, uc_role_names = [], uc_roles = []\<rparr>,
      cfg_users = [\<lparr>uc_name = ''alice'', uc_uid = 1000, uc_role_names = [''admin''], uc_roles = [demo_role]\<rparr>],
      cfg_groups = [], mock_device = False\<rparr>"

lemma demo_canonical: "canonical_files demo_fs \<subseteq> set [''/etc/vrt/vrtd.conf'', ''/opt/site/roles.conf'']"
proof -
  have "f \<in> set [''/etc/vrt/vrtd.conf'', ''/opt/site/roles.conf'']" if "realpath demo_fs p = Some f" for p f
    using that unfolding demo_fs_def fs.simps by (cases "p = ''/etc/vrt/vrtd.conf'' \<or> p = ''/opt/site/roles.conf''") simp_all
  then show ?thesis unfolding canonical_files_def by blast
qed

lemma demo_main:
  "ini_file demo_fs ''/etc/vrt/vrtd.conf'' =
     Ini_entries
       [([], ''include'', ''/opt/site/roles.conf''),
        (''user:alice'', ''role'', ''admin''),
        (''role:admin:03:00.0'', ''qdma'', ''yes'')] True"
  by (simp add: demo_fs_def)

lemma demo_roles:
  "ini_file demo_fs ''/opt/site/roles.conf'' =
     Ini_entries
       [([], ''include'', ''/etc/vrt/vrtd.conf''),
        (''role:admin'', ''query-devices'', ''yes'')] True"
  by (simp add: demo_fs_def)

lemma demo_load: "config_load 3 demo_fs None = Some (Some demo_cfg)"
  by code_simp

lemma find_role_mem: "find_role rs nm = Some r \<Longrightarrow> r \<in> set rs"
  by (induction rs) (auto split: if_splits)

lemmas assign_defs = assign_groups_roles_def assign_users_roles_def assign_user_roles_def
  assign_group_roles_def

lemma split_first_none: "c \<notin> set s \<Longrightarrow> split_first c s = None"
  by (induction s) auto

lemma split_first_some: "c \<notin> set a \<Longrightarrow> split_first c (a @ c # b) = Some (a, b)"
  by (induction a) auto

lemma split_last_none: "c \<notin> set s \<Longrightarrow> split_last c s = None"
  by (simp add: split_last_def split_first_none)

lemma split_last_some: "c \<notin> set b \<Longrightarrow> split_last c (a @ c # b) = Some (a, b)"
  by (simp add: split_last_def split_first_some)

text \<open>
  C34: Loading a configuration ends whatever the files include, also in a cycle: with more fuel than
  there are canonical files the load returns.
\<close>

theorem config_load_terminates:
  assumes "finite (canonical_files fs)" and "card (canonical_files fs) < n"
  shows "\<exists>r. config_load n fs env = Some r"
proof -
  let ?st = "\<lparr>ps_config = empty_config, visited_files = []\<rparr>"
  have "unvisited (canonical_files fs) ?st < n" using assms(2) by (simp add: unvisited_def)
  then have "grows ?st (parse_file n fs (config_path env) ?st)"
    using parse_file_returns [OF assms(1), of n] by (auto simp: returns_below_def)
  then show ?thesis
    by (cases "parse_file n fs (config_path env) ?st") (auto simp: grows_def config_load_def)
qed

theorem config_load_terminates_witness: "\<exists>r. config_load 3 demo_fs None = Some r"
proof (rule config_load_terminates)
  show "finite (canonical_files demo_fs)" by (rule finite_subset [OF demo_canonical]) simp
  have "card (canonical_files demo_fs) \<le> card (set [''/etc/vrt/vrtd.conf'', ''/opt/site/roles.conf''])"
    by (rule card_mono [OF _ demo_canonical]) simp
  also have "\<dots> \<le> 2" using card_length [of "[''/etc/vrt/vrtd.conf'', ''/opt/site/roles.conf'']"] by simp
  finally show "card (canonical_files demo_fs) < 3" by simp
qed



text \<open>
  C33: A loaded configuration is well-formed: roles, users and groups have distinct names, a role has
  at most one policy per device, every device selector is \<open>any\<close> or a canonical BDF that fits the
  comparison buffer, user and group ids are those of the system databases, and users hold
  defined roles only.
\<close>

theorem config_load_well_formed:
  assumes "config_load n fs env = Some (Some cfg)"
  shows "config_wf fs cfg \<and> (\<forall>u\<in>set (default_user cfg # cfg_users cfg). set (uc_roles u) \<subseteq> set (cfg_roles cfg))"
proof -
  let ?st = "\<lparr>ps_config = empty_config, visited_files = []\<rparr>"
  obtain st' where run: "parse_file n fs (config_path env) ?st = Some (True, st')"
    and cfg: "cfg = assign_groups_roles (assign_users_roles (ps_config st'))"
    using assms by (auto simp: config_load_def bind_eq_Some_conv split: if_splits)
  have "config_raw fs (ps_config ?st)" by (simp add: config_raw_def config_wf_def empty_config_def)
  then have raw: "config_raw fs (ps_config st')"
    using parse_file_wf [of fs n] run unfolding wf_parser_def by blast
  have "set (resolve_roles rs names) \<subseteq> set rs" for rs names
    by (auto simp: resolve_roles_def map_filter_def dest: find_role_mem)
  then show ?thesis
    using raw by (auto simp: cfg assign_defs config_raw_def config_wf_def comp_def subset_iff)
qed

theorem config_load_well_formed_witness:
  "config_load 3 demo_fs None = Some (Some demo_cfg) \<and> config_wf demo_fs demo_cfg"
  using config_load_well_formed [OF demo_load] demo_load by simp

text \<open>
  C36: The four spellings of a board address, short or full, with or without function suffix, are
  normalised to the same canonical form, and that form normalises to itself.
\<close>

theorem bdf_spellings_agree:
  fixes bus dev fn :: string
  assumes "CHR '':'' \<notin> set bus" "CHR ''.'' \<notin> set bus" "CHR '':'' \<notin> set dev" "CHR ''.'' \<notin> set dev"
    and "CHR ''.'' \<notin> set fn" and "length bus + length dev + length fn < 26"
  defines "board \<equiv> bus @ '':'' @ dev"
  shows "\<forall>s\<in>{board, board @ ''.'' @ fn, ''0000:'' @ board, ''0000:'' @ board @ ''.'' @ fn}.
    normalize_bdf s 32 = Some (''0000:'' @ board)"
proof -
  have colons: "filter (\<lambda>c. c = CHR '':'') bus = []" "filter (\<lambda>c. c = CHR '':'') dev = []"
    using assms(1,3) by (auto simp: filter_empty_conv)
  have any: "a @ CHR '':'' # b \<noteq> ''any''" for a b :: string
  proof
    assume "a @ CHR '':'' # b = ''any''"
    then have "CHR '':'' \<in> set ''any''" by (metis in_set_conv_decomp)
    then show False by simp
  qed
  have nodot: "CHR ''.'' \<notin> set board" "CHR ''.'' \<notin> set (''0000:'' @ board)"
    using assms(2,4) by (auto simp: board_def)
  have strip: "(case split_last CHR ''.'' s of None \<Rightarrow> s | Some (b, _) \<Rightarrow> b) = b"
    if "CHR ''.'' \<notin> set b" "s = b \<or> s = b @ ''.'' @ fn" for s b
    using that assms(5) split_last_some [of "CHR ''.''" fn b] by (auto simp: split_last_none)
  have short: "normalize_bdf s 32 = Some (''0000:'' @ board)" if s: "s = board \<or> s = board @ ''.'' @ fn" for s
    unfolding normalize_bdf_def strip [OF nodot(1) s]
    using s any [of bus "dev"] any [of bus "dev @ ''.'' @ fn"] assms(6) colons
    by (auto simp: board_def)
  have full: "normalize_bdf s 32 = Some (''0000:'' @ board)"
    if s: "s = ''0000:'' @ board \<or> s = (''0000:'' @ board) @ ''.'' @ fn" for s
    unfolding normalize_bdf_def strip [OF nodot(2) s]
    using s assms(6) colons by (auto simp: board_def)
  show ?thesis using short full by simp
qed

theorem bdf_spellings_agree_witness:
  "normalize_bdf ''03:00.1'' 32 = Some ''0000:03:00'' \<and> normalize_bdf ''0000:03:00'' 32 = Some ''0000:03:00''"
  using bdf_spellings_agree [of "''03''" "''00''" "''1''"] by simp


end
