(* ===== verification/Vrtd_Auth.thy ===== *)
theory Vrtd_Auth
  imports Vrtd_Config
begin

text \<open>
  Authorisation of client requests, from \<^verbatim>\<open>vrt/vrtd/src/auth.c\<close>: the effective role of a client and
  the check each request passes before it is executed.

  The functions take the loaded configuration and the BDF strings of the device table and
  return whether the request is authorised, the client with its cached role, and the denials
  logged. The user name that \<open>auth_log_denied\<close> prints is the only thing left out.
\<close>

section \<open>Model\<close>

record client =
  cl_uid :: u32
  cl_gids :: "u32 list"
  cl_conn_id :: u64
  cl_role :: "role option"

datatype auth_subsystem =
    AUTH_SUBSYSTEM_BAR
  | AUTH_SUBSYSTEM_QDMA
  | AUTH_SUBSYSTEM_BUFFER
  | AUTH_SUBSYSTEM_DESIGN_WRITE
  | AUTH_SUBSYSTEM_CFGMEM_PROGRAM
  | AUTH_SUBSYSTEM_CLOCK
  | AUTH_SUBSYSTEM_PCIE_HOTPLUG
  | AUTH_SUBSYSTEM_RAW_MEM_ACCESS

fun auth_subsystem_name :: "auth_subsystem \<Rightarrow> string" where
  "auth_subsystem_name AUTH_SUBSYSTEM_BAR = ''bar-access''"
| "auth_subsystem_name AUTH_SUBSYSTEM_QDMA = ''qdma''"
| "auth_subsystem_name AUTH_SUBSYSTEM_BUFFER = ''buffer''"
| "auth_subsystem_name AUTH_SUBSYSTEM_DESIGN_WRITE = ''design-write''"
| "auth_subsystem_name AUTH_SUBSYSTEM_CFGMEM_PROGRAM = ''cfgmem-program''"
| "auth_subsystem_name AUTH_SUBSYSTEM_CLOCK = ''clock''"
| "auth_subsystem_name AUTH_SUBSYSTEM_PCIE_HOTPLUG = ''pcie-hotplug''"
| "auth_subsystem_name AUTH_SUBSYSTEM_RAW_MEM_ACCESS = ''raw-mem-access''"

fun device_policy_check :: "device_policy \<Rightarrow> auth_subsystem \<Rightarrow> bool" where
  "device_policy_check dp AUTH_SUBSYSTEM_BAR = dp_bar dp"
| "device_policy_check dp AUTH_SUBSYSTEM_QDMA = dp_qdma dp"
| "device_policy_check dp AUTH_SUBSYSTEM_BUFFER = dp_buffer dp"
| "device_policy_check dp AUTH_SUBSYSTEM_DESIGN_WRITE = dp_design_write dp"
| "device_policy_check dp AUTH_SUBSYSTEM_CFGMEM_PROGRAM = dp_cfgmem_program dp"
| "device_policy_check dp AUTH_SUBSYSTEM_CLOCK = dp_clock dp"
| "device_policy_check dp AUTH_SUBSYSTEM_PCIE_HOTPLUG = dp_pcie_hotplug dp"
| "device_policy_check dp AUTH_SUBSYSTEM_RAW_MEM_ACCESS = dp_raw_mem_access dp"

text \<open>The role names of a client, comma separated; \<open>None\<close> when it has no role.\<close>

fun append_roles :: "role list \<Rightarrow> string option \<Rightarrow> string option" where
  "append_roles [] acc = acc"
| "append_roles (r # rs) acc =
     append_roles rs
       (Some (case acc of None \<Rightarrow> role_name r | Some s \<Rightarrow> s @ '', '' @ role_name r))"

fun append_user_roles :: "u32 \<Rightarrow> user_config list \<Rightarrow> string option \<Rightarrow> string option" where
  "append_user_roles uid [] acc = acc"
| "append_user_roles uid (u # us) acc =
     append_user_roles uid us (if uc_uid u \<noteq> uid then acc else append_roles (uc_roles u) acc)"

fun append_group_roles :: "u32 list \<Rightarrow> group_config list \<Rightarrow> string option \<Rightarrow> string option" where
  "append_group_roles gids [] acc = acc"
| "append_group_roles gids (g # gs) acc =
     append_group_roles gids gs (if gc_gid g \<in> set gids then append_roles (gc_roles g) acc else acc)"

definition auth_collect_role_names :: "config \<Rightarrow> client \<Rightarrow> string option" where
  "auth_collect_role_names cfg c =
     append_group_roles (cl_gids c) (cfg_groups cfg)
       (append_user_roles (cl_uid c) (cfg_users cfg)
          (append_roles (uc_roles (default_user cfg)) None))"

datatype denial = Denied (denied_operation: string) (denied_missing: string) (denied_roles: "string option")

definition auth_log_denied :: "config \<Rightarrow> client \<Rightarrow> string \<Rightarrow> string \<Rightarrow> denial list" where
  "auth_log_denied cfg c operation missing_permission =
     [Denied operation missing_permission (auth_collect_role_names cfg c)]"

text \<open>The search for the policy of a device: the exact BDF, else the last \<open>any\<close> entry.\<close>

fun policy_for :: "string \<Rightarrow> device_policy list \<Rightarrow> device_policy option \<Rightarrow> device_policy option" where
  "policy_for dev_bdf [] any_dp = any_dp"
| "policy_for dev_bdf (p # ps) any_dp =
     (if dp_bdf p = dev_bdf then Some p
      else policy_for dev_bdf ps (if dp_bdf p = ''any'' then Some p else any_dp))"

definition denied_msg :: "auth_subsystem \<Rightarrow> string \<Rightarrow> string" where
  "denied_msg subsystem dev_bdf =
     take 127 (auth_subsystem_name subsystem @ '' (device '' @ dev_bdf @ '')'')"

type_synonym auth_result = "bool \<times> denial list"

definition auth_check_device_permission ::
  "config \<Rightarrow> string list \<Rightarrow> client \<Rightarrow> role \<Rightarrow> u32 \<Rightarrow> auth_subsystem \<Rightarrow> string \<Rightarrow> auth_result" where
  "auth_check_device_permission cfg bdfs c r dev_number subsystem operation =
     (if \<not> role_query r then (False, auth_log_denied cfg c operation ''query'')
      else if unat dev_number \<ge> length bdfs then (False, [])
      else let dev_bdf = bdfs ! unat dev_number in
        case policy_for dev_bdf (device_policies r) None of
          None \<Rightarrow> (False, auth_log_denied cfg c operation (denied_msg subsystem dev_bdf))
        | Some dp \<Rightarrow>
            if \<not> device_policy_check dp subsystem
            then (False, auth_log_denied cfg c operation (denied_msg subsystem dev_bdf))
            else (True, []))"

section \<open>Effective roles\<close>

fun merge_users :: "u32 \<Rightarrow> user_config list \<Rightarrow> role \<Rightarrow> role" where
  "merge_users uid [] r = r"
| "merge_users uid (u # us) r =
     merge_users uid us (if uc_uid u = uid then role_merge_add_array r (uc_roles u) else r)"

fun merge_group :: "group_config \<Rightarrow> u32 list \<Rightarrow> role \<Rightarrow> role" where
  "merge_group g [] r = r"
| "merge_group g (gid # gids) r =
     merge_group g gids (if gc_gid g = gid then role_merge_add_array r (gc_roles g) else r)"

fun merge_groups :: "u32 list \<Rightarrow> group_config list \<Rightarrow> role \<Rightarrow> role" where
  "merge_groups gids [] r = r"
| "merge_groups gids (g # gs) r = merge_groups gids gs (merge_group g gids r)"

definition effective_role :: "config \<Rightarrow> client \<Rightarrow> role" where
  "effective_role cfg c =
     merge_groups (cl_gids c) (cfg_groups cfg)
       (merge_users (cl_uid c) (cfg_users cfg)
          (role_merge_add_array (role_merge_new ''TODO: Change this string'')
             (uc_roles (default_user cfg))))"

definition ensure_role :: "config \<Rightarrow> client \<Rightarrow> client" where
  "ensure_role cfg c =
     (case cl_role c of Some _ \<Rightarrow> c | None \<Rightarrow> c\<lparr>cl_role := Some (effective_role cfg c)\<rparr>)"

section \<open>Requests\<close>

type_synonym auth_request = "config \<Rightarrow> string list \<Rightarrow> client \<Rightarrow> u32 \<Rightarrow> bool \<times> client \<times> denial list"

text \<open>The bodies of the query-only and of the device-access checks.\<close>

definition auth_query :: "string \<Rightarrow> auth_request" where
  "auth_query operation cfg bdfs c dev_number =
     (let c = ensure_role cfg c in
      if role_query (the (cl_role c)) then (True, c, [])
      else (False, c, auth_log_denied cfg c operation ''query''))"

definition auth_device :: "auth_subsystem \<Rightarrow> string \<Rightarrow> auth_request" where
  "auth_device subsystem operation cfg bdfs c dev_number =
     (let c = ensure_role cfg c;
          (authorized, log) =
            auth_check_device_permission cfg bdfs c (the (cl_role c)) dev_number subsystem operation
      in (authorized, c, log))"

definition auth_request_get_device_info :: auth_request where
  "auth_request_get_device_info = auth_query ''get_device_info''"

definition auth_request_get_device_by_bdf :: auth_request where
  "auth_request_get_device_by_bdf = auth_query ''get_device_by_bdf''"

definition auth_request_get_num_devices :: auth_request where
  "auth_request_get_num_devices = auth_query ''get_num_devices''"

definition auth_request_get_bar_info :: auth_request where
  "auth_request_get_bar_info = auth_query ''get_bar_info''"

definition auth_request_get_bar_fd :: auth_request where
  "auth_request_get_bar_fd = auth_device AUTH_SUBSYSTEM_BAR ''get_bar_fd''"

definition auth_request_qdma_get_info :: auth_request where
  "auth_request_qdma_get_info = auth_query ''qdma_get_info''"

definition auth_request_qdma_qpair_add :: auth_request where
  "auth_request_qdma_qpair_add = auth_device AUTH_SUBSYSTEM_QDMA ''qdma_qpair_add''"

definition auth_request_qdma_qpair_op :: auth_request where
  "auth_request_qdma_qpair_op = auth_device AUTH_SUBSYSTEM_QDMA ''qdma_qpair_op''"

definition auth_request_qdma_qpair_get_fd :: auth_request where
  "auth_request_qdma_qpair_get_fd = auth_device AUTH_SUBSYSTEM_QDMA ''qdma_qpair_get_fd''"

definition auth_request_buffer_open :: auth_request where
  "auth_request_buffer_open = auth_device AUTH_SUBSYSTEM_BUFFER ''buffer_open''"

definition auth_request_buffer_open_raw :: auth_request where
  "auth_request_buffer_open_raw = auth_device AUTH_SUBSYSTEM_RAW_MEM_ACCESS ''buffer_open_raw''"

definition auth_request_buffer_close :: auth_request where
  "auth_request_buffer_close = auth_device AUTH_SUBSYSTEM_BUFFER ''buffer_close''"

definition auth_request_design_write :: auth_request where
  "auth_request_design_write = auth_device AUTH_SUBSYSTEM_DESIGN_WRITE ''design_write''"

definition auth_request_cfgmem_program :: auth_request where
  "auth_request_cfgmem_program = auth_device AUTH_SUBSYSTEM_CFGMEM_PROGRAM ''cfgmem_program''"

definition auth_request_device_hotplug_op :: auth_request where
  "auth_request_device_hotplug_op = auth_device AUTH_SUBSYSTEM_PCIE_HOTPLUG ''device_hotplug_op''"

definition auth_request_set_shell_state :: auth_request where
  "auth_request_set_shell_state = auth_device AUTH_SUBSYSTEM_PCIE_HOTPLUG ''set_shell_state''"

definition auth_request_clock_op :: auth_request where
  "auth_request_clock_op = auth_device AUTH_SUBSYSTEM_CLOCK ''clock_op''"

definition auth_request_get_sensor_info :: auth_request where
  "auth_request_get_sensor_info = auth_query ''get_sensor_info''"

section \<open>The effective role is the union of the applicable roles\<close>

text \<open>The roles that apply to a client, as the documentation lists them.\<close>

definition applicable :: "config \<Rightarrow> client \<Rightarrow> role set" where
  "applicable cfg c =
     set (uc_roles (default_user cfg)) \<union>
     (\<Union>u\<in>{u \<in> set (cfg_users cfg). uc_uid u = cl_uid c}. set (uc_roles u)) \<union>
     (\<Union>g\<in>{g \<in> set (cfg_groups cfg). gc_gid g \<in> set (cl_gids c)}. set (gc_roles g))"

text \<open>Each merging step merges the roles of some list.\<close>

lemma merge_users_array:
  "merge_users uid us r =
     role_merge_add_array r (concat (map uc_roles (filter (\<lambda>u. uc_uid u = uid) us)))"
  by (induction us arbitrary: r) (auto simp: role_merge_append)

lemma merge_group_array:
  "merge_group g gids r =
     role_merge_add_array r (concat (map (\<lambda>_. gc_roles g) (filter (\<lambda>gid. gc_gid g = gid) gids)))"
  by (induction gids arbitrary: r) (auto simp: role_merge_append)

lemma merge_groups_array:
  "merge_groups gids gs r =
     role_merge_add_array r
       (concat (map (\<lambda>g. concat (map (\<lambda>_. gc_roles g) (filter (\<lambda>gid. gc_gid g = gid) gids))) gs))"
  by (induction gs arbitrary: r) (auto simp: role_merge_append merge_group_array)

lemma effective_role_array:
  "\<exists>rs. effective_role cfg c = role_merge_add_array (new_role ''TODO: Change this string'') rs \<and>
     set rs = applicable cfg c"
  unfolding effective_role_def merge_users_array merge_groups_array role_merge_append role_merge_new_def
  by (rule exI, rule conjI, rule refl) (auto simp: applicable_def)

lemma effective_role_union:
  shows "role_ok (effective_role cfg c)"
    and "role_query (effective_role cfg c) \<longleftrightarrow> (\<exists>r\<in>applicable cfg c. role_query r)"
    and "has_policy (device_policies (effective_role cfg c)) b \<longleftrightarrow>
           (\<exists>r\<in>applicable cfg c. has_policy (device_policies r) b)"
    and "merge_flag f \<Longrightarrow> grants (device_policies (effective_role cfg c)) b f \<longleftrightarrow>
           (\<exists>r\<in>applicable cfg c. grants (device_policies r) b f)"
proof -
  obtain rs where rs: "effective_role cfg c = role_merge_add_array (new_role ''TODO: Change this string'') rs"
    "set rs = applicable cfg c"
    using effective_role_array by blast
  have new: "role_ok (new_role nm)" "\<not> role_query (new_role nm)" "device_policies (new_role nm) = []" for nm
    by (simp_all add: new_role_def role_ok_def)
  show "role_ok (effective_role cfg c)" unfolding rs(1) by (rule role_merge_union(1) [OF new(1)])
  show "role_query (effective_role cfg c) \<longleftrightarrow> (\<exists>r\<in>applicable cfg c. role_query r)"
    unfolding rs(1) role_merge_union(2) [OF new(1)] rs(2) by (simp add: new)
  show "has_policy (device_policies (effective_role cfg c)) b \<longleftrightarrow>
      (\<exists>r\<in>applicable cfg c. has_policy (device_policies r) b)"
    unfolding rs(1) role_merge_union(3) [OF new(1)] rs(2) by (simp add: new has_policy_def)
  show "grants (device_policies (effective_role cfg c)) b f \<longleftrightarrow>
      (\<exists>r\<in>applicable cfg c. grants (device_policies r) b f)" if "merge_flag f"
    unfolding rs(1) role_merge_union(4) [OF new(1) that] rs(2) by (simp add: new grants_def)
qed

lemma check_merge_flag: "merge_flag (\<lambda>dp. device_policy_check dp sub)"
  by (cases sub) (simp_all add: merge_flag_def merge_policy_def new_device_policy_def)

text \<open>The policy that applies to a device.\<close>

lemma policy_for_exact: "has_policy ps bdf \<Longrightarrow> \<exists>p. policy_for bdf ps any_dp = Some p \<and> p \<in> set ps \<and> dp_bdf p = bdf"
  by (induction ps arbitrary: any_dp) (auto simp: has_policy_def)

lemma policy_for_any:
  "\<not> has_policy ps bdf \<Longrightarrow> has_policy ps ''any'' \<Longrightarrow>
   \<exists>p. policy_for bdf ps any_dp = Some p \<and> p \<in> set ps \<and> dp_bdf p = ''any''"
proof (induction ps arbitrary: any_dp)
  case (Cons p ps)
  have n: "\<not> has_policy ps bdf" "dp_bdf p \<noteq> bdf" using Cons.prems(1) by (auto simp: has_policy_def)
  have last: "policy_for bdf ps a = a" if "\<not> has_policy ps ''any''" for a
    using that n(1) by (induction ps arbitrary: a) (auto simp: has_policy_def)
  show ?case
  proof (cases "has_policy ps ''any''")
    case True
    then show ?thesis using Cons.IH [OF n(1) True] n(2) by fastforce
  next
    case False
    then have "dp_bdf p = ''any''" using Cons.prems(2) by (auto simp: has_policy_def)
    then show ?thesis using n(2) last [OF False] by simp
  qed
qed (simp add: has_policy_def)

lemma policy_for_none:
  "\<not> has_policy ps bdf \<Longrightarrow> \<not> has_policy ps ''any'' \<Longrightarrow> policy_for bdf ps any_dp = any_dp"
  by (induction ps arbitrary: any_dp) (auto simp: has_policy_def)

lemma grants_unique:
  assumes "distinct (map dp_bdf ps)" and "p \<in> set ps"
  shows "grants ps (dp_bdf p) f \<longleftrightarrow> f p"
  using assms by (auto simp: grants_def distinct_map inj_on_def)

definition role_permits :: "role \<Rightarrow> string \<Rightarrow> auth_subsystem \<Rightarrow> bool" where
  "role_permits r bdf sub \<longleftrightarrow>
     grants (device_policies r) (if has_policy (device_policies r) bdf then bdf else ''any'')
       (\<lambda>dp. device_policy_check dp sub)"

lemma policy_for_permits:
  assumes "role_ok r"
  shows "(case policy_for bdf (device_policies r) None of None \<Rightarrow> False | Some dp \<Rightarrow> device_policy_check dp sub) \<longleftrightarrow>
    role_permits r bdf sub"
proof -
  let ?ps = "device_policies r"
  have d: "distinct (map dp_bdf ?ps)" using assms by (simp add: role_ok_def)
  consider "has_policy ?ps bdf" | "\<not> has_policy ?ps bdf" "has_policy ?ps ''any''"
    | "\<not> has_policy ?ps bdf" "\<not> has_policy ?ps ''any''" by blast
  then show ?thesis
  proof cases
    case 1
    then obtain p where p: "policy_for bdf ?ps None = Some p" "p \<in> set ?ps" "dp_bdf p = bdf"
      using policy_for_exact by blast
    show ?thesis using grants_unique [OF d p(2), of "\<lambda>dp. device_policy_check dp sub"] p 1
      by (simp add: role_permits_def)
  next
    case 2
    then obtain p where p: "policy_for bdf ?ps None = Some p" "p \<in> set ?ps" "dp_bdf p = ''any''"
      using policy_for_any by blast
    show ?thesis using grants_unique [OF d p(2), of "\<lambda>dp. device_policy_check dp sub"] p 2
      by (simp add: role_permits_def)
  next
    case 3
    then show ?thesis
      using policy_for_none [OF 3] by (auto simp: role_permits_def grants_def has_policy_def)
  qed
qed

section \<open>Properties of authorisation\<close>

definition may_query :: "config \<Rightarrow> client \<Rightarrow> bool" where
  "may_query cfg c \<longleftrightarrow> (\<exists>r\<in>applicable cfg c. role_query r)"

text \<open>
  The documented policy: the entries of the applicable roles for the exact device decide, when
  any of these roles has one; else their \<open>any\<close> entries do.
\<close>

definition permitted :: "config \<Rightarrow> client \<Rightarrow> string list \<Rightarrow> u32 \<Rightarrow> auth_subsystem \<Rightarrow> bool" where
  "permitted cfg c bdfs dev sub \<longleftrightarrow>
     may_query cfg c \<and> unat dev < length bdfs \<and>
     (let bdf = bdfs ! unat dev;
          selector = (if \<exists>r\<in>applicable cfg c. has_policy (device_policies r) bdf then bdf else ''any'')
      in \<exists>r\<in>applicable cfg c. grants (device_policies r) selector (\<lambda>dp. device_policy_check dp sub))"

text \<open>The role a client carries is not set yet or was computed from this configuration.\<close>

definition role_current :: "config \<Rightarrow> client \<Rightarrow> bool" where
  "role_current cfg c \<longleftrightarrow> cl_role c = None \<or> cl_role c = Some (effective_role cfg c)"

definition device_requests :: "(auth_request \<times> auth_subsystem \<times> string) list" where
  "device_requests =
     [(auth_request_get_bar_fd, AUTH_SUBSYSTEM_BAR, ''get_bar_fd''),
      (auth_request_qdma_qpair_add, AUTH_SUBSYSTEM_QDMA, ''qdma_qpair_add''),
      (auth_request_qdma_qpair_op, AUTH_SUBSYSTEM_QDMA, ''qdma_qpair_op''),
      (auth_request_qdma_qpair_get_fd, AUTH_SUBSYSTEM_QDMA, ''qdma_qpair_get_fd''),
      (auth_request_buffer_open, AUTH_SUBSYSTEM_BUFFER, ''buffer_open''),
      (auth_request_buffer_open_raw, AUTH_SUBSYSTEM_RAW_MEM_ACCESS, ''buffer_open_raw''),
      (auth_request_buffer_close, AUTH_SUBSYSTEM_BUFFER, ''buffer_close''),
      (auth_request_design_write, AUTH_SUBSYSTEM_DESIGN_WRITE, ''design_write''),
      (auth_request_cfgmem_program, AUTH_SUBSYSTEM_CFGMEM_PROGRAM, ''cfgmem_program''),
      (auth_request_device_hotplug_op, AUTH_SUBSYSTEM_PCIE_HOTPLUG, ''device_hotplug_op''),
      (auth_request_set_shell_state, AUTH_SUBSYSTEM_PCIE_HOTPLUG, ''set_shell_state''),
      (auth_request_clock_op, AUTH_SUBSYSTEM_CLOCK, ''clock_op'')]"

definition query_requests :: "(auth_request \<times> string) list" where
  "query_requests =
     [(auth_request_get_device_info, ''get_device_info''),
      (auth_request_get_device_by_bdf, ''get_device_by_bdf''),
      (auth_request_get_num_devices, ''get_num_devices''),
      (auth_request_get_bar_info, ''get_bar_info''),
      (auth_request_qdma_get_info, ''qdma_get_info''),
      (auth_request_get_sensor_info, ''get_sensor_info'')]"

lemmas device_request_defs = auth_request_get_bar_fd_def auth_request_qdma_qpair_add_def
  auth_request_qdma_qpair_op_def auth_request_qdma_qpair_get_fd_def auth_request_buffer_open_def
  auth_request_buffer_open_raw_def auth_request_buffer_close_def auth_request_design_write_def
  auth_request_cfgmem_program_def auth_request_device_hotplug_op_def
  auth_request_set_shell_state_def auth_request_clock_op_def

lemmas query_request_defs = auth_request_get_device_info_def auth_request_get_device_by_bdf_def
  auth_request_get_num_devices_def auth_request_get_bar_info_def auth_request_qdma_get_info_def
  auth_request_get_sensor_info_def

lemma device_request_body: "(req, sub, op) \<in> set device_requests \<Longrightarrow> req = auth_device sub op"
  unfolding device_requests_def device_request_defs by auto

lemma query_request_body: "(req, op) \<in> set query_requests \<Longrightarrow> req = auth_query op"
  unfolding query_requests_def query_request_defs by auto

lemma ensure_role_current:
  assumes "role_current cfg c"
  shows "ensure_role cfg c = c\<lparr>cl_role := Some (effective_role cfg c)\<rparr>"
  using assms by (auto simp: role_current_def ensure_role_def)

lemma applicable_role_upd [simp]: "applicable cfg (c\<lparr>cl_role := r\<rparr>) = applicable cfg c"
  by (simp add: applicable_def)

lemma effective_role_upd [simp]: "effective_role cfg (c\<lparr>cl_role := r\<rparr>) = effective_role cfg c"
  by (simp add: effective_role_def)

lemma collect_role_upd [simp]:
  "auth_collect_role_names cfg (c\<lparr>cl_role := r\<rparr>) = auth_collect_role_names cfg c"
  by (simp add: auth_collect_role_names_def)

lemma permitted_upd [simp]:
  "may_query cfg (c\<lparr>cl_role := r\<rparr>) = may_query cfg c"
  "permitted cfg (c\<lparr>cl_role := r\<rparr>) bdfs dev sub = permitted cfg c bdfs dev sub"
  by (simp_all add: may_query_def permitted_def)

text \<open>The check, branch by branch, against the documented policy.\<close>

lemma auth_check_effective:
  "auth_check_device_permission cfg bdfs c (effective_role cfg c) dev sub op =
     (permitted cfg c bdfs dev sub,
      if permitted cfg c bdfs dev sub \<or> may_query cfg c \<and> unat dev \<ge> length bdfs then []
      else auth_log_denied cfg c op
             (if may_query cfg c then denied_msg sub (bdfs ! unat dev) else ''query''))"
proof -
  let ?r = "effective_role cfg c"
  note U = effective_role_union [where cfg = cfg and c = c]
  have perm: "role_permits ?r bdf sub \<longleftrightarrow>
      (\<exists>r\<in>applicable cfg c. grants (device_policies r)
         (if \<exists>r\<in>applicable cfg c. has_policy (device_policies r) bdf then bdf else ''any'')
         (\<lambda>dp. device_policy_check dp sub))" for bdf
    unfolding role_permits_def U(3) U(4) [OF check_merge_flag] by simp
  show ?thesis
  proof (cases "may_query cfg c \<and> unat dev < length bdfs")
    case False
    then show ?thesis
      by (auto simp: auth_check_device_permission_def U(2) may_query_def permitted_def)
  next
    case True
    then have p: "permitted cfg c bdfs dev sub \<longleftrightarrow> role_permits ?r (bdfs ! unat dev) sub"
      by (simp add: permitted_def perm Let_def)
    show ?thesis
      using True policy_for_permits [OF U(1), where bdf = "bdfs ! unat dev" and sub = sub]
      unfolding p auth_check_device_permission_def
      by (auto simp: U(2) may_query_def Let_def split: option.splits)
  qed
qed

lemma auth_device_effective:
  assumes "role_current cfg c"
  shows "auth_device sub op cfg bdfs c dev =
    (permitted cfg c bdfs dev sub, c\<lparr>cl_role := Some (effective_role cfg c)\<rparr>,
     if permitted cfg c bdfs dev sub \<or> may_query cfg c \<and> unat dev \<ge> length bdfs then []
     else auth_log_denied cfg c op
            (if may_query cfg c then denied_msg sub (bdfs ! unat dev) else ''query''))"
  using auth_check_effective [of cfg bdfs "c\<lparr>cl_role := Some (effective_role cfg c)\<rparr>" dev sub op]
  by (simp add: auth_device_def ensure_role_current [OF assms] Let_def auth_log_denied_def)

text \<open>A board with two devices; one role with an \<open>any\<close> entry, one with an entry for the first.\<close>

definition ops_role :: role where
  "ops_role = \<lparr>role_name = ''ops'', device_policies = [(new_device_policy ''any'')\<lparr>dp_qdma := True\<rparr>], role_query = True\<rparr>"

definition lab_role :: role where
  "lab_role = \<lparr>role_name = ''lab'', device_policies = [(new_device_policy ''0000:03:00'')\<lparr>dp_bar := True\<rparr>], role_query = True\<rparr>"

definition user_with :: "role list \<Rightarrow> config" where
  "user_with rs =
     \<lparr>cfg_roles = [ops_role, lab_role],
      default_user = \<lparr>uc_name = ''*'', uc_uid = 0, uc_role_names = [], uc_roles = []\<rparr>,
      cfg_users = [\<lparr>uc_name = ''alice'', uc_uid = 1000, uc_role_names = map role_name rs, uc_roles = rs\<rparr>],
      cfg_groups = [], mock_device = False\<rparr>"

definition alice :: client where
  "alice = \<lparr>cl_uid = 1000, cl_gids = [], cl_conn_id = 7, cl_role = None\<rparr>"



text \<open>
  C35: Every denied device-access request is logged once, with its operation, the permission that
  was missing and the roles of the client. A granted request logs nothing, and the only silent
  denial is a device index outside the table.
\<close>

theorem denials_are_logged:
  assumes "role_current cfg c" and "(req, sub, op) \<in> set device_requests"
  shows "snd (snd (req cfg bdfs c dev)) =
    (if fst (req cfg bdfs c dev) \<or> may_query cfg c \<and> unat dev \<ge> length bdfs then []
     else [Denied op (if may_query cfg c then denied_msg sub (bdfs ! unat dev) else ''query'')
             (auth_collect_role_names cfg c)])"
  unfolding device_request_body [OF assms(2)] auth_device_effective [OF assms(1)]
  by (simp add: auth_log_denied_def)

theorem denials_are_logged_witness:
  "snd (snd (auth_request_clock_op (user_with []) [''0000:03:00''] alice 0)) =
     [Denied ''clock_op'' ''query'' None]"
proof -
  have c: "role_current (user_with []) alice" by (simp add: role_current_def alice_def)
  have m: "(auth_request_clock_op, AUTH_SUBSYSTEM_CLOCK, ''clock_op'') \<in> set device_requests"
    by (simp add: device_requests_def)
  have "\<not> may_query (user_with []) alice"
    by (simp add: may_query_def applicable_def user_with_def)
  moreover have "auth_collect_role_names (user_with []) alice = None" by code_simp
  moreover have "\<not> fst (auth_request_clock_op (user_with []) [''0000:03:00''] alice 0)" by code_simp
  ultimately show ?thesis using denials_are_logged [OF c m, of "[''0000:03:00'']" 0] by simp
qed


end
