(* ===== verification/Vrtd_Allocator.thy ===== *)
theory Vrtd_Allocator
  imports Slash_Prelude
begin

text \<open>
  The daemon's device-memory tracker, from \<^verbatim>\<open>vrt/vrtd/src/allocator.c\<close> and \<^verbatim>\<open>allocator.h\<close>: two
  memory classes of 64 regions, each of 8 subregions of 64 MiB, where a subregion records the
  connection that owns it (0 is free).

  Every array access is checked: an index outside the arrays would make the operation \<open>None\<close>,
  so that the theorems that an operation yields a result show it stays in bounds. Null-pointer
  arguments have no counterpart here; \<open>addr_out\<close> is passed in because a failing call leaves it.
\<close>

section \<open>Model\<close>

abbreviation (input) HBM_REGIONS :: nat where "HBM_REGIONS \<equiv> 64"
abbreviation (input) DDR_REGIONS :: nat where "DDR_REGIONS \<equiv> 64"
abbreviation (input) HBM_START_ADDRESS :: u64 where "HBM_START_ADDRESS \<equiv> 0x4000000000"
abbreviation (input) DDR_START_ADDRESS :: u64 where "DDR_START_ADDRESS \<equiv> 0x60000000000"
abbreviation (input) REGION_SIZE :: u64 where "REGION_SIZE \<equiv> 0x20000000"
abbreviation (input) SUBREGION_SIZE :: u64 where "SUBREGION_SIZE \<equiv> 0x4000000"
abbreviation (input) SUBREGIONS_PER_REGION :: nat where "SUBREGIONS_PER_REGION \<equiv> 8"

text \<open>\<open>client_id\<close> of every subregion of every region of one class.\<close>

type_synonym regions = "nat \<Rightarrow> nat \<Rightarrow> u64"

record device_memory_map =
  ddr_regions :: regions
  hbm_regions :: regions

datatype allocation_type = ALLOCATION_TYPE_DDR | ALLOCATION_TYPE_HBM | ALLOCATION_TYPE_HBM_VNOC

datatype allocation_result =
  ALLOCATION_RESULT_SUCCESS | ALLOCATION_RESULT_NO_MEMORY | ALLOCATION_RESULT_BAD_ARGUMENT

definition device_memory_map_create :: device_memory_map where
  "device_memory_map_create = \<lparr>ddr_regions = (\<lambda>_ _. 0), hbm_regions = (\<lambda>_ _. 0)\<rparr>"

definition client_read :: "regions \<Rightarrow> nat \<Rightarrow> nat \<Rightarrow> u64 option" where
  "client_read R r i = (if r < 64 \<and> i < SUBREGIONS_PER_REGION then Some (R r i) else None)"

definition put_client :: "nat \<Rightarrow> nat \<Rightarrow> u64 \<Rightarrow> regions \<Rightarrow> regions" where
  "put_client r i c R = R(r := (R r)(i := c))"

definition client_write :: "nat \<Rightarrow> nat \<Rightarrow> u64 \<Rightarrow> regions \<Rightarrow> regions option" where
  "client_write r i c R =
     (if r < 64 \<and> i < SUBREGIONS_PER_REGION then Some (put_client r i c R) else None)"

text \<open>Round up to whole subregions, in 64-bit arithmetic.\<close>

definition subregion_count :: "u64 \<Rightarrow> u64" where
  "subregion_count sz = (sz + SUBREGION_SIZE - 1) div SUBREGION_SIZE"

text \<open>The sliding window over one region: the first subregion of a long enough free run.\<close>

fun find_run :: "regions \<Rightarrow> nat \<Rightarrow> u64 \<Rightarrow> nat \<Rightarrow> nat list \<Rightarrow> nat option option" where
  "find_run R r num contiguous_free [] = Some None"
| "find_run R r num contiguous_free (i # is) = do {
     owner \<leftarrow> client_read R r i;
     if owner = 0
     then if of_nat (contiguous_free + 1) = num then Some (Some (i + 1 - unat num))
          else find_run R r num (contiguous_free + 1) is
     else find_run R r num 0 is
   }"

text \<open>Stamp the subregions \<open>start + i\<close> for the listed \<open>i\<close>.\<close>

fun stamp :: "nat \<Rightarrow> nat \<Rightarrow> u64 \<Rightarrow> nat list \<Rightarrow> regions \<Rightarrow> regions option" where
  "stamp r start c [] R = Some R"
| "stamp r start c (i # is) R = do {
     R \<leftarrow> client_write r (start + i) c R;
     stamp r start c is R
   }"

text \<open>First fit over the listed regions: the region and first subregion taken, and the map.\<close>

fun take_run :: "u64 \<Rightarrow> u64 \<Rightarrow> nat list \<Rightarrow> regions \<Rightarrow> ((nat \<times> nat) option \<times> regions) option" where
  "take_run num c [] R = Some (None, R)"
| "take_run num c (r # rs) R = do {
     found \<leftarrow> find_run R r num 0 [0..<SUBREGIONS_PER_REGION];
     (case found of
        Some start \<Rightarrow> do {
          R \<leftarrow> stamp r start c [0..<unat num] R;
          Some (Some (r, start), R)
        }
      | None \<Rightarrow> take_run num c rs R)
   }"

definition run_address :: "u64 \<Rightarrow> nat \<Rightarrow> nat \<Rightarrow> u64" where
  "run_address base r start = base + of_nat r * REGION_SIZE + of_nat start * SUBREGION_SIZE"

type_synonym allocation = "allocation_result \<times> u64 \<times> u64 \<times> device_memory_map"

text \<open>The result, \<open>*size\<close>, \<open>*addr_out\<close> and the map after a scan of one class.\<close>

definition allocate_from ::
  "u64 \<Rightarrow> u64 \<Rightarrow> u64 \<Rightarrow> nat list \<Rightarrow> u64 \<Rightarrow> u64 \<Rightarrow> regions \<Rightarrow>
   (allocation_result \<times> u64 \<times> u64 \<times> regions) option" where
  "allocate_from base num c rs sz addr R = do {
     (found, R) \<leftarrow> take_run num c rs R;
     (case found of
        Some (r, start) \<Rightarrow>
          Some (ALLOCATION_RESULT_SUCCESS, num * SUBREGION_SIZE, run_address base r start, R)
      | None \<Rightarrow> Some (ALLOCATION_RESULT_NO_MEMORY, sz, addr, R))
   }"

definition device_memory_map_allocate ::
  "allocation_type \<Rightarrow> u64 \<Rightarrow> u64 \<Rightarrow> u64 \<Rightarrow> u64 \<Rightarrow> device_memory_map \<Rightarrow> allocation option" where
  "device_memory_map_allocate ty sz arg client addr m =
     (let bad = Some (ALLOCATION_RESULT_BAD_ARGUMENT, sz, addr, m);
          num = subregion_count sz
      in
      if sz = 0 then bad
      else if client = 0 then bad
      else (case ty of
          ALLOCATION_TYPE_DDR \<Rightarrow>
            if num > of_nat SUBREGIONS_PER_REGION then bad
            else do {
              (res, sz, addr, R) \<leftarrow>
                allocate_from DDR_START_ADDRESS num client [0..<DDR_REGIONS] sz addr (ddr_regions m);
              Some (res, sz, addr, m\<lparr>ddr_regions := R\<rparr>)
            }
        | ALLOCATION_TYPE_HBM \<Rightarrow>
            if arg \<ge> of_nat HBM_REGIONS \<or> num > of_nat SUBREGIONS_PER_REGION then bad
            else do {
              (res, sz, addr, R) \<leftarrow>
                allocate_from HBM_START_ADDRESS num client [unat arg] sz addr (hbm_regions m);
              Some (res, sz, addr, m\<lparr>hbm_regions := R\<rparr>)
            }
        | ALLOCATION_TYPE_HBM_VNOC \<Rightarrow>
            if num > of_nat SUBREGIONS_PER_REGION then bad
            else do {
              (res, sz, addr, R) \<leftarrow>
                allocate_from HBM_START_ADDRESS num client [0..<HBM_REGIONS] sz addr (hbm_regions m);
              Some (res, sz, addr, m\<lparr>hbm_regions := R\<rparr>)
            }))"

fun owned_run :: "regions \<Rightarrow> nat \<Rightarrow> nat \<Rightarrow> u64 \<Rightarrow> nat list \<Rightarrow> bool option" where
  "owned_run R r start c [] = Some True"
| "owned_run R r start c (i # is) = do {
     owner \<leftarrow> client_read R r (start + i);
     if owner \<noteq> c then Some False else owned_run R r start c is
   }"

text \<open>Verify the whole run, then clear it.\<close>

definition free_from ::
  "u64 \<Rightarrow> u64 \<Rightarrow> u64 \<Rightarrow> u64 \<Rightarrow> regions \<Rightarrow> (allocation_result \<times> regions) option" where
  "free_from base addr sz c R =
     (if addr < base \<or> addr \<ge> base + of_nat 64 * REGION_SIZE
      then Some (ALLOCATION_RESULT_BAD_ARGUMENT, R)
      else let off = addr - base in
        if off mod SUBREGION_SIZE \<noteq> 0 then Some (ALLOCATION_RESULT_BAD_ARGUMENT, R)
        else let num = subregion_count sz;
                 r = unat (off div REGION_SIZE);
                 start = unat ((off mod REGION_SIZE) div SUBREGION_SIZE)
             in
          if num > of_nat SUBREGIONS_PER_REGION \<or>
             of_nat start + num > of_nat SUBREGIONS_PER_REGION
          then Some (ALLOCATION_RESULT_BAD_ARGUMENT, R)
          else do {
            owned \<leftarrow> owned_run R r start c [0..<unat num];
            if \<not> owned then Some (ALLOCATION_RESULT_BAD_ARGUMENT, R)
            else do {
              R \<leftarrow> stamp r start 0 [0..<unat num] R;
              Some (ALLOCATION_RESULT_SUCCESS, R)
            }
          })"

definition device_memory_map_free ::
  "allocation_type \<Rightarrow> u64 \<Rightarrow> u64 \<Rightarrow> u64 \<Rightarrow> device_memory_map
    \<Rightarrow> (allocation_result \<times> device_memory_map) option" where
  "device_memory_map_free ty addr sz client m =
     (if sz = 0 \<or> client = 0 then Some (ALLOCATION_RESULT_BAD_ARGUMENT, m)
      else (case ty of
          ALLOCATION_TYPE_DDR \<Rightarrow> do {
            (res, R) \<leftarrow> free_from DDR_START_ADDRESS addr sz client (ddr_regions m);
            Some (res, m\<lparr>ddr_regions := R\<rparr>)
          }
        | _ \<Rightarrow> do {
            (res, R) \<leftarrow> free_from HBM_START_ADDRESS addr sz client (hbm_regions m);
            Some (res, m\<lparr>hbm_regions := R\<rparr>)
          }))"
section \<open>One region\<close>

definition run_free :: "regions \<Rightarrow> nat \<Rightarrow> nat \<Rightarrow> nat \<Rightarrow> bool" where
  "run_free R r start n \<longleftrightarrow> start + n \<le> 8 \<and> (\<forall>i < n. R r (start + i) = 0)"

text \<open>The map after \<open>n\<close> subregions from \<open>start\<close> of region \<open>r\<close> are given to \<open>c\<close>.\<close>

definition give :: "nat \<Rightarrow> nat \<Rightarrow> nat \<Rightarrow> u64 \<Rightarrow> regions \<Rightarrow> regions" where
  "give r start n c R = (\<lambda>r' i. if r' = r \<and> start \<le> i \<and> i < start + n then c else R r' i)"

lemma run_free_hit: "run_free R r s n \<Longrightarrow> s \<le> k \<Longrightarrow> k < s + n \<Longrightarrow> R r k = 0"
  unfolding run_free_def by (metis le_add_diff_inverse nat_add_left_cancel_less)

lemma find_run_from:
  assumes "r < 64" and "unat num = n" and "0 < n" and "n \<le> 8"
    and "k \<le> 8" and "cf < n" and "cf \<le> k" and "\<And>j. k - cf \<le> j \<Longrightarrow> j < k \<Longrightarrow> R r j = 0"
    and "\<And>s. s < k - cf \<Longrightarrow> \<not> run_free R r s n"
  shows "\<exists>res. find_run R r num cf [k..<8] = Some res \<and>
    (case res of Some s \<Rightarrow> run_free R r s n \<and> (\<forall>s' < s. \<not> run_free R r s' n)
     | None \<Rightarrow> \<forall>s. \<not> run_free R r s n)"
  using assms(5-)
proof (induction "8 - k" arbitrary: k cf)
  case 0
  then have "k = 8" by simp
  have "\<not> run_free R r s n" for s
    using 0 \<open>k = 8\<close> by (cases "s < 8 - cf") (auto simp: run_free_def)
  then show ?case using \<open>k = 8\<close> by auto
next
  case (Suc d)
  then have k: "k < 8" by simp
  then have list: "[k..<8] = k # [Suc k..<8]" by (simp add: upt_conv_Cons)
  have read: "client_read R r k = Some (R r k)" using assms(1) k by (simp add: client_read_def)
  have num: "of_nat (cf + 1) = num \<longleftrightarrow> cf + 1 = n"
    using assms(2) Suc.prems(2) assms(4)
    by (simp add: word_unat_eq_iff unat_word_ariths unat_of_nat)
  show ?case
  proof (cases "R r k = 0")
    case free: True
    show ?thesis
    proof (cases "cf + 1 = n")
      case True
      then have "run_free R r (k - cf) n"
        using Suc.prems free k unfolding run_free_def
        by (auto simp: less_Suc_eq)
      then show ?thesis
        using True list read free num assms(2) Suc.prems(5) by (auto simp: Suc_diff_le)
    next
      case False
      have "\<exists>res. find_run R r num (cf + 1) [Suc k..<8] = Some res \<and>
        (case res of Some s \<Rightarrow> run_free R r s n \<and> (\<forall>s' < s. \<not> run_free R r s' n)
         | None \<Rightarrow> \<forall>s. \<not> run_free R r s n)"
        by (rule Suc.hyps(1)) (use Suc False free in \<open>auto simp: less_Suc_eq\<close>)
      then show ?thesis using False list read free num by simp
    qed
  next
    case False
    have "\<not> run_free R r s n" if "s < Suc k" for s
    proof (cases "s < k - cf")
      case True
      then show ?thesis by (rule Suc.prems(5))
    next
      case late: False
      then have "k < s + n" using Suc.prems(2) by linarith
      then show ?thesis using run_free_hit [of R r s n k] False that by auto
    qed
    then have "\<exists>res. find_run R r num 0 [Suc k..<8] = Some res \<and>
        (case res of Some s \<Rightarrow> run_free R r s n \<and> (\<forall>s' < s. \<not> run_free R r s' n)
         | None \<Rightarrow> \<forall>s. \<not> run_free R r s n)"
      by (intro Suc.hyps(1)) (use Suc assms(3) in auto)
    then show ?thesis using False list read by simp
  qed
qed

lemma find_run_spec:
  assumes "r < 64" and "unat num = n" and "0 < n" and "n \<le> 8"
  obtains s where "find_run R r num 0 [0..<8] = Some (Some s)" "run_free R r s n"
      "\<forall>s' < s. \<not> run_free R r s' n"
  | "find_run R r num 0 [0..<8] = Some None" "\<forall>s. \<not> run_free R r s n"
proof -
  obtain res where "find_run R r num 0 [0..<8] = Some res"
    and "case res of Some s \<Rightarrow> run_free R r s n \<and> (\<forall>s' < s. \<not> run_free R r s' n)
      | None \<Rightarrow> \<forall>s. \<not> run_free R r s n"
    using find_run_from [OF assms, where k = 0 and cf = 0 and R = R] assms(3) by auto
  then show thesis using that by (cases res) auto
qed

lemma stamp_list:
  assumes "r < 64" and "\<And>i. i \<in> set is \<Longrightarrow> start + i < 8"
  shows "stamp r start c is R = Some (\<lambda>r' j. if r' = r \<and> j \<in> (+) start ` set is then c else R r' j)"
  using assms(2)
proof (induction "is" arbitrary: R)
  case (Cons i "is")
  then show ?case
    using assms(1) by (simp add: client_write_def put_client_def fun_eq_iff)
qed simp

lemma stamp_spec:
  assumes "r < 64" and "start + n \<le> 8"
  shows "stamp r start c [0..<n] R = Some (give r start n c R)"
proof -
  have "j \<in> (+) start ` set [0..<n] \<longleftrightarrow> start \<le> j \<and> j < start + n" for j
    by (auto simp: image_iff)
  then show ?thesis
    using stamp_list [OF assms(1), of "[0..<n]" start c R] assms(2) by (simp add: give_def)
qed

lemma owned_run_spec:
  assumes "r < 64" and "start + n \<le> 8"
  shows "owned_run R r start c [0..<n] = Some (\<forall>i < n. R r (start + i) = c)"
proof -
  have "owned_run R r start c is = Some (\<forall>i \<in> set is. R r (start + i) = c)"
    if "\<And>i. i \<in> set is \<Longrightarrow> start + i < 8" for "is"
    using that assms(1) by (induction "is") (auto simp: client_read_def)
  from this [of "[0..<n]"] show ?thesis using assms(2) by auto
qed

section \<open>One class\<close>

text \<open>First fit: the regions before the one taken have no free run of the length.\<close>

lemma take_run_spec:
  assumes "unat num = n" and "0 < n" and "n \<le> 8" and "\<forall>r \<in> set rs. r < 64"
  obtains pre r post s where "take_run num c rs R = Some (Some (r, s), give r s n c R)"
      "rs = pre @ r # post" "run_free R r s n" "\<forall>s' < s. \<not> run_free R r s' n"
      "\<forall>r' \<in> set pre. \<forall>s. \<not> run_free R r' s n"
  | "take_run num c rs R = Some (None, R)" "\<forall>r \<in> set rs. \<forall>s. \<not> run_free R r s n"
  using assms(4)
proof (induction rs arbitrary: thesis)
  case Nil
  then show ?case by simp
next
  case (Cons r rs)
  have r: "r < 64" using Cons.prems(3) by simp
  show ?case
  proof (rule find_run_spec [OF r assms(1-3), of R])
    fix s
    assume "find_run R r num 0 [0..<8] = Some (Some s)" and run: "run_free R r s n"
      and "\<forall>s' < s. \<not> run_free R r s' n"
    moreover have "stamp r s c [0..<n] R = Some (give r s n c R)"
      using stamp_spec [OF r] run by (simp add: run_free_def)
    ultimately show ?case
      using Cons.prems(1) [of r s "[]" rs] assms(1) by simp
  next
    assume none: "find_run R r num 0 [0..<8] = Some None" "\<forall>s. \<not> run_free R r s n"
    show ?case
    proof (rule Cons.IH)
      fix pre r' post s
      assume "take_run num c rs R = Some (Some (r', s), give r' s n c R)"
        "rs = pre @ r' # post" "run_free R r' s n" "\<forall>s' < s. \<not> run_free R r' s' n"
        "\<forall>r'' \<in> set pre. \<forall>s. \<not> run_free R r'' s n"
      then show ?case using Cons.prems(1) [of r' s "r # pre" post] none by simp
    next
      assume "take_run num c rs R = Some (None, R)" "\<forall>r \<in> set rs. \<forall>s. \<not> run_free R r s n"
      then show ?case using Cons.prems(2) none by simp
    qed (use Cons.prems(3) in simp)
  qed
qed

text \<open>The address of a run determines its region and first subregion.\<close>

lemma unat_run_offset:
  assumes "r < 64" and "s < 8"
  shows "unat (of_nat r * REGION_SIZE + of_nat s * SUBREGION_SIZE) = r * 0x20000000 + s * 0x4000000"
proof -
  have "(of_nat r * REGION_SIZE + of_nat s * SUBREGION_SIZE :: u64) =
      of_nat (r * 0x20000000 + s * 0x4000000)" by simp
  moreover have "unat (of_nat (r * 0x20000000 + s * 0x4000000) :: u64) = r * 0x20000000 + s * 0x4000000"
    using assms by (simp only: unat_of_nat) simp
  ultimately show ?thesis by simp
qed

lemma run_decode:
  assumes "r < 64" and "s < 8" and "off = of_nat r * REGION_SIZE + of_nat s * SUBREGION_SIZE"
  shows "off mod SUBREGION_SIZE = 0" "unat (off div REGION_SIZE) = r"
    "unat ((off mod REGION_SIZE) div SUBREGION_SIZE) = s"
proof -
  have split: "t < B \<Longrightarrow> (k * B + t) div B = k \<and> (k * B + t) mod B = t" for k B t :: nat by auto
  have lt: "s * 0x4000000 < (0x20000000 :: nat)" using assms(2) by simp
  have u: "unat off = r * 0x20000000 + s * 0x4000000" using unat_run_offset assms by simp
  have "r * 0x20000000 + s * 0x4000000 = (8 * r + s) * 0x4000000 + (0 :: nat)" by simp
  then have "unat (off mod SUBREGION_SIZE) = 0"
    using split [of 0 "0x4000000" "8 * r + s"] by (simp only: unat_mod_distrib u) simp
  then show "off mod SUBREGION_SIZE = 0" by (simp add: unat_eq_0)
  show "unat (off div REGION_SIZE) = r"
    using split [OF lt, of r] by (simp only: unat_div_distrib u) simp
  show "unat ((off mod REGION_SIZE) div SUBREGION_SIZE) = s"
    using split [OF lt, of r] by (simp only: unat_div_distrib unat_mod_distrib u) simp
qed

text \<open>
  The rounded-up count. A size within one subregion of \<open>2 ^ 64\<close> wraps to a count of zero.
\<close>

lemma unat_subregion_count:
  "unat (subregion_count sz) =
     (if unat sz + 0x3FFFFFF < 2 ^ 64 then (unat sz + 0x3FFFFFF) div 0x4000000 else 0)"
proof -
  have "sz + SUBREGION_SIZE - 1 = sz + 0x3FFFFFF" by simp
  moreover have "unat (sz + 0x3FFFFFF) = (unat sz + 0x3FFFFFF) mod 2 ^ 64"
    by (simp add: unat_word_ariths)
  ultimately have c: "unat (subregion_count sz) = (unat sz + 0x3FFFFFF) mod 2 ^ 64 div 0x4000000"
    by (simp only: subregion_count_def unat_div_distrib) simp
  have "unat sz < 2 ^ 64" using unsigned_less [of sz] by simp
  then have "\<not> unat sz + 0x3FFFFFF < 2 ^ 64 \<Longrightarrow> (unat sz + 0x3FFFFFF) mod 2 ^ 64 < 0x4000000"
    by (simp add: mod_if) linarith
  then show ?thesis using c by auto
qed

lemma find_run_zero:
  assumes "r < 64" and "\<forall>i \<in> set is. i < 8" and "cf + length is \<le> 8"
  shows "find_run R r 0 cf is = Some None"
  using assms(2,3)
proof (induction "is" arbitrary: cf)
  case (Cons i "is")
  have "(of_nat (cf + 1) :: u64) \<noteq> 0"
    using Cons.prems(2) by (simp add: word_unat_eq_iff unat_word_ariths unat_of_nat)
  then show ?case
    using Cons assms(1) by (simp add: client_read_def)
qed simp

lemma take_run_zero:
  "\<forall>r \<in> set rs. r < 64 \<Longrightarrow> take_run 0 c rs R = Some (None, R)"
  by (induction rs) (simp_all add: find_run_zero)

section \<open>Allocation\<close>

definition regs_of :: "allocation_type \<Rightarrow> device_memory_map \<Rightarrow> regions" where
  "regs_of ty m = (case ty of ALLOCATION_TYPE_DDR \<Rightarrow> ddr_regions m | _ \<Rightarrow> hbm_regions m)"

definition with_regs :: "allocation_type \<Rightarrow> regions \<Rightarrow> device_memory_map \<Rightarrow> device_memory_map" where
  "with_regs ty R m =
     (case ty of ALLOCATION_TYPE_DDR \<Rightarrow> m\<lparr>ddr_regions := R\<rparr> | _ \<Rightarrow> m\<lparr>hbm_regions := R\<rparr>)"

definition base_of :: "allocation_type \<Rightarrow> u64" where
  "base_of ty = (case ty of ALLOCATION_TYPE_DDR \<Rightarrow> DDR_START_ADDRESS | _ \<Rightarrow> HBM_START_ADDRESS)"

definition candidates :: "allocation_type \<Rightarrow> u64 \<Rightarrow> nat list" where
  "candidates ty arg = (case ty of ALLOCATION_TYPE_HBM \<Rightarrow> [unat arg] | _ \<Rightarrow> [0..<64])"

definition request_ok :: "allocation_type \<Rightarrow> u64 \<Rightarrow> u64 \<Rightarrow> u64 \<Rightarrow> bool" where
  "request_ok ty sz arg client \<longleftrightarrow> sz \<noteq> 0 \<and> client \<noteq> 0 \<and> unat (subregion_count sz) \<le> 8 \<and>
     (ty = ALLOCATION_TYPE_HBM \<longrightarrow> unat arg < 64)"

lemma with_regs_same [simp]: "with_regs ty (regs_of ty m) m = m"
  by (cases ty) (simp_all add: with_regs_def regs_of_def)

lemma regs_of_with [simp]: "regs_of ty (with_regs ty R m) = R"
  by (cases ty) (simp_all add: with_regs_def regs_of_def)

lemma with_regs_twice [simp]: "with_regs ty R (with_regs ty R' m) = with_regs ty R m"
  by (cases ty) (simp_all add: with_regs_def)

lemma allocate_eq:
  "device_memory_map_allocate ty sz arg client addr m =
     (if \<not> request_ok ty sz arg client then Some (ALLOCATION_RESULT_BAD_ARGUMENT, sz, addr, m)
      else map_option (\<lambda>(res, sz, addr, R). (res, sz, addr, with_regs ty R m))
        (allocate_from (base_of ty) (subregion_count sz) client (candidates ty arg) sz addr
           (regs_of ty m)))"
  by (cases ty)
    (auto simp: device_memory_map_allocate_def Let_def request_ok_def base_of_def candidates_def
      regs_of_def with_regs_def word_less_nat_alt word_le_nat_alt map_option_case not_less
      split: option.split bind_split)

lemma candidates_less: "request_ok ty sz arg client \<Longrightarrow> \<forall>r \<in> set (candidates ty arg). r < 64"
  by (cases ty) (simp_all add: candidates_def request_ok_def)

text \<open>The three outcomes of an allocation.\<close>

lemma allocate_cases:
  obtains
    (bad) "\<not> request_ok ty sz arg client"
      "device_memory_map_allocate ty sz arg client addr m =
        Some (ALLOCATION_RESULT_BAD_ARGUMENT, sz, addr, m)"
  | (none) "request_ok ty sz arg client"
      "device_memory_map_allocate ty sz arg client addr m =
        Some (ALLOCATION_RESULT_NO_MEMORY, sz, addr, m)"
      "subregion_count sz = 0 \<or>
       (\<forall>r \<in> set (candidates ty arg). \<forall>s. \<not> run_free (regs_of ty m) r s (unat (subregion_count sz)))"
  | (fit) pre r post s where "request_ok ty sz arg client"
      "device_memory_map_allocate ty sz arg client addr m =
        Some (ALLOCATION_RESULT_SUCCESS, subregion_count sz * SUBREGION_SIZE,
              run_address (base_of ty) r s,
              with_regs ty (give r s (unat (subregion_count sz)) client (regs_of ty m)) m)"
      "0 < unat (subregion_count sz)" "r < 64"
      "candidates ty arg = pre @ r # post" "run_free (regs_of ty m) r s (unat (subregion_count sz))"
      "\<forall>s' < s. \<not> run_free (regs_of ty m) r s' (unat (subregion_count sz))"
      "\<forall>r' \<in> set pre. \<forall>s. \<not> run_free (regs_of ty m) r' s (unat (subregion_count sz))"
proof (cases "request_ok ty sz arg client")
  case False
  then show ?thesis using bad by (simp add: allocate_eq)
next
  case ok: True
  let ?n = "unat (subregion_count sz)" and ?R = "regs_of ty m"
  note lt = candidates_less [OF ok]
  show ?thesis
  proof (cases "subregion_count sz = 0")
    case True
    then show ?thesis
      using none ok take_run_zero [OF lt] by (simp add: allocate_eq allocate_from_def)
  next
    case False
    then have n: "0 < ?n" "?n \<le> 8" using ok by (simp_all add: unat_gt_0 request_ok_def)
    show ?thesis
    proof (rule take_run_spec [OF refl n lt, of client ?R])
      fix pre r post s
      assume t: "take_run (subregion_count sz) client (candidates ty arg) ?R =
          Some (Some (r, s), give r s ?n client ?R)" "candidates ty arg = pre @ r # post"
        and rest: "run_free ?R r s ?n" "\<forall>s' < s. \<not> run_free ?R r s' ?n"
          "\<forall>r' \<in> set pre. \<forall>s. \<not> run_free ?R r' s ?n"
      show ?thesis
        by (rule fit [of r s pre post]) (use t rest ok n lt in \<open>simp_all add: allocate_eq allocate_from_def\<close>)
    next
      assume "take_run (subregion_count sz) client (candidates ty arg) ?R = Some (None, ?R)"
        and "\<forall>r \<in> set (candidates ty arg). \<forall>s. \<not> run_free ?R r s ?n"
      then show ?thesis using none ok by (simp add: allocate_eq allocate_from_def)
    qed
  qed
qed

section \<open>Release\<close>

text \<open>The run an address and a size name, when they name one.\<close>

definition named_run :: "allocation_type \<Rightarrow> u64 \<Rightarrow> u64 \<Rightarrow> (nat \<times> nat \<times> nat) option" where
  "named_run ty addr sz =
     (let off = addr - base_of ty; n = unat (subregion_count sz);
          r = unat (off div REGION_SIZE); s = unat ((off mod REGION_SIZE) div SUBREGION_SIZE)
      in if base_of ty \<le> addr \<and> addr < base_of ty + of_nat 64 * REGION_SIZE \<and>
            off mod SUBREGION_SIZE = 0 \<and> s + n \<le> 8
         then Some (r, s, n) else None)"

lemma named_run_less: "named_run ty addr sz = Some (r, s, n) \<Longrightarrow> r < 64 \<and> s + n \<le> 8"
proof -
  assume run: "named_run ty addr sz = Some (r, s, n)"
  then have "addr - base_of ty < of_nat 64 * REGION_SIZE"
    by (cases ty) (auto simp: named_run_def base_of_def Let_def word_less_nat_alt word_le_nat_alt
        unat_sub unat_word_ariths split: if_splits)
  then have "unat (addr - base_of ty) < 64 * 0x20000000" by (simp add: word_less_nat_alt)
  then have "unat (addr - base_of ty) div 0x20000000 < 64" by (simp add: div_less_iff_less_mult)
  with run show ?thesis
    by (auto simp: named_run_def Let_def unat_div_distrib split: if_splits)
qed

lemma run_fits:
  assumes "s < 8"
  shows "(num > (of_nat 8 :: u64) \<or> of_nat s + num > of_nat 8) \<longleftrightarrow> \<not> s + unat num \<le> 8"
proof (cases "unat num \<le> 8")
  case True
  then have "unat (of_nat s + num) = s + unat num"
    using assms by (simp add: unat_word_ariths unat_of_nat)
  then show ?thesis using True by (auto simp: word_less_nat_alt)
next
  case False
  then show ?thesis by (simp add: word_less_nat_alt)
qed

lemma free_from_eq:
  "free_from (base_of ty) addr sz c R =
     (case named_run ty addr sz of
        None \<Rightarrow> Some (ALLOCATION_RESULT_BAD_ARGUMENT, R)
      | Some (r, s, n) \<Rightarrow>
          if \<forall>i < n. R r (s + i) = c then Some (ALLOCATION_RESULT_SUCCESS, give r s n 0 R)
          else Some (ALLOCATION_RESULT_BAD_ARGUMENT, R))"
proof -
  let ?off = "addr - base_of ty"
  let ?s = "unat ((?off mod REGION_SIZE) div SUBREGION_SIZE)" and ?n = "unat (subregion_count sz)"
  have "unat (?off mod REGION_SIZE) < 0x20000000" by (simp add: unat_mod_distrib)
  then have s: "?s < 8" by (simp add: unat_div_distrib div_less_iff_less_mult)
  note fits = run_fits [OF s, of "subregion_count sz"]
  show ?thesis
  proof (cases "named_run ty addr sz")
    case None
    then show ?thesis
      using fits by (auto simp: free_from_def named_run_def Let_def not_less not_le split: if_splits)
  next
    case (Some q)
    then obtain r n where q: "named_run ty addr sz = Some (r, ?s, n)"
      and eq: "r = unat (?off div REGION_SIZE)" "n = ?n"
      by (auto simp: named_run_def Let_def split: if_splits)
    have lt: "r < 64" "?s + n \<le> 8" using named_run_less [OF q] by auto
    have "free_from (base_of ty) addr sz c R = do {
        owned \<leftarrow> owned_run R r ?s c [0..<n];
        if \<not> owned then Some (ALLOCATION_RESULT_BAD_ARGUMENT, R)
        else do { R \<leftarrow> stamp r ?s 0 [0..<n] R; Some (ALLOCATION_RESULT_SUCCESS, R) } }"
      using q fits eq by (auto simp: free_from_def named_run_def Let_def not_less not_le split: if_splits)
    then show ?thesis
      using q owned_run_spec [OF lt] stamp_spec [OF lt] by simp
  qed
qed

lemma free_eq:
  "device_memory_map_free ty addr sz client m =
     (if sz = 0 \<or> client = 0 then Some (ALLOCATION_RESULT_BAD_ARGUMENT, m)
      else map_option (\<lambda>(res, R). (res, with_regs ty R m))
        (free_from (base_of ty) addr sz client (regs_of ty m)))"
  by (cases ty)
    (auto simp: device_memory_map_free_def base_of_def regs_of_def with_regs_def map_option_case
      split: option.split bind_split)

lemma named_run_address:
  assumes "r < 64" and "s + unat (subregion_count sz) \<le> 8" and "s < 8"
  shows "named_run ty (run_address (base_of ty) r s) sz = Some (r, s, unat (subregion_count sz))"
proof -
  let ?off = "of_nat r * REGION_SIZE + of_nat s * SUBREGION_SIZE :: u64"
  have u: "unat ?off = r * 0x20000000 + s * 0x4000000" by (rule unat_run_offset [OF assms(1,3)])
  then have b: "unat ?off < 64 * 0x20000000" using assms(1,3) by simp
  have addr: "run_address (base_of ty) r s = base_of ty + ?off" by (simp add: run_address_def)
  have "unat (base_of ty + ?off) = unat (base_of ty) + unat ?off"
    using b by (cases ty) (simp_all add: base_of_def unat_word_ariths)
  then have "base_of ty \<le> base_of ty + ?off" "base_of ty + ?off < base_of ty + of_nat 64 * REGION_SIZE"
    using b by (cases ty; simp add: base_of_def word_le_nat_alt word_less_nat_alt)+
  then show ?thesis
    using run_decode [OF assms(1,3) refl] assms(2)
    unfolding addr named_run_def Let_def by simp
qed

section \<open>Tenancy\<close>

text \<open>
  The contract between the tracker and the connections that share it: an action of a
  connection yields a map, takes only what is free or its own, and gives only to itself or
  back. Connections are then isolated from each other whatever the sequence of actions.
\<close>

fun act_all :: "('c \<Rightarrow> 'op \<Rightarrow> 'm \<Rightarrow> 'm option) \<Rightarrow> ('c \<times> 'op) list \<Rightarrow> 'm \<Rightarrow> 'm option" where
  "act_all act [] m = Some m"
| "act_all act ((c, op) # ops) m = do { m \<leftarrow> act c op m; act_all act ops m }"

locale tenancy =
  fixes owner :: "'m \<Rightarrow> 'u \<Rightarrow> 'c" and nobody :: 'c
    and act :: "'c \<Rightarrow> 'op \<Rightarrow> 'm \<Rightarrow> 'm option"
  assumes act_total: "\<exists>m'. act c op m = Some m'"
    and act_keeps: "act c op m = Some m' \<Longrightarrow> owner m u \<noteq> c \<Longrightarrow> owner m u \<noteq> nobody \<Longrightarrow>
      owner m' u = owner m u"
    and act_gives: "act c op m = Some m' \<Longrightarrow> owner m' u = owner m u \<or> owner m' u = c \<or> owner m' u = nobody"
begin

lemma act_other:
  assumes "act c op m = Some m'" and "d \<noteq> c" and "d \<noteq> nobody"
  shows "owner m' u = d \<longleftrightarrow> owner m u = d"
  using act_keeps [OF assms(1), of u] act_gives [OF assms(1), of u] assms(2,3) by auto

lemma act_all_total: "\<exists>m'. act_all act ops m = Some m'"
proof (induction ops arbitrary: m)
  case (Cons a ops)
  then show ?case using act_total [of "fst a" "snd a" m] by (cases a) auto
qed simp

lemma act_all_other:
  assumes "act_all act ops m = Some m'" and "d \<notin> fst ` set ops" and "d \<noteq> nobody"
  shows "owner m' u = d \<longleftrightarrow> owner m u = d"
  using assms(1,2)
proof (induction ops arbitrary: m)
  case (Cons a ops)
  obtain c op where a: "a = (c, op)" by (cases a)
  then obtain m1 where m1: "act c op m = Some m1" "act_all act ops m1 = Some m'"
    using Cons.prems(1) by (auto simp: bind_eq_Some_conv)
  have "d \<noteq> c" using Cons.prems(2) a by auto
  then have "owner m1 u = d \<longleftrightarrow> owner m u = d" by (rule act_other [OF m1(1) _ assms(3)])
  moreover have "owner m' u = d \<longleftrightarrow> owner m1 u = d"
    using Cons.IH [OF m1(2)] Cons.prems(2) by simp
  ultimately show ?case by simp
qed simp

end

text \<open>A subregion is named by its class, region and index.\<close>

datatype mem_class = DDR | HBM

definition class_of :: "allocation_type \<Rightarrow> mem_class" where
  "class_of ty = (case ty of ALLOCATION_TYPE_DDR \<Rightarrow> DDR | _ \<Rightarrow> HBM)"

fun subregion_owner :: "device_memory_map \<Rightarrow> mem_class \<times> nat \<times> nat \<Rightarrow> u64" where
  "subregion_owner m (DDR, r, i) = ddr_regions m r i"
| "subregion_owner m (HBM, r, i) = hbm_regions m r i"

text \<open>The requests of a connection.\<close>

datatype request = Allocate allocation_type u64 u64 | Release allocation_type u64 u64

fun serve_request :: "u64 \<Rightarrow> request \<Rightarrow> device_memory_map \<Rightarrow> device_memory_map option" where
  "serve_request c (Allocate ty sz arg) m =
     map_option (snd \<circ> snd \<circ> snd) (device_memory_map_allocate ty sz arg c 0 m)"
| "serve_request c (Release ty addr sz) m =
     map_option snd (device_memory_map_free ty addr sz c m)"

lemma owner_give:
  "subregion_owner (with_regs ty (give r s n c (regs_of ty m)) m) (k, r', i) =
     (if k = class_of ty \<and> r' = r \<and> s \<le> i \<and> i < s + n then c else subregion_owner m (k, r', i))"
  by (cases ty; cases k) (simp_all add: with_regs_def regs_of_def class_of_def give_def)

lemma owner_regs: "subregion_owner m (class_of ty, r, i) = regs_of ty m r i"
  by (cases ty) (simp_all add: class_of_def regs_of_def)

text \<open>What one request does: nothing, a free run given to the client, or a run of its own freed.\<close>

lemma serve_request_cases:
  obtains (same) "serve_request c q m = Some m"
  | (take) ty r s n where "serve_request c q m = Some (with_regs ty (give r s n c (regs_of ty m)) m)"
      "run_free (regs_of ty m) r s n" "c \<noteq> 0"
  | (put) ty r s n where "serve_request c q m = Some (with_regs ty (give r s n 0 (regs_of ty m)) m)"
      "\<forall>i < n. regs_of ty m r (s + i) = c" "c \<noteq> 0"
proof (cases q)
  case (Allocate ty sz arg)
  show ?thesis
  proof (cases rule: allocate_cases [where ty = ty and sz = sz and arg = arg and client = c and addr = 0 and m = m])
    case (fit pre r post s)
    then show ?thesis
      using Allocate take [of ty r s "unat (subregion_count sz)"] by (simp add: request_ok_def)
  qed (use Allocate same in simp_all)
next
  case (Release ty addr sz)
  show ?thesis
  proof (cases "sz = 0 \<or> c = 0 \<or> named_run ty addr sz = None")
    case True
    then show ?thesis using Release same by (auto simp: free_eq free_from_eq)
  next
    case False
    then obtain r s n where run: "named_run ty addr sz = Some (r, s, n)" by auto
    show ?thesis
    proof (cases "\<forall>i < n. regs_of ty m r (s + i) = c")
      case True
      then show ?thesis
        using Release run False by (intro put [of ty r s n]) (simp_all add: free_eq free_from_eq)
    next
      case no: False
      then have "serve_request c q m = Some m"
        using Release run False by (simp only: serve_request.simps free_eq free_from_eq) auto
      then show ?thesis by (rule same)
    qed
  qed
qed

interpretation subregions: tenancy subregion_owner "0 :: u64" serve_request
proof unfold_locales
  fix c q m show "\<exists>m'. serve_request c q m = Some m'"
    by (rule serve_request_cases [of c q m]) auto
next
  fix c q m m' and u :: "mem_class \<times> nat \<times> nat"
  assume act: "serve_request c q m = Some m'" and ne: "subregion_owner m u \<noteq> c" "subregion_owner m u \<noteq> 0"
  obtain k r' i where u: "u = (k, r', i)" by (cases u)
  show "subregion_owner m' u = subregion_owner m u"
  proof (rule serve_request_cases [of c q m])
    fix ty r s n
    assume t: "serve_request c q m = Some (with_regs ty (give r s n c (regs_of ty m)) m)"
      and "run_free (regs_of ty m) r s n"
    then have "s \<le> i \<Longrightarrow> i < s + n \<Longrightarrow> regs_of ty m r i = 0" using run_free_hit by blast
    then show ?thesis using act t ne u owner_regs [of m ty r i] by (auto simp: owner_give)
  next
    fix ty r s n
    assume t: "serve_request c q m = Some (with_regs ty (give r s n 0 (regs_of ty m)) m)"
      and own: "\<forall>i < n. regs_of ty m r (s + i) = c"
    have "regs_of ty m r i = c" if "s \<le> i" "i < s + n" using own [rule_format, of "i - s"] that by simp
    then show ?thesis using act t ne u owner_regs [of m ty r i] by (auto simp: owner_give)
  qed (use act in simp)
next
  fix c q m m' and u :: "mem_class \<times> nat \<times> nat"
  assume act: "serve_request c q m = Some m'"
  obtain k r' i where u: "u = (k, r', i)" by (cases u)
  show "subregion_owner m' u = subregion_owner m u \<or> subregion_owner m' u = c \<or> subregion_owner m' u = 0"
    by (rule serve_request_cases [of c q m]) (use act u in \<open>auto simp: owner_give\<close>)
qed

section \<open>Properties\<close>

text \<open>
  C7: connections are isolated. Whatever sequence of allocation and release requests other
  connections make, a connection keeps exactly the subregions it owned: none is taken from it
  and none is given to it. No request accesses the tables out of bounds.
\<close>

theorem tenants_isolated:
  assumes "d \<noteq> 0" and "d \<notin> fst ` set ops"
  shows "\<exists>m'. act_all serve_request ops m = Some m' \<and>
    {u. subregion_owner m' u = d} = {u. subregion_owner m u = d}"
proof -
  obtain m' where "act_all serve_request ops m = Some m'" using subregions.act_all_total by blast
  then show ?thesis using subregions.act_all_other [OF _ assms(2,1)] by auto
qed

theorem tenants_isolated_witness:
  "\<exists>m'. act_all serve_request
       [(2, Allocate ALLOCATION_TYPE_DDR 1 0), (3, Release ALLOCATION_TYPE_HBM 0x4000000000 1)]
       device_memory_map_create = Some m' \<and>
     {u. subregion_owner m' u = 7} = {u. subregion_owner device_memory_map_create u = 7}"
  using tenants_isolated [of 7 "[(2, Allocate ALLOCATION_TYPE_DDR 1 0),
     (3, Release ALLOCATION_TYPE_HBM 0x4000000000 1)]" device_memory_map_create]
  by simp

text \<open>What a successful allocation returned names the run it took.\<close>

lemma allocated_run:
  assumes "device_memory_map_allocate ty sz arg client addr m =
      Some (ALLOCATION_RESULT_SUCCESS, sz', addr', m')"
  obtains r s n where "named_run ty addr' sz' = Some (r, s, n)" "0 < n" "sz' \<noteq> 0" "client \<noteq> 0"
    "run_free (regs_of ty m) r s n" "m' = with_regs ty (give r s n client (regs_of ty m)) m"
proof (rule allocate_cases [where ty = ty and sz = sz and arg = arg and client = client and addr = addr and m = m])
  fix pre r post s
  assume ok: "request_ok ty sz arg client"
    and run: "device_memory_map_allocate ty sz arg client addr m =
        Some (ALLOCATION_RESULT_SUCCESS, subregion_count sz * SUBREGION_SIZE,
              run_address (base_of ty) r s,
              with_regs ty (give r s (unat (subregion_count sz)) client (regs_of ty m)) m)"
    and pos: "0 < unat (subregion_count sz)" and r: "r < 64"
    and free: "run_free (regs_of ty m) r s (unat (subregion_count sz))"
  let ?n = "unat (subregion_count sz)"
  have out: "sz' = subregion_count sz * SUBREGION_SIZE" "addr' = run_address (base_of ty) r s"
    "m' = with_regs ty (give r s ?n client (regs_of ty m)) m"
    using assms run by simp_all
  have n: "?n \<le> 8" using ok by (simp add: request_ok_def)
  have u: "unat sz' = ?n * 0x4000000" using n out(1) by (simp add: unat_word_ariths)
  then have cnt: "unat (subregion_count sz') = ?n" using n by (simp add: unat_subregion_count)
  have nz: "sz' \<noteq> 0" "client \<noteq> 0" using u pos ok by (auto simp: request_ok_def)
  have "named_run ty addr' sz' = Some (r, s, ?n)"
    using named_run_address [OF r, of s sz'] cnt free pos out(2) by (simp add: run_free_def)
  then show thesis using that pos nz free out(3) by blast
qed (use assms in simp_all)

text \<open>
  C25: releasing an allocation undoes it. An allocation that succeeds can be released by the same
  connection with the address and size it returned, and that restores the map exactly.
\<close>

theorem release_undoes_allocate:
  assumes "device_memory_map_allocate ty sz arg client addr m =
      Some (ALLOCATION_RESULT_SUCCESS, sz', addr', m')"
  shows "device_memory_map_free ty addr' sz' client m' = Some (ALLOCATION_RESULT_SUCCESS, m)"
  using assms
proof (rule allocated_run)
  fix r s n
  assume run: "named_run ty addr' sz' = Some (r, s, n)" "sz' \<noteq> 0" "client \<noteq> 0"
    and free: "run_free (regs_of ty m) r s n" and m': "m' = with_regs ty (give r s n client (regs_of ty m)) m"
  have "give r s n 0 (give r s n client (regs_of ty m)) = regs_of ty m"
    using run_free_hit [OF free] by (auto simp: give_def fun_eq_iff)
  then show ?thesis using run m' by (simp add: free_eq free_from_eq give_def)
qed

theorem release_undoes_allocate_witness:
  "\<exists>sz' addr' m'. device_memory_map_allocate ALLOCATION_TYPE_DDR 0x5000000 0 9 0
       device_memory_map_create = Some (ALLOCATION_RESULT_SUCCESS, sz', addr', m') \<and>
     device_memory_map_free ALLOCATION_TYPE_DDR addr' sz' 9 m' =
       Some (ALLOCATION_RESULT_SUCCESS, device_memory_map_create)"
proof (rule allocate_cases [where ty = ALLOCATION_TYPE_DDR and sz = "0x5000000" and arg = 0 and client = 9
      and addr = 0 and m = device_memory_map_create])
  assume none: "subregion_count 0x5000000 = 0 \<or> (\<forall>r \<in> set (candidates ALLOCATION_TYPE_DDR 0). \<forall>s.
      \<not> run_free (regs_of ALLOCATION_TYPE_DDR device_memory_map_create) r s
        (unat (subregion_count 0x5000000)))"
  have c: "subregion_count 0x5000000 = 2" by (simp add: subregion_count_def)
  have "run_free (regs_of ALLOCATION_TYPE_DDR device_memory_map_create) 0 0 2"
    by (simp add: run_free_def regs_of_def device_memory_map_create_def)
  with none c show ?thesis by (auto simp: candidates_def)
next
  assume "\<not> request_ok ALLOCATION_TYPE_DDR 0x5000000 0 9"
  then show ?thesis by (simp add: request_ok_def subregion_count_def)
next
  fix pre r post s
  assume run: "device_memory_map_allocate ALLOCATION_TYPE_DDR 0x5000000 0 9 0 device_memory_map_create =
      Some (ALLOCATION_RESULT_SUCCESS, subregion_count 0x5000000 * SUBREGION_SIZE,
        run_address (base_of ALLOCATION_TYPE_DDR) r s,
        with_regs ALLOCATION_TYPE_DDR (give r s (unat (subregion_count 0x5000000)) 9
          (regs_of ALLOCATION_TYPE_DDR device_memory_map_create)) device_memory_map_create)"
  show ?thesis using release_undoes_allocate [OF run] run by blast
qed



text \<open>
  C30: a release whose size lies within one subregion of \<open>2 ^ 64\<close> reports success and changes
  nothing, whoever owns the address: the rounded-up count wraps to zero, so the ownership
  check has nothing to check.
\<close>

theorem release_wrapped_size:
  assumes "unat sz + 0x3FFFFFF \<ge> 2 ^ 64" and "client \<noteq> 0" and "r < 64" and "s < 8"
  shows "device_memory_map_free ty (run_address (base_of ty) r s) sz client m =
    Some (ALLOCATION_RESULT_SUCCESS, m)"
proof -
  have c: "unat (subregion_count sz) = 0" using assms(1) by (simp add: unat_subregion_count)
  have "sz \<noteq> 0" using assms(1) by auto
  moreover have "named_run ty (run_address (base_of ty) r s) sz = Some (r, s, 0)"
    using named_run_address [OF assms(3) _ assms(4), of sz ty] c assms(4) by simp
  moreover have "give r s 0 0 R = R" for R by (auto simp: give_def fun_eq_iff)
  ultimately show ?thesis using assms(2) by (simp add: free_eq free_from_eq)
qed

theorem release_wrapped_size_witness:
  "subregion_owner device_memory_map_create (DDR, 3, 1) \<noteq> 9 \<and>
   device_memory_map_free ALLOCATION_TYPE_DDR (run_address (base_of ALLOCATION_TYPE_DDR) 3 1)
     0xFFFFFFFFFFFFFFFF 9 device_memory_map_create =
   Some (ALLOCATION_RESULT_SUCCESS, device_memory_map_create)"
  using release_wrapped_size [where sz = "0xFFFFFFFFFFFFFFFF" and client = 9 and r = 3 and s = 1
      and ty = ALLOCATION_TYPE_DDR and m = device_memory_map_create]
  by (simp add: device_memory_map_create_def)

end
