(* ===== verification/Slash_Qdma.thy ===== *)
theory Slash_Qdma
  imports Slash_Prelude
begin

unbundle bit_operations_syntax

text \<open>
  The queue-pair side of the QDMA kernel driver, \<^verbatim>\<open>driver/slash_qdma.c\<close>, and the calls of
  \<^verbatim>\<open>driver/libslash/src/qdma.c\<close> that reach it: adding, starting, stopping and deleting queue pairs,
  transfer descriptors that hold references to them, and the tear-down of the device.

  Queue-pair entries are heap objects shared by the table of the device and by open transfer
  descriptors, so the state has an explicit heap with reference counts. \<open>None\<close> is the access to an
  entry or a device that was freed. Addresses are not reused, and a descriptor is named by the
  open file behind it. libqdma, a submodule, is the argument \<open>L\<close>: functions on its own state \<open>'h\<close>.
  The kernel's outcomes of user-space copies and of file creation are arguments of the calls.
  An ioctl holds the device lock; \<open>get_fd\<close> releases it in the middle and is two steps. The structure
  an ioctl receives is the one after the versioned copy, zero beyond \<open>user_size\<close>.
\<close>

section \<open>Types\<close>

type_synonym errno = nat

abbreviation (input) ENOENT :: errno where "ENOENT \<equiv> 2"
abbreviation (input) ENOMEM :: errno where "ENOMEM \<equiv> 12"
abbreviation (input) EFAULT :: errno where "EFAULT \<equiv> 14"
abbreviation (input) EBUSY :: errno where "EBUSY \<equiv> 16"
abbreviation (input) ENODEV :: errno where "ENODEV \<equiv> 19"
abbreviation (input) EINVAL :: errno where "EINVAL \<equiv> 22"

abbreviation (input) SLASH_QDMA_MM_CHANNEL_AUTO :: u32 where "SLASH_QDMA_MM_CHANNEL_AUTO \<equiv> 0"
abbreviation (input) SLASH_QDMA_MM_CHANNEL_0 :: u32 where "SLASH_QDMA_MM_CHANNEL_0 \<equiv> 1"
abbreviation (input) SLASH_QDMA_MM_CHANNEL_1 :: u32 where "SLASH_QDMA_MM_CHANNEL_1 \<equiv> 2"

abbreviation (input) QDMA_Q_MODE_MM :: u32 where "QDMA_Q_MODE_MM \<equiv> 0"
abbreviation (input) QDMA_Q_MODE_ST :: u32 where "QDMA_Q_MODE_ST \<equiv> 1"

abbreviation (input) SLASH_QDMA_DIR_H2C :: u32 where "SLASH_QDMA_DIR_H2C \<equiv> 1"
abbreviation (input) SLASH_QDMA_DIR_C2H :: u32 where "SLASH_QDMA_DIR_C2H \<equiv> 2"
abbreviation (input) SLASH_QDMA_DIR_CMPT :: u32 where "SLASH_QDMA_DIR_CMPT \<equiv> 4"
abbreviation (input) SLASH_QDMA_DIR_MASK :: u32 where "SLASH_QDMA_DIR_MASK \<equiv> 7"

abbreviation (input) SLASH_QDMA_MAX_QPAIRS :: nat where "SLASH_QDMA_MAX_QPAIRS \<equiv> 256"
abbreviation (input) SLASH_QDMA_FD_MAX_QPAIRS :: nat where "SLASH_QDMA_FD_MAX_QPAIRS \<equiv> 2"

text \<open>End offset of the last required input field, and size of the structure, per ioctl.\<close>

abbreviation (input) SLASH_QDMA_QPAIR_ADD_MIN_SIZE :: nat where "SLASH_QDMA_QPAIR_ADD_MIN_SIZE \<equiv> 28"
abbreviation (input) SLASH_QDMA_QPAIR_OP_MIN_SIZE :: nat where "SLASH_QDMA_QPAIR_OP_MIN_SIZE \<equiv> 12"
abbreviation (input) SLASH_QDMA_QPAIR_GET_FD_MIN_SIZE :: nat where "SLASH_QDMA_QPAIR_GET_FD_MIN_SIZE \<equiv> 12"
abbreviation (input) SLASH_QDMA_TRANSFER_MIN_SIZE :: nat where "SLASH_QDMA_TRANSFER_MIN_SIZE \<equiv> 8"
abbreviation (input) sizeof_qpair_add :: nat where "sizeof_qpair_add \<equiv> 36"
abbreviation (input) sizeof_qpair_op :: nat where "sizeof_qpair_op \<equiv> 12"
abbreviation (input) sizeof_qpair_fd_request :: nat where "sizeof_qpair_fd_request \<equiv> 24"

record qpair_add_req =
  qa_mode :: u32
  qa_dir_mask :: u32
  qa_mm_channel :: u32
  qa_h2c_ring_sz :: u32
  qa_c2h_ring_sz :: u32
  qa_cmpt_ring_sz :: u32
  qa_aperture_size :: u32

datatype queue_type = Q_H2C | Q_C2H | Q_CMPT

definition queue_types :: "queue_type list" where
  "queue_types = [Q_H2C, Q_C2H, Q_CMPT]"

datatype q_state = Q_STATE_DISABLED | Q_STATE_ENABLED | Q_STATE_ONLINE | Q_STATE_OTHER

record qdma_queue_conf =
  qc_qidx :: u32
  qc_q_type :: queue_type
  qc_st :: bool
  qc_irq_en :: bool
  qc_cmpl_en_intr :: bool
  qc_cmpl_trig_disable :: bool
  qc_wb_status_en :: bool
  qc_cmpl_status_acc_en :: bool
  qc_cmpl_status_pend_chk :: bool
  qc_cmpl_stat_en :: bool
  qc_aperture_size :: u32
  qc_mm_channel :: u32
  qc_desc_rng_sz_idx :: u32
  qc_cmpl_rng_sz_idx :: u32
  qc_cmpl_desc_16B :: bool

type_synonym qhandle = nat

record 'h libqdma =
  qdma_queue_add :: "qdma_queue_conf \<Rightarrow> 'h \<Rightarrow> (errno + qhandle) \<times> 'h"
  qdma_queue_config :: "qhandle \<Rightarrow> qdma_queue_conf \<Rightarrow> 'h \<Rightarrow> errno option \<times> 'h"
  qdma_queue_start :: "qhandle \<Rightarrow> 'h \<Rightarrow> errno option \<times> 'h"
  qdma_queue_stop :: "qhandle \<Rightarrow> 'h \<Rightarrow> errno option \<times> 'h"
  qdma_queue_remove :: "qhandle \<Rightarrow> 'h \<Rightarrow> errno option \<times> 'h"
  qdma_get_queue_state :: "qhandle \<Rightarrow> 'h \<Rightarrow> (errno + q_state) \<times> 'h"
  qdma_device_close :: "'h \<Rightarrow> errno option \<times> 'h"

text \<open>
  \<open>fc_fds\<close> counts the descriptors of an open transfer file, in the daemon and in clients it was
  passed to. \<open>qd_ctl\<close> counts the open files of the control device and \<open>qd_bound\<close> says that the PCI
  binding still holds its reference.
  A handle of \<open>None\<close> is the sentinel \<^verbatim>\<open>QDMA_QUEUE_IDX_INVALID\<close>.\<close>

record qpair_entry =
  qe_ref :: nat
  qe_qhndl :: "queue_type \<Rightarrow> qhandle option"
  qe_dir_mask :: u32
  qe_mode :: u32

record qpair_file_ctx =
  fc_entries :: "nat list"
  fc_qids :: "u32 list"
  fc_fds :: nat

record 'h qdma_dev =
  qd_heap :: "nat \<Rightarrow> qpair_entry option"
  qd_next :: nat
  qd_qpairs :: "nat option list"
  qd_pending :: "(nat \<times> qpair_file_ctx) list"
  qd_files :: "(nat \<times> qpair_file_ctx) list"
  qd_next_file :: nat
  qd_ref :: nat
  qd_ctl :: nat
  qd_bound :: bool
  qd_have_qdma_handle :: bool
  qd_hw_shutdown :: bool
  qd_lib :: 'h

section \<open>Directions and queue removal\<close>

fun slash_qdma_qtype_to_dir :: "queue_type \<Rightarrow> u32" where
  "slash_qdma_qtype_to_dir Q_H2C = SLASH_QDMA_DIR_H2C"
| "slash_qdma_qtype_to_dir Q_C2H = SLASH_QDMA_DIR_C2H"
| "slash_qdma_qtype_to_dir Q_CMPT = SLASH_QDMA_DIR_CMPT"

definition has_dir :: "u32 \<Rightarrow> queue_type \<Rightarrow> bool" where
  "has_dir dir_mask qt \<longleftrightarrow> dir_mask AND slash_qdma_qtype_to_dir qt \<noteq> 0"

definition slash_qdma_queue_remove_safe :: "'h libqdma \<Rightarrow> qhandle \<Rightarrow> 'h \<Rightarrow> errno option \<times> 'h" where
  "slash_qdma_queue_remove_safe L qhndl h =
     (case qdma_get_queue_state L qhndl h of
        (Inl e, h) \<Rightarrow> (Some e, h)
      | (Inr Q_STATE_ONLINE, h) \<Rightarrow>
          (case qdma_queue_stop L qhndl h of
             (Some e, h) \<Rightarrow> (Some e, h)
           | (None, h) \<Rightarrow> qdma_queue_remove L qhndl h)
      | (Inr Q_STATE_ENABLED, h) \<Rightarrow> qdma_queue_remove L qhndl h
      | (Inr Q_STATE_DISABLED, h) \<Rightarrow> (None, h)
      | (Inr Q_STATE_OTHER, h) \<Rightarrow> (Some EINVAL, h))"

section \<open>The table of queue pairs and its reference counts\<close>

definition slash_qdma_qpair_lookup :: "'h qdma_dev \<Rightarrow> u32 \<Rightarrow> nat option" where
  "slash_qdma_qpair_lookup d qid =
     (if unat qid < length (qd_qpairs d) then qd_qpairs d ! unat qid else None)"

definition slash_qdma_qpair_get :: "nat \<Rightarrow> 'h qdma_dev \<Rightarrow> 'h qdma_dev option" where
  "slash_qdma_qpair_get a d = do {
     e \<leftarrow> qd_heap d a;
     Some (d\<lparr>qd_heap := (qd_heap d)(a \<mapsto> e\<lparr>qe_ref := qe_ref e + 1\<rparr>)\<rparr>)
   }"

definition slash_qdma_qpair_put :: "nat \<Rightarrow> 'h qdma_dev \<Rightarrow> 'h qdma_dev option" where
  "slash_qdma_qpair_put a d = do {
     e \<leftarrow> qd_heap d a;
     if qe_ref e \<le> 1 then Some (d\<lparr>qd_heap := (qd_heap d)(a := None)\<rparr>)
     else Some (d\<lparr>qd_heap := (qd_heap d)(a \<mapsto> e\<lparr>qe_ref := qe_ref e - 1\<rparr>)\<rparr>)
   }"

fun qpair_put_all :: "nat list \<Rightarrow> 'h qdma_dev \<Rightarrow> 'h qdma_dev option" where
  "qpair_put_all [] d = Some d"
| "qpair_put_all (a # as) d = do {
     d \<leftarrow> slash_qdma_qpair_put a d;
     qpair_put_all as d
   }"

text \<open>\<^verbatim>\<open>xa_alloc\<close> takes the lowest free id of the range.\<close>

definition xa_free_id :: "nat option list \<Rightarrow> nat option" where
  "xa_free_id qs = find (\<lambda>i. qs ! i = None) [0..<length qs]"

definition slash_qdma_qpair_insert :: "qpair_entry \<Rightarrow> 'h qdma_dev \<Rightarrow> (errno + u32 \<times> nat) \<times> 'h qdma_dev" where
  "slash_qdma_qpair_insert e d =
     (case xa_free_id (qd_qpairs d) of
        None \<Rightarrow> (Inl EBUSY, d)
      | Some i \<Rightarrow>
          (let a = qd_next d in
           (Inr (of_nat i, a),
            d\<lparr>qd_qpairs := (qd_qpairs d)[i := Some a],
              qd_heap := (qd_heap d)(a \<mapsto> e\<lparr>qe_ref := 1\<rparr>), qd_next := a + 1\<rparr>)))"

definition slash_qdma_qpair_remove :: "u32 \<Rightarrow> 'h qdma_dev \<Rightarrow> 'h qdma_dev option" where
  "slash_qdma_qpair_remove qid d =
     (case slash_qdma_qpair_lookup d qid of
        None \<Rightarrow> Some d
      | Some a \<Rightarrow> slash_qdma_qpair_put a (d\<lparr>qd_qpairs := (qd_qpairs d)[unat qid := None]\<rparr>))"
section \<open>Adding a queue pair\<close>

definition queue_conf :: "qpair_add_req \<Rightarrow> u32 \<Rightarrow> queue_type \<Rightarrow> qdma_queue_conf" where
  "queue_conf req qid qtype =
     \<lparr>qc_qidx = qid, qc_q_type = qtype,
      qc_st = (qtype \<noteq> Q_CMPT \<and> qa_mode req = QDMA_Q_MODE_ST),
      qc_irq_en = False, qc_cmpl_en_intr = False, qc_cmpl_trig_disable = True,
      qc_wb_status_en = True, qc_cmpl_status_acc_en = True, qc_cmpl_status_pend_chk = True,
      qc_cmpl_stat_en = True,
      qc_aperture_size = qa_aperture_size req,
      qc_mm_channel = (if qa_mm_channel req = SLASH_QDMA_MM_CHANNEL_0 then 0
                       else if qa_mm_channel req = SLASH_QDMA_MM_CHANNEL_1 then 1
                       else qid AND 1),
      qc_desc_rng_sz_idx = (case qtype of Q_H2C \<Rightarrow> qa_h2c_ring_sz req | Q_C2H \<Rightarrow> qa_c2h_ring_sz req
                                        | Q_CMPT \<Rightarrow> qa_cmpt_ring_sz req),
      qc_cmpl_rng_sz_idx = (case qtype of Q_H2C \<Rightarrow> 0 | _ \<Rightarrow> qa_cmpt_ring_sz req),
      qc_cmpl_desc_16B = (qtype \<noteq> Q_H2C)\<rparr>"

text \<open>The entry is private to the holder of the device lock, so it is passed by value.\<close>

definition slash_qdma_ioctl_qpair_add_q ::
  "'h libqdma \<Rightarrow> qpair_add_req \<Rightarrow> u32 \<Rightarrow> queue_type \<Rightarrow> qpair_entry \<Rightarrow> 'h \<Rightarrow> errno option \<times> qpair_entry \<times> 'h" where
  "slash_qdma_ioctl_qpair_add_q L req qid qtype entry h =
     (if \<not> has_dir (qa_dir_mask req) qtype then (Some EINVAL, entry, h)
      else let qconf = queue_conf req qid qtype in
        case qdma_queue_add L qconf h of
          (Inl e, h) \<Rightarrow> (Some e, entry, h)
        | (Inr qhndl, h) \<Rightarrow>
            (case qdma_queue_config L qhndl qconf h of
               (Some e, h) \<Rightarrow> (Some e, entry, snd (slash_qdma_queue_remove_safe L qhndl h))
             | (None, h) \<Rightarrow>
                 (None, entry\<lparr>qe_qhndl := (qe_qhndl entry)(qtype \<mapsto> qhndl),
                              qe_dir_mask := qe_dir_mask entry OR slash_qdma_qtype_to_dir qtype\<rparr>, h)))"

definition forget_queue :: "queue_type \<Rightarrow> qpair_entry \<Rightarrow> qpair_entry" where
  "forget_queue qtype entry =
     entry\<lparr>qe_qhndl := (qe_qhndl entry)(qtype := None),
           qe_dir_mask := qe_dir_mask entry AND NOT (slash_qdma_qtype_to_dir qtype)\<rparr>"

definition slash_qdma_ioctl_qpair_rm_q ::
  "'h libqdma \<Rightarrow> queue_type \<Rightarrow> qpair_entry \<times> 'h \<Rightarrow> qpair_entry \<times> 'h" where
  "slash_qdma_ioctl_qpair_rm_q L qtype eh =
     (case eh of (entry, h) \<Rightarrow>
       (case qe_qhndl entry qtype of
          None \<Rightarrow> (forget_queue qtype entry, h)
        | Some qhndl \<Rightarrow>
            (case slash_qdma_queue_remove_safe L qhndl h of
               (Some e, h) \<Rightarrow> (entry, h)
             | (None, h) \<Rightarrow> (forget_queue qtype entry, h))))"

fun qpair_add_queues ::
  "'h libqdma \<Rightarrow> qpair_add_req \<Rightarrow> u32 \<Rightarrow> queue_type list \<Rightarrow> queue_type list \<Rightarrow> qpair_entry \<Rightarrow> 'h \<Rightarrow>
   errno option \<times> queue_type list \<times> qpair_entry \<times> 'h" where
  "qpair_add_queues L req qid [] added entry h = (None, added, entry, h)"
| "qpair_add_queues L req qid (qt # qts) added entry h =
     (if \<not> has_dir (qa_dir_mask req) qt then qpair_add_queues L req qid qts added entry h
      else case slash_qdma_ioctl_qpair_add_q L req qid qt entry h of
        (Some e, entry, h) \<Rightarrow> (Some e, added, entry, h)
      | (None, entry, h) \<Rightarrow> qpair_add_queues L req qid qts (added @ [qt]) entry h)"

definition new_entry :: "qpair_add_req \<Rightarrow> qpair_entry" where
  "new_entry req = \<lparr>qe_ref = 0, qe_qhndl = (\<lambda>_. None), qe_dir_mask = 0, qe_mode = qa_mode req\<rparr>"

definition store_entry :: "nat \<Rightarrow> qpair_entry \<Rightarrow> 'h \<Rightarrow> 'h qdma_dev \<Rightarrow> 'h qdma_dev" where
  "store_entry a entry h d =
     d\<lparr>qd_heap := (qd_heap d)(a \<mapsto> entry\<lparr>qe_ref := (case qd_heap d a of Some e \<Rightarrow> qe_ref e | None \<Rightarrow> 1)\<rparr>),
       qd_lib := h\<rparr>"

definition slash_qdma_ioctl_qpair_add ::
  "'h libqdma \<Rightarrow> qpair_add_req \<Rightarrow> 'h qdma_dev \<Rightarrow> ((errno + u32) \<times> 'h qdma_dev) option" where
  "slash_qdma_ioctl_qpair_add L req d =
     (case slash_qdma_qpair_insert (new_entry req) d of
        (Inl e, d) \<Rightarrow> Some (Inl e, d)
      | (Inr (qid, a), d) \<Rightarrow>
          (case qpair_add_queues L req qid queue_types [] (new_entry req) (qd_lib d) of
             (None, added, entry, h) \<Rightarrow> Some (Inr qid, store_entry a entry h d)
           | (Some e, added, entry, h) \<Rightarrow>
               (let (entry, h) = fold (slash_qdma_ioctl_qpair_rm_q L) added (entry, h) in do {
                  d \<leftarrow> slash_qdma_qpair_remove qid (store_entry a entry h d);
                  Some (Inl e, d)
                })))"

text \<open>Outcomes of the copies from and to user space.\<close>

record uaccess =
  ua_in :: bool
  ua_out :: bool
  ua_clear :: bool

definition usable :: "'h qdma_dev \<Rightarrow> bool" where
  "usable d \<longleftrightarrow> \<not> qd_hw_shutdown d \<and> qd_have_qdma_handle d"

text \<open>The copy-out that ends the add and op ioctls: nothing is undone when it faults.\<close>

definition copy_back :: "uaccess \<Rightarrow> nat \<Rightarrow> nat \<Rightarrow> 'a \<Rightarrow> errno + 'a" where
  "copy_back ua user_size kernel_size r =
     (if \<not> ua_out ua then Inl EFAULT
      else if user_size > kernel_size \<and> \<not> ua_clear ua then Inl EFAULT else Inr r)"

definition qpair_add_valid :: "qpair_add_req \<Rightarrow> bool" where
  "qpair_add_valid req \<longleftrightarrow>
     qa_dir_mask req AND SLASH_QDMA_DIR_MASK \<noteq> 0 \<and> qa_dir_mask req AND SLASH_QDMA_DIR_MASK = qa_dir_mask req \<and>
     (qa_mode req = QDMA_Q_MODE_MM \<or> qa_mode req = QDMA_Q_MODE_ST) \<and>
     \<not> (qa_h2c_ring_sz req \<ge> 16 \<or> qa_c2h_ring_sz req \<ge> 16 \<or> qa_cmpt_ring_sz req \<ge> 16) \<and>
     (qa_mm_channel req = SLASH_QDMA_MM_CHANNEL_AUTO \<or> qa_mm_channel req = SLASH_QDMA_MM_CHANNEL_0 \<or>
      qa_mm_channel req = SLASH_QDMA_MM_CHANNEL_1) \<and>
     (qa_aperture_size req = 0 \<or> qa_aperture_size req AND (qa_aperture_size req - 1) = 0)"

definition slash_qdma_ioctl_qpair_add_w ::
  "'h libqdma \<Rightarrow> uaccess \<Rightarrow> nat \<Rightarrow> qpair_add_req \<Rightarrow> 'h qdma_dev \<Rightarrow> ((errno + u32) \<times> 'h qdma_dev) option" where
  "slash_qdma_ioctl_qpair_add_w L ua user_size req d =
     (if \<not> ua_in ua then Some (Inl EFAULT, d)
      else if user_size < SLASH_QDMA_QPAIR_ADD_MIN_SIZE then Some (Inl EINVAL, d)
      else if \<not> qpair_add_valid req then Some (Inl EINVAL, d)
      else if \<not> usable d then Some (Inl ENODEV, d)
      else do {
        (r, d) \<leftarrow> slash_qdma_ioctl_qpair_add L req d;
        Some (case r of Inl e \<Rightarrow> Inl e | Inr qid \<Rightarrow> copy_back ua user_size sizeof_qpair_add qid, d)
      })"

section \<open>Starting, stopping and deleting\<close>

fun op_apply :: "(qhandle \<Rightarrow> 'h \<Rightarrow> errno option \<times> 'h) \<Rightarrow> bool \<Rightarrow> qpair_entry \<Rightarrow> queue_type list \<Rightarrow>
    errno option \<Rightarrow> 'h \<Rightarrow> errno option \<times> 'h" where
  "op_apply fn stop_on_err entry [] first_err h = (first_err, h)"
| "op_apply fn stop_on_err entry (qt # qts) first_err h =
     (case qe_qhndl entry qt of
        None \<Rightarrow> op_apply fn stop_on_err entry qts first_err h
      | Some qhndl \<Rightarrow>
          if \<not> has_dir (qe_dir_mask entry) qt then op_apply fn stop_on_err entry qts first_err h
          else case fn qhndl h of
            (None, h) \<Rightarrow> op_apply fn stop_on_err entry qts first_err h
          | (Some e, h) \<Rightarrow>
              if stop_on_err then (Some e, h)
              else op_apply fn stop_on_err entry qts (if first_err = None then Some e else first_err) h)"

definition slash_qdma_ioctl_qpair_op_apply ::
  "(qhandle \<Rightarrow> 'h \<Rightarrow> errno option \<times> 'h) \<Rightarrow> bool \<Rightarrow> nat \<Rightarrow> 'h qdma_dev \<Rightarrow> (errno option \<times> 'h qdma_dev) option" where
  "slash_qdma_ioctl_qpair_op_apply fn stop_on_err a d = do {
     entry \<leftarrow> qd_heap d a;
     (case op_apply fn stop_on_err entry queue_types None (qd_lib d) of
        (r, h) \<Rightarrow> Some (r, d\<lparr>qd_lib := h\<rparr>))
   }"

abbreviation (input) SLASH_QDMA_QUEUE_OP_START :: u32 where "SLASH_QDMA_QUEUE_OP_START \<equiv> 0"
abbreviation (input) SLASH_QDMA_QUEUE_OP_STOP :: u32 where "SLASH_QDMA_QUEUE_OP_STOP \<equiv> 1"
abbreviation (input) SLASH_QDMA_QUEUE_OP_DEL :: u32 where "SLASH_QDMA_QUEUE_OP_DEL \<equiv> 2"

definition slash_qdma_ioctl_qpair_op ::
  "'h libqdma \<Rightarrow> u32 \<Rightarrow> u32 \<Rightarrow> 'h qdma_dev \<Rightarrow> (errno option \<times> 'h qdma_dev) option" where
  "slash_qdma_ioctl_qpair_op L qid opcode d =
     (if \<not> qd_have_qdma_handle d then Some (Some ENODEV, d)
      else case slash_qdma_qpair_lookup d qid of
        None \<Rightarrow> Some (Some ENOENT, d)
      | Some a \<Rightarrow>
          if opcode = SLASH_QDMA_QUEUE_OP_START then
            slash_qdma_ioctl_qpair_op_apply (qdma_queue_start L) True a d
          else if opcode = SLASH_QDMA_QUEUE_OP_STOP then
            slash_qdma_ioctl_qpair_op_apply (qdma_queue_stop L) True a d
          else if opcode = SLASH_QDMA_QUEUE_OP_DEL then do {
            (r, d) \<leftarrow> slash_qdma_ioctl_qpair_op_apply (slash_qdma_queue_remove_safe L) False a d;
            if r = None then do {
              d \<leftarrow> slash_qdma_qpair_remove qid d;
              Some (None, d)
            }
            else Some (r, d)
          }
          else Some (Some EINVAL, d))"

definition slash_qdma_ioctl_qpair_op_w ::
  "'h libqdma \<Rightarrow> uaccess \<Rightarrow> nat \<Rightarrow> u32 \<Rightarrow> u32 \<Rightarrow> 'h qdma_dev \<Rightarrow> (errno option \<times> 'h qdma_dev) option" where
  "slash_qdma_ioctl_qpair_op_w L ua user_size qid opcode d =
     (if \<not> ua_in ua then Some (Some EFAULT, d)
      else if user_size < SLASH_QDMA_QPAIR_OP_MIN_SIZE then Some (Some EINVAL, d)
      else if opcode > SLASH_QDMA_QUEUE_OP_DEL then Some (Some EINVAL, d)
      else if \<not> usable d then Some (Some ENODEV, d)
      else do {
        (r, d) \<leftarrow> slash_qdma_ioctl_qpair_op L qid opcode d;
        Some (case r of Some e \<Rightarrow> Some e
              | None \<Rightarrow> (case copy_back ua user_size sizeof_qpair_op () of Inl e \<Rightarrow> Some e | Inr _ \<Rightarrow> None), d)
      })"

section \<open>Device references\<close>

definition dev_get :: "'h qdma_dev \<Rightarrow> 'h qdma_dev option" where
  "dev_get d = (if qd_ref d = 0 then None else Some (d\<lparr>qd_ref := qd_ref d + 1\<rparr>))"

definition dev_put :: "'h qdma_dev \<Rightarrow> 'h qdma_dev option" where
  "dev_put d = (if qd_ref d = 0 then None else Some (d\<lparr>qd_ref := qd_ref d - 1\<rparr>))"

definition slash_qdma_fop_open :: "'h qdma_dev \<Rightarrow> (errno option \<times> 'h qdma_dev) option" where
  "slash_qdma_fop_open d =
     (if \<not> usable d then Some (Some ENODEV, d)
      else do {
        d \<leftarrow> dev_get d;
        Some (None, d\<lparr>qd_ctl := qd_ctl d + 1\<rparr>)
      })"

definition slash_qdma_fop_release :: "'h qdma_dev \<Rightarrow> 'h qdma_dev option" where
  "slash_qdma_fop_release d = do {
     d \<leftarrow> dev_put d;
     Some (d\<lparr>qd_ctl := qd_ctl d - 1\<rparr>)
   }"

section \<open>Transfer descriptors\<close>

abbreviation (input) O_CLOEXEC :: u32 where "O_CLOEXEC \<equiv> 0x80000"

record qpair_fd_request =
  fr_qid :: u32
  fr_flags :: u32
  fr_qpair_count :: u32
  fr_qpair_ids :: "u32 list"

definition requested_ids :: "qpair_fd_request \<Rightarrow> u32 list option" where
  "requested_ids req =
     (if fr_qpair_count req = 0 then Some [fr_qid req]
      else if unat (fr_qpair_count req) > SLASH_QDMA_FD_MAX_QPAIRS then None
      else Some (take (unat (fr_qpair_count req)) (fr_qpair_ids req)))"

text \<open>Take one reference per entry, or drop those taken, the latest first.\<close>

fun take_refs :: "u32 list \<Rightarrow> nat list \<Rightarrow> 'h qdma_dev \<Rightarrow> ((errno + nat list) \<times> 'h qdma_dev) option" where
  "take_refs [] taken d = Some (Inr taken, d)"
| "take_refs (qid # qids) taken d =
     (case slash_qdma_qpair_lookup d qid of
        None \<Rightarrow> do {
          d \<leftarrow> qpair_put_all (rev taken) d;
          Some (Inl ENOENT, d)
        }
      | Some a \<Rightarrow> do {
          e \<leftarrow> qd_heap d a;
          if qe_dir_mask e = 0 then do {
            d \<leftarrow> qpair_put_all (rev taken) d;
            Some (Inl ENOENT, d)
          }
          else do {
            d \<leftarrow> slash_qdma_qpair_get a d;
            take_refs qids (taken @ [a]) d
          }
        })"

text \<open>The part under the lock; the context it leaves is private to the calling thread.\<close>

definition get_fd_begin ::
  "uaccess \<Rightarrow> nat \<Rightarrow> qpair_fd_request \<Rightarrow> 'h qdma_dev \<Rightarrow> ((errno + nat) \<times> 'h qdma_dev) option" where
  "get_fd_begin ua user_size req d =
     (if \<not> ua_in ua then Some (Inl EFAULT, d)
      else if user_size < SLASH_QDMA_QPAIR_GET_FD_MIN_SIZE then Some (Inl EINVAL, d)
      else if fr_flags req AND NOT O_CLOEXEC \<noteq> 0 then Some (Inl EINVAL, d)
      else case requested_ids req of
        None \<Rightarrow> Some (Inl EINVAL, d)
      | Some ids \<Rightarrow>
          if \<not> usable d then Some (Inl ENODEV, d)
          else do {
            (r, d) \<leftarrow> take_refs ids [] d;
            case r of
              Inl e \<Rightarrow> Some (Inl e, d)
            | Inr as \<Rightarrow> do {
                d \<leftarrow> dev_get d;
                let f = qd_next_file d in
                Some (Inr f, d\<lparr>qd_pending := (f, \<lparr>fc_entries = as, fc_qids = ids, fc_fds = 0\<rparr>) # qd_pending d,
                               qd_next_file := f + 1\<rparr>)
              }
          })"

definition drop_ctx :: "qpair_file_ctx \<Rightarrow> 'h qdma_dev \<Rightarrow> 'h qdma_dev option" where
  "drop_ctx ctx d = do {
     d \<leftarrow> qpair_put_all (fc_entries ctx) d;
     dev_put d
   }"

definition remove_key :: "nat \<Rightarrow> (nat \<times> 'a) list \<Rightarrow> (nat \<times> 'a) list" where
  "remove_key f xs = filter (\<lambda>p. fst p \<noteq> f) xs"

text \<open>
  Creation of the file and of the descriptor, copy-out and installation. Every failure drops the
  references, directly or through the release of the file.
\<close>

definition get_fd_finish ::
  "uaccess \<Rightarrow> nat \<Rightarrow> errno option \<Rightarrow> errno option \<Rightarrow> nat \<Rightarrow> 'h qdma_dev \<Rightarrow> ((errno + nat) \<times> 'h qdma_dev) option" where
  "get_fd_finish ua user_size file_err fd_err f d = do {
     ctx \<leftarrow> map_of (qd_pending d) f;
     let d = d\<lparr>qd_pending := remove_key f (qd_pending d)\<rparr>;
         failure = (case file_err of Some e \<Rightarrow> Some e
                    | None \<Rightarrow> (case fd_err of Some e \<Rightarrow> Some e
                    | None \<Rightarrow> (case copy_back ua user_size sizeof_qpair_fd_request () of
                        Inl e \<Rightarrow> Some e | Inr _ \<Rightarrow> None)))
     in case failure of
          Some e \<Rightarrow> do {
            d \<leftarrow> drop_ctx ctx d;
            Some (Inl e, d)
          }
        | None \<Rightarrow> Some (Inr f, d\<lparr>qd_files := (f, ctx\<lparr>fc_fds := 1\<rparr>) # qd_files d\<rparr>)
   }"

definition slash_qdma_ioctl_qpair_get_fd_w ::
  "uaccess \<Rightarrow> nat \<Rightarrow> errno option \<Rightarrow> errno option \<Rightarrow> qpair_fd_request \<Rightarrow> 'h qdma_dev \<Rightarrow>
   ((errno + nat) \<times> 'h qdma_dev) option" where
  "slash_qdma_ioctl_qpair_get_fd_w ua user_size file_err fd_err req d = do {
     (r, d) \<leftarrow> get_fd_begin ua user_size req d;
     case r of
       Inl e \<Rightarrow> Some (Inl e, d)
     | Inr f \<Rightarrow> get_fd_finish ua user_size file_err fd_err f d
   }"

definition slash_qdma_qpair_release :: "nat \<Rightarrow> 'h qdma_dev \<Rightarrow> 'h qdma_dev option" where
  "slash_qdma_qpair_release f d = do {
     ctx \<leftarrow> map_of (qd_files d) f;
     drop_ctx ctx (d\<lparr>qd_files := remove_key f (qd_files d)\<rparr>)
   }"

text \<open>Passing a descriptor to another process, and closing one: the last close releases the file.\<close>

definition pass_file :: "nat \<Rightarrow> 'h qdma_dev \<Rightarrow> 'h qdma_dev" where
  "pass_file f d =
     d\<lparr>qd_files := map (\<lambda>(g, c). (g, if g = f then c\<lparr>fc_fds := fc_fds c + 1\<rparr> else c)) (qd_files d)\<rparr>"

definition close_file :: "nat \<Rightarrow> 'h qdma_dev \<Rightarrow> 'h qdma_dev option" where
  "close_file f d =
     (case map_of (qd_files d) f of
        None \<Rightarrow> Some d
      | Some ctx \<Rightarrow>
          if fc_fds ctx \<le> 1 then slash_qdma_qpair_release f d
          else Some (d\<lparr>qd_files :=
            map (\<lambda>(g, c). (g, if g = f then c\<lparr>fc_fds := fc_fds c - 1\<rparr> else c)) (qd_files d)\<rparr>))"

section \<open>Tear-down\<close>

definition teardown_entry :: "'h libqdma \<Rightarrow> qpair_entry \<Rightarrow> 'h \<Rightarrow> qpair_entry \<times> 'h" where
  "teardown_entry L entry h =
     fold (\<lambda>qt (e, h). if has_dir (qe_dir_mask e) qt then slash_qdma_ioctl_qpair_rm_q L qt (e, h) else (e, h))
       queue_types (entry, h)"

fun teardown_qpairs :: "'h libqdma \<Rightarrow> nat list \<Rightarrow> 'h qdma_dev \<Rightarrow> 'h qdma_dev option" where
  "teardown_qpairs L [] d = Some d"
| "teardown_qpairs L (i # is) d =
     (case qd_qpairs d ! i of
        None \<Rightarrow> teardown_qpairs L is d
      | Some a \<Rightarrow> do {
          e \<leftarrow> qd_heap d a;
          let (e, h) = teardown_entry L e (qd_lib d) in do {
            d \<leftarrow> slash_qdma_qpair_put a ((store_entry a e h d)\<lparr>qd_qpairs := (qd_qpairs d)[i := None]\<rparr>);
            teardown_qpairs L is d
          }
        })"

text \<open>The lock is released between raising \<open>hw_shutdown\<close> and the removal of the queue pairs.\<close>

definition destroy_begin :: "'h qdma_dev \<Rightarrow> 'h qdma_dev" where
  "destroy_begin d = d\<lparr>qd_hw_shutdown := True\<rparr>"

definition destroy_finish :: "'h libqdma \<Rightarrow> 'h qdma_dev \<Rightarrow> 'h qdma_dev option" where
  "destroy_finish L d = do {
     d \<leftarrow> teardown_qpairs L [0..<length (qd_qpairs d)] d;
     Some (if qd_have_qdma_handle d
           then d\<lparr>qd_lib := snd (qdma_device_close L (qd_lib d)), qd_have_qdma_handle := False\<rparr> else d)
   }"

definition slash_qdma_destroy_qdma_device :: "'h libqdma \<Rightarrow> 'h qdma_dev \<Rightarrow> 'h qdma_dev option" where
  "slash_qdma_destroy_qdma_device L d =
     (if qd_hw_shutdown d then Some d else destroy_finish L (destroy_begin d))"

definition slash_qdma_remove :: "'h libqdma \<Rightarrow> 'h qdma_dev \<Rightarrow> 'h qdma_dev option" where
  "slash_qdma_remove L d = do {
     d \<leftarrow> slash_qdma_destroy_qdma_device L d;
     d \<leftarrow> dev_put d;
     Some (d\<lparr>qd_bound := False\<rparr>)
   }"

text \<open>The device after a successful probe.\<close>

definition probed_dev :: "'h \<Rightarrow> 'h qdma_dev" where
  "probed_dev h =
     \<lparr>qd_heap = (\<lambda>_. None), qd_next = 0, qd_qpairs = replicate SLASH_QDMA_MAX_QPAIRS None, qd_pending = [],
      qd_files = [], qd_next_file = 0, qd_ref = 1, qd_ctl = 0, qd_bound = True,
      qd_have_qdma_handle = True, qd_hw_shutdown = False, qd_lib = h\<rparr>"

section \<open>Transfers\<close>

text \<open>The kernel buffer behind \<open>buf_fd\<close>; \<open>qb_own_dev\<close> says that it belongs to the device of the transfer.\<close>

record qdma_buf =
  qb_own_dev :: bool
  qb_length :: u64
  qb_granule :: u32
  qb_pages_nr :: u32

abbreviation (input) SLASH_QDMA_XFER_H2C :: u32 where "SLASH_QDMA_XFER_H2C \<equiv> 1"
abbreviation (input) SLASH_QDMA_XFER_C2H :: u32 where "SLASH_QDMA_XFER_C2H \<equiv> 2"
abbreviation (input) UINT_MAX :: u64 where "UINT_MAX \<equiv> 0xFFFFFFFF"
abbreviation (input) EBADF :: errno where "EBADF \<equiv> 9"

record qdma_subxfer =
  sx_qpair_index :: u32
  sx_direction :: u32
  sx_buf_fd :: int
  sx_buf_offset :: u64
  sx_dev_addr :: u64
  sx_length :: u64

text \<open>The request handed to libqdma; \<open>xr_sgl\<close> lists page index and byte count of its entries.\<close>

record qdma_xfer_req =
  xr_qhndl :: qhandle
  xr_write :: bool
  xr_ep_addr :: u64
  xr_count :: u32
  xr_sgl :: "(nat \<times> u64) list"

definition xfer_direction :: "u32 \<Rightarrow> queue_type option" where
  "xfer_direction dir =
     (if dir = SLASH_QDMA_XFER_H2C then Some Q_H2C
      else if dir = SLASH_QDMA_XFER_C2H then Some Q_C2H else None)"

text \<open>The scatter list of a slice: whole pages, the last one clipped.\<close>

definition xfer_sgl :: "u64 \<Rightarrow> u64 \<Rightarrow> u64 \<Rightarrow> u64 \<Rightarrow> (nat \<times> u64) list" where
  "xfer_sgl granule start_entry n_entries len =
     (let pages = map (\<lambda>i. (unat start_entry + i, granule)) [0..<unat n_entries] in
      if len mod granule = 0 then pages
      else butlast pages @ [(unat start_entry + unat n_entries - 1, len mod granule)])"

definition slash_qdma_xfer_prep ::
  "(int \<Rightarrow> (errno + qdma_buf)) \<Rightarrow> 'h qdma_dev \<Rightarrow> nat \<Rightarrow> qdma_subxfer \<Rightarrow> (errno + qdma_xfer_req) option" where
  "slash_qdma_xfer_prep buf_from_fd d a desc =
     (case xfer_direction (sx_direction desc) of
        None \<Rightarrow> Some (Inl EINVAL)
      | Some qtype \<Rightarrow>
          if sx_length desc = 0 \<or> sx_length desc > UINT_MAX then Some (Inl EINVAL)
          else case buf_from_fd (sx_buf_fd desc) of
            Inl e \<Rightarrow> Some (Inl e)
          | Inr buf \<Rightarrow>
              let granule = ucast (qb_granule buf) :: u64 in
              if \<not> qb_own_dev buf then Some (Inl EINVAL)
              else if granule = 0 \<or> sx_buf_offset desc mod granule \<noteq> 0 then Some (Inl EINVAL)
              else if sx_buf_offset desc > qb_length buf \<or>
                      sx_length desc > qb_length buf - sx_buf_offset desc then Some (Inl EINVAL)
              else
                let start_entry = sx_buf_offset desc div granule;
                    n_entries = (sx_length desc + granule - 1) div granule
                in
                if start_entry + n_entries > ucast (qb_pages_nr buf) then Some (Inl EINVAL)
                else if \<not> usable d then Some (Inl ENODEV)
                else do {
                  entry \<leftarrow> qd_heap d a;
                  case qe_qhndl entry qtype of
                    None \<Rightarrow> Some (Inl ENODEV)
                  | Some qhndl \<Rightarrow>
                      if \<not> has_dir (qe_dir_mask entry) qtype then Some (Inl ENODEV)
                      else Some (Inr \<lparr>xr_qhndl = qhndl, xr_write = (qtype = Q_H2C),
                             xr_ep_addr = sx_dev_addr desc, xr_count = ucast (sx_length desc),
                             xr_sgl = xfer_sgl granule start_entry n_entries (sx_length desc)\<rparr>)
                })"

fun xfer_prep_all ::
  "(int \<Rightarrow> (errno + qdma_buf)) \<Rightarrow> 'h qdma_dev \<Rightarrow> nat list \<Rightarrow> qdma_subxfer list \<Rightarrow> qdma_xfer_req list \<Rightarrow>
   (errno + qdma_xfer_req list) option" where
  "xfer_prep_all buf_from_fd d as [] xrs = Some (Inr xrs)"
| "xfer_prep_all buf_from_fd d as (x # xs) xrs =
     (if unat (sx_qpair_index x) \<ge> length as then Some (Inl EINVAL)
      else do {
        r \<leftarrow> slash_qdma_xfer_prep buf_from_fd d (as ! unat (sx_qpair_index x)) x;
        case r of
          Inl e \<Rightarrow> Some (Inl e)
        | Inr xr \<Rightarrow> xfer_prep_all buf_from_fd d as xs (xrs @ [xr])
      })"

text \<open>First error in the order of the requests, else the bytes of all of them.\<close>

fun first_error :: "(errno + u32) list \<Rightarrow> errno option" where
  "first_error [] = None"
| "first_error (Inl e # rs) = Some e"
| "first_error (Inr _ # rs) = first_error rs"

definition total_bytes :: "(errno + u32) list \<Rightarrow> u64" where
  "total_bytes rs = sum_list (map (\<lambda>r. case r of Inl _ \<Rightarrow> 0 | Inr n \<Rightarrow> ucast n) rs)"

text \<open>
  The batch: \<open>results\<close> gives the outcome libqdma delivers for a request, at submission or through the
  completion the thread waits for.
\<close>

definition slash_qdma_qpair_transfer ::
  "(int \<Rightarrow> (errno + qdma_buf)) \<Rightarrow> (qdma_xfer_req \<Rightarrow> errno + u32) \<Rightarrow> uaccess \<Rightarrow> nat \<Rightarrow> u32 \<Rightarrow>
   qdma_subxfer list \<Rightarrow> nat \<Rightarrow> 'h qdma_dev \<Rightarrow> (errno + u64) option" where
  "slash_qdma_qpair_transfer buf_from_fd results ua user_size n xfers f d = do {
     ctx \<leftarrow> map_of (qd_files d) f;
     if fc_entries ctx = [] then Some (Inl ENODEV)
     else if \<not> ua_in ua then Some (Inl EFAULT)
     else if user_size < SLASH_QDMA_TRANSFER_MIN_SIZE then Some (Inl EINVAL)
     else if n = 0 \<or> unat n > SLASH_QDMA_FD_MAX_QPAIRS then Some (Inl EINVAL)
     else do {
       r \<leftarrow> xfer_prep_all buf_from_fd d (fc_entries ctx) (take (unat n) xfers) [];
       case r of
         Inl e \<Rightarrow> Some (Inl e)
       | Inr xrs \<Rightarrow>
           (let rs = map results xrs in
            Some (case first_error rs of Some e \<Rightarrow> Inl e | None \<Rightarrow> Inr (total_bytes rs)))
     }
   }"

section \<open>Interleavings\<close>

text \<open>
  The steps threads take on a device, each under the lock or on a private context. A step its caller
  cannot take (an ioctl without an open control file, a second removal) leaves the device alone.
\<close>

datatype qdma_event =
    Ev_open
  | Ev_release
  | Ev_add uaccess nat qpair_add_req
  | Ev_op uaccess nat u32 u32
  | Ev_get_fd uaccess nat qpair_fd_request
  | Ev_install uaccess nat "errno option" "errno option" nat
  | Ev_pass nat
  | Ev_close nat
  | Ev_transfer uaccess nat u32 "qdma_subxfer list" nat
  | Ev_remove_begin
  | Ev_remove_finish

definition removing :: "'h qdma_dev \<Rightarrow> bool" where
  "removing d \<longleftrightarrow> qd_bound d \<and> qd_hw_shutdown d"

fun exec_event ::
  "'h libqdma \<Rightarrow> (int \<Rightarrow> (errno + qdma_buf)) \<Rightarrow> (qdma_xfer_req \<Rightarrow> errno + u32) \<Rightarrow> qdma_event \<Rightarrow> 'h qdma_dev \<Rightarrow>
   'h qdma_dev option" where
  "exec_event L B R Ev_open d = (if qd_bound d then map_option snd (slash_qdma_fop_open d) else Some d)"
| "exec_event L B R Ev_release d = (if qd_ctl d > 0 then slash_qdma_fop_release d else Some d)"
| "exec_event L B R (Ev_add ua n req) d =
     (if qd_ctl d > 0 then map_option snd (slash_qdma_ioctl_qpair_add_w L ua n req d) else Some d)"
| "exec_event L B R (Ev_op ua n qid opcode) d =
     (if qd_ctl d > 0 then map_option snd (slash_qdma_ioctl_qpair_op_w L ua n qid opcode d) else Some d)"
| "exec_event L B R (Ev_get_fd ua n req) d =
     (if qd_ctl d > 0 then map_option snd (get_fd_begin ua n req d) else Some d)"
| "exec_event L B R (Ev_install ua n fe de f) d =
     (if map_of (qd_pending d) f \<noteq> None then map_option snd (get_fd_finish ua n fe de f d) else Some d)"
| "exec_event L B R (Ev_pass f) d = Some (pass_file f d)"
| "exec_event L B R (Ev_close f) d = close_file f d"
| "exec_event L B R (Ev_transfer ua n k xs f) d =
     (if map_of (qd_files d) f \<noteq> None
      then map_option (\<lambda>_. d) (slash_qdma_qpair_transfer B R ua n k xs f d) else Some d)"
| "exec_event L B R Ev_remove_begin d =
     (if qd_bound d \<and> \<not> qd_hw_shutdown d then Some (destroy_begin d) else Some d)"
| "exec_event L B R Ev_remove_finish d =
     (if removing d then do {
        d \<leftarrow> destroy_finish L d;
        d \<leftarrow> dev_put d;
        Some (d\<lparr>qd_bound := False\<rparr>)
      } else Some d)"

fun exec_events ::
  "'h libqdma \<Rightarrow> (int \<Rightarrow> (errno + qdma_buf)) \<Rightarrow> (qdma_xfer_req \<Rightarrow> errno + u32) \<Rightarrow> qdma_event list \<Rightarrow> 'h qdma_dev \<Rightarrow>
   'h qdma_dev option" where
  "exec_events L B R [] d = Some d"
| "exec_events L B R (ev # evs) d = do {
     d \<leftarrow> exec_event L B R ev d;
     exec_events L B R evs d
   }"

section \<open>The reference-count invariant\<close>

text \<open>Who holds an entry: the table, unfinished \<open>get_fd\<close> calls, open transfer files.\<close>

definition ctx_refs :: "(nat \<times> qpair_file_ctx) list \<Rightarrow> nat \<Rightarrow> nat" where
  "ctx_refs cs a = count_list (concat (map (fc_entries \<circ> snd) cs)) a"

definition holders :: "'h qdma_dev \<Rightarrow> nat \<Rightarrow> nat" where
  "holders d a = count_list (qd_qpairs d) (Some a) + ctx_refs (qd_pending d) a + ctx_refs (qd_files d) a"

text \<open>\<open>refs_are d n\<close>: entry \<open>a\<close> exists exactly when \<open>n a\<close> is positive, with that count.\<close>

definition ref_ok :: "qpair_entry option \<Rightarrow> nat \<Rightarrow> bool" where
  "ref_ok x k \<longleftrightarrow> (case x of None \<Rightarrow> k = 0 | Some e \<Rightarrow> 0 < k \<and> qe_ref e = k)"

definition refs_are :: "'h qdma_dev \<Rightarrow> (nat \<Rightarrow> nat) \<Rightarrow> bool" where
  "refs_are d n \<longleftrightarrow> (\<forall>a. ref_ok (qd_heap d a) (n a))"

definition dev_holders :: "'h qdma_dev \<Rightarrow> nat" where
  "dev_holders d = (if qd_bound d then 1 else 0) + qd_ctl d + length (qd_pending d) + length (qd_files d)"

definition counted :: "'h qdma_dev \<Rightarrow> bool" where
  "counted d \<longleftrightarrow>
     refs_are d (holders d) \<and> (\<forall>a \<ge> qd_next d. holders d a = 0) \<and>
     length (qd_qpairs d) = SLASH_QDMA_MAX_QPAIRS \<and>
     distinct (map fst (qd_pending d) @ map fst (qd_files d)) \<and>
     (\<forall>f \<in> set (map fst (qd_pending d) @ map fst (qd_files d)). f < qd_next_file d) \<and>
     qd_ref d = dev_holders d"

lemma ctx_refs_Nil [simp]: "ctx_refs [] a = 0"
  by (simp add: ctx_refs_def)

lemma ctx_refs_Cons [simp]: "ctx_refs ((f, c) # cs) a = count_list (fc_entries c) a + ctx_refs cs a"
  by (simp add: ctx_refs_def)

lemma remove_key_notin: "f \<notin> fst ` set cs \<Longrightarrow> remove_key f cs = cs"
  by (force simp: remove_key_def intro: filter_True)

lemma ctx_refs_remove_key:
  assumes "map_of cs f = Some c" and "distinct (map fst cs)"
  shows "ctx_refs cs a = count_list (fc_entries c) a + ctx_refs (remove_key f cs) a"
    and "length cs = Suc (length (remove_key f cs))"
    and "set (map fst (remove_key f cs)) = set (map fst cs) - {f}"
    and "distinct (map fst (remove_key f cs))"
proof -
  have "ctx_refs cs a = count_list (fc_entries c) a + ctx_refs (remove_key f cs) a \<and>
      length cs = Suc (length (remove_key f cs))"
    using assms
  proof (induction cs)
    case (Cons p cs)
    obtain g x where p: "p = (g, x)" by (cases p)
    show ?case
    proof (cases "g = f")
      case True
      then have "f \<notin> fst ` set cs" using Cons.prems(2) p by auto
      then have "remove_key f cs = cs" by (rule remove_key_notin)
      then show ?thesis using Cons.prems(1) True p by (simp add: remove_key_def)
    next
      case False
      then have "ctx_refs cs a = count_list (fc_entries c) a + ctx_refs (remove_key f cs) a \<and>
          length cs = Suc (length (remove_key f cs))"
        using Cons p by simp
      then show ?thesis using False p by (simp add: remove_key_def)
    qed
  qed simp
  then show "ctx_refs cs a = count_list (fc_entries c) a + ctx_refs (remove_key f cs) a"
    and "length cs = Suc (length (remove_key f cs))" by auto
  show "set (map fst (remove_key f cs)) = set (map fst cs) - {f}" by (auto simp: remove_key_def)
  show "distinct (map fst (remove_key f cs))"
    using assms(2) by (simp add: remove_key_def distinct_map inj_on_def)
qed

lemma ref_ok_simps [simp]: "ref_ok None k \<longleftrightarrow> k = 0" "ref_ok (Some e) k \<longleftrightarrow> 0 < k \<and> qe_ref e = k"
  by (simp_all add: ref_ok_def)

lemma refs_are_present: "refs_are d n \<Longrightarrow> 0 < n a \<Longrightarrow> \<exists>e. qd_heap d a = Some e \<and> qe_ref e = n a"
  unfolding refs_are_def by (drule spec [of _ a]) (auto simp: ref_ok_def split: option.splits)

lemma refs_are_get:
  assumes "refs_are d n" and "0 < n a"
  shows "\<exists>H. slash_qdma_qpair_get a d = Some (d\<lparr>qd_heap := H\<rparr>) \<and> refs_are (d\<lparr>qd_heap := H\<rparr>) (n(a := n a + 1))"
proof -
  obtain e where e: "qd_heap d a = Some e" "qe_ref e = n a" using refs_are_present [OF assms] by blast
  let ?H = "(qd_heap d)(a \<mapsto> e\<lparr>qe_ref := n a + 1\<rparr>)"
  have "refs_are (d\<lparr>qd_heap := ?H\<rparr>) (n(a := n a + 1))"
    using assms(1) by (auto simp: refs_are_def)
  then show ?thesis using e by (intro exI [of _ ?H]) (simp add: slash_qdma_qpair_get_def)
qed

lemma refs_are_put:
  assumes "refs_are d n" and "0 < n a"
  shows "\<exists>H. slash_qdma_qpair_put a d = Some (d\<lparr>qd_heap := H\<rparr>) \<and> refs_are (d\<lparr>qd_heap := H\<rparr>) (n(a := n a - 1))"
proof -
  obtain e where e: "qd_heap d a = Some e" "qe_ref e = n a" using refs_are_present [OF assms] by blast
  let ?H = "if n a \<le> 1 then (qd_heap d)(a := None) else (qd_heap d)(a \<mapsto> e\<lparr>qe_ref := n a - 1\<rparr>)"
  have "refs_are (d\<lparr>qd_heap := ?H\<rparr>) (n(a := n a - 1))"
    using assms by (auto simp: refs_are_def)
  then show ?thesis using e by (intro exI [of _ ?H]) (simp add: slash_qdma_qpair_put_def)
qed

lemma refs_are_put_all:
  assumes "refs_are d n" and "\<And>a. count_list as a \<le> n a"
  shows "\<exists>H. qpair_put_all as d = Some (d\<lparr>qd_heap := H\<rparr>) \<and>
    refs_are (d\<lparr>qd_heap := H\<rparr>) (\<lambda>a. n a - count_list as a)"
  using assms
proof (induction as arbitrary: d n)
  case Nil
  then show ?case by (intro exI [of _ "qd_heap d"]) simp
next
  case (Cons a as)
  have "0 < n a" using Cons.prems(2) [of a] by simp
  then obtain H where H: "slash_qdma_qpair_put a d = Some (d\<lparr>qd_heap := H\<rparr>)"
    "refs_are (d\<lparr>qd_heap := H\<rparr>) (n(a := n a - 1))"
    using refs_are_put [OF Cons.prems(1)] by blast
  have le: "count_list as b \<le> (n(a := n a - 1)) b" for b using Cons.prems(2) [of b] by (cases "b = a") auto
  obtain H' where H': "qpair_put_all as (d\<lparr>qd_heap := H\<rparr>) = Some (d\<lparr>qd_heap := H'\<rparr>)"
    "refs_are (d\<lparr>qd_heap := H'\<rparr>) (\<lambda>b. (n(a := n a - 1)) b - count_list as b)"
    using Cons.IH [OF H(2) le] by auto
  have "(\<lambda>b. (n(a := n a - 1)) b - count_list as b) = (\<lambda>b. n b - count_list (a # as) b)" by auto
  then show ?case using H(1) H' by auto
qed

lemma count_list_update:
  assumes "i < length xs"
  shows "count_list (xs[i := y]) x + (if xs ! i = x then 1 else 0) = count_list xs x + (if y = x then 1 else 0)"
proof -
  have "count_list xs x = count_list (take i xs @ xs ! i # drop (Suc i) xs) x"
    using id_take_nth_drop [OF assms] by simp
  then have "count_list xs x = count_list (take i xs) x + (if xs ! i = x then 1 else 0) + count_list (drop (Suc i) xs) x"
    by simp
  moreover have "count_list (xs[i := y]) x =
      count_list (take i xs) x + (if y = x then 1 else 0) + count_list (drop (Suc i) xs) x"
    using assms by (simp add: upd_conv_take_nth_drop)
  ultimately show ?thesis by simp
qed

lemma holders_simps [simp]:
  "holders (d\<lparr>qd_heap := H\<rparr>) = holders d" "holders (d\<lparr>qd_lib := h\<rparr>) = holders d"
  "holders (d\<lparr>qd_next := k\<rparr>) = holders d" "holders (d\<lparr>qd_ref := k\<rparr>) = holders d"
  "holders (d\<lparr>qd_ctl := k\<rparr>) = holders d" "holders (d\<lparr>qd_bound := b\<rparr>) = holders d"
  "holders (d\<lparr>qd_hw_shutdown := b\<rparr>) = holders d" "holders (d\<lparr>qd_have_qdma_handle := b\<rparr>) = holders d"
  by (simp_all add: fun_eq_iff holders_def)

lemma refs_are_cong: "qd_heap d' = qd_heap d \<Longrightarrow> refs_are d' n = refs_are d n"
  by (simp add: refs_are_def)

lemma dev_holders_simps [simp]:
  "dev_holders (d\<lparr>qd_heap := H\<rparr>) = dev_holders d" "dev_holders (d\<lparr>qd_lib := h\<rparr>) = dev_holders d"
  "dev_holders (d\<lparr>qd_qpairs := q\<rparr>) = dev_holders d" "dev_holders (d\<lparr>qd_hw_shutdown := b\<rparr>) = dev_holders d"
  "dev_holders (d\<lparr>qd_have_qdma_handle := b\<rparr>) = dev_holders d" "dev_holders (d\<lparr>qd_next := k\<rparr>) = dev_holders d"
  by (simp_all add: dev_holders_def)

lemma holders_qpairs:
  assumes "i < length (qd_qpairs d)"
  shows "holders (d\<lparr>qd_qpairs := (qd_qpairs d)[i := y]\<rparr>) a + (if qd_qpairs d ! i = Some a then 1 else 0) =
    holders d a + (if y = Some a then 1 else 0)"
  using count_list_update [OF assms, of y "Some a"] by (simp add: holders_def)

lemma xa_free_id_Some: "xa_free_id qs = Some i \<Longrightarrow> i < length qs \<and> qs ! i = None"
  by (auto simp: xa_free_id_def find_Some_iff)

lemma table_holds:
  assumes "slash_qdma_qpair_lookup d qid = Some a"
  shows "0 < holders d a"
proof -
  have "Some a \<in> set (qd_qpairs d)"
    using assms by (auto simp: slash_qdma_qpair_lookup_def in_set_conv_nth split: if_splits)
  then have "count_list (qd_qpairs d) (Some a) \<noteq> 0" by (simp add: count_list_0_iff)
  then show ?thesis by (simp add: holders_def)
qed

lemma counted_insert:
  assumes "counted d" and "slash_qdma_qpair_insert e d = (Inr (qid, a), d')"
  shows "counted d' \<and> slash_qdma_qpair_lookup d' qid = Some a"
proof -
  obtain i where i: "xa_free_id (qd_qpairs d) = Some i" "qid = of_nat i" "a = qd_next d"
    "d' = d\<lparr>qd_qpairs := (qd_qpairs d)[i := Some a], qd_heap := (qd_heap d)(a \<mapsto> e\<lparr>qe_ref := 1\<rparr>), qd_next := a + 1\<rparr>"
    using assms(2) by (auto simp: slash_qdma_qpair_insert_def Let_def split: option.splits)
  have b: "i < length (qd_qpairs d)" "qd_qpairs d ! i = None" using xa_free_id_Some [OF i(1)] by auto
  have H: "holders d' b = holders d b + (if b = a then 1 else 0)" for b
    using holders_qpairs [OF b(1), of "Some a" b] b(2) i(4) by (auto simp: holders_def split: if_splits)
  have z: "holders d a = 0" using assms(1) i(3) by (simp add: counted_def)
  have "refs_are d' (holders d')"
    using assms(1) z i(4) H by (auto simp: counted_def refs_are_def)
  moreover have "unat qid = i"
    using b(1) assms(1) i(2) by (simp add: counted_def unsigned_of_nat take_bit_nat_eq_self)
  ultimately show ?thesis
    using assms(1) H b(1) i by (auto simp: counted_def slash_qdma_qpair_lookup_def dev_holders_def)
qed

lemma counted_store:
  assumes "counted d" and "qd_heap d a = Some e0"
  shows "counted (store_entry a e h d)"
proof -
  have h: "holders (store_entry a e h d) = holders d" by (simp add: store_entry_def)
  have "refs_are d (holders d)" using assms(1) by (simp add: counted_def)
  then have "refs_are (store_entry a e h d) (holders d)"
    using assms(2) by (auto simp: refs_are_def store_entry_def dest: spec [of _ a])
  then show ?thesis
    using assms(1) h by (simp add: counted_def) (simp add: store_entry_def dev_holders_def)
qed

lemma counted_erase:
  assumes C: "counted d" and l: "i < length (qd_qpairs d)" "qd_qpairs d ! i = Some a"
  shows "\<exists>d'. slash_qdma_qpair_put a (d\<lparr>qd_qpairs := (qd_qpairs d)[i := None]\<rparr>) = Some d' \<and> counted d' \<and>
    length (qd_qpairs d') = length (qd_qpairs d)"
proof -
  let ?d = "d\<lparr>qd_qpairs := (qd_qpairs d)[i := None]\<rparr>"
  have H: "holders d b = holders ?d b + (if b = a then 1 else 0)" for b
    using holders_qpairs [OF l(1), of None b] l(2) by (auto split: if_splits)
  have "refs_are ?d (holders d)" using C by (simp add: counted_def refs_are_def)
  moreover have "0 < holders d a" using H [of a] by simp
  ultimately obtain H' where H': "slash_qdma_qpair_put a ?d = Some (?d\<lparr>qd_heap := H'\<rparr>)"
    "refs_are (?d\<lparr>qd_heap := H'\<rparr>) ((holders d)(a := holders d a - 1))"
    using refs_are_put [of ?d "holders d" a] by blast
  have "(holders d)(a := holders d a - 1) = holders ?d" using H by (auto simp: fun_eq_iff)
  then have "counted (?d\<lparr>qd_heap := H'\<rparr>)"
    using C H H'(2) by (auto simp: counted_def dev_holders_def)
  then show ?thesis using H'(1) by (intro exI [of _ "?d\<lparr>qd_heap := H'\<rparr>"]) simp
qed

lemma counted_remove:
  assumes "counted d"
  shows "ok (slash_qdma_qpair_remove qid d) counted"
proof (cases "slash_qdma_qpair_lookup d qid")
  case (Some a)
  then have "unat qid < length (qd_qpairs d)" "qd_qpairs d ! unat qid = Some a"
    by (auto simp: slash_qdma_qpair_lookup_def split: if_splits)
  then obtain d' where "slash_qdma_qpair_put a (d\<lparr>qd_qpairs := (qd_qpairs d)[unat qid := None]\<rparr>) = Some d'" "counted d'"
    using counted_erase [OF assms] by blast
  then show ?thesis using Some by (simp add: slash_qdma_qpair_remove_def)
qed (use assms in \<open>simp add: slash_qdma_qpair_remove_def\<close>)

lemma counted_lib [simp]: "counted (d\<lparr>qd_lib := h\<rparr>) = counted d"
  by (simp add: counted_def refs_are_def)

lemma counted_shutdown [simp]: "counted (d\<lparr>qd_hw_shutdown := b\<rparr>) = counted d"
  by (simp add: counted_def refs_are_def)

lemma counted_closed [simp]: "counted (d\<lparr>qd_have_qdma_handle := b\<rparr>) = counted d"
  by (simp add: counted_def refs_are_def)

subsection \<open>Every step keeps the counts\<close>

lemma counted_add:
  assumes "counted d"
  shows "ok (slash_qdma_ioctl_qpair_add L req d) (\<lambda>(r, d'). counted d')"
proof (cases "slash_qdma_qpair_insert (new_entry req) d")
  case (Pair r d1)
  show ?thesis
  proof (cases r)
    case (Inl e)
    then have "d1 = d" using Pair by (auto simp: slash_qdma_qpair_insert_def Let_def split: option.splits)
    then show ?thesis using Pair Inl assms by (simp add: slash_qdma_ioctl_qpair_add_def)
  next
    case (Inr p)
    obtain qid a where p: "p = (qid, a)" by (cases p)
    have C: "counted d1" "slash_qdma_qpair_lookup d1 qid = Some a"
      using counted_insert [OF assms] Pair Inr p by auto
    then obtain e0 where "qd_heap d1 a = Some e0"
      using table_holds [OF C(2)] refs_are_present [of d1 "holders d1" a] by (auto simp: counted_def)
    then have S: "counted (store_entry a e h d1)" for e h using counted_store [OF C(1)] by blast
    obtain f added entry h where Q: "qpair_add_queues L req qid queue_types [] (new_entry req) (qd_lib d1) = (f, added, entry, h)"
      by (cases "qpair_add_queues L req qid queue_types [] (new_entry req) (qd_lib d1)")
    obtain e' h' where R: "fold (slash_qdma_ioctl_qpair_rm_q L) added (entry, h) = (e', h')"
      by (cases "fold (slash_qdma_ioctl_qpair_rm_q L) added (entry, h)")
    have "ok (slash_qdma_qpair_remove qid (store_entry a e' h' d1)) counted" using counted_remove [OF S] .
    then show ?thesis
      using Pair Inr p Q R S by (cases f) (auto simp: slash_qdma_ioctl_qpair_add_def ok_def split: option.splits)
  qed
qed

lemma counted_op:
  assumes "counted d"
  shows "ok (slash_qdma_ioctl_qpair_op L qid opcode d) (\<lambda>(r, d'). counted d')"
proof (cases "slash_qdma_qpair_lookup d qid")
  case None
  then show ?thesis using assms by (simp add: slash_qdma_ioctl_qpair_op_def)
next
  case (Some a)
  then obtain e where e: "qd_heap d a = Some e"
    using table_holds [OF Some] refs_are_present [of d "holders d" a] assms by (auto simp: counted_def)
  have A: "\<exists>r h. slash_qdma_ioctl_qpair_op_apply fn b a d = Some (r, d\<lparr>qd_lib := h\<rparr>)" for fn b
    using e by (cases "op_apply fn b e queue_types None (qd_lib d)") (auto simp: slash_qdma_ioctl_qpair_op_apply_def)
  have D: "ok (slash_qdma_qpair_remove qid (d\<lparr>qd_lib := h\<rparr>)) counted" for h
    using assms by (intro counted_remove) simp
  show ?thesis
    using A [of "qdma_queue_start L" True] A [of "qdma_queue_stop L" True]
      A [of "slash_qdma_queue_remove_safe L" False] D assms Some
    by (auto simp: slash_qdma_ioctl_qpair_op_def)
qed

lemma take_refs_counted:
  assumes "refs_are d (\<lambda>a. base a + count_list taken a)"
    and "\<And>a. count_list (qd_qpairs d) (Some a) \<le> base a"
  shows "\<exists>r H. take_refs qids taken d = Some (r, d\<lparr>qd_heap := H\<rparr>) \<and>
    refs_are (d\<lparr>qd_heap := H\<rparr>) (\<lambda>a. base a + count_list (case r of Inl e \<Rightarrow> [] | Inr as \<Rightarrow> as) a)"
  using assms
proof (induction qids arbitrary: taken d)
  case Nil
  then show ?case by (intro exI [of _ "Inr taken"] exI [of _ "qd_heap d"]) simp
next
  case (Cons qid qids)
  have undo: "\<exists>H. qpair_put_all (rev taken) d = Some (d\<lparr>qd_heap := H\<rparr>) \<and> refs_are (d\<lparr>qd_heap := H\<rparr>) base"
    using refs_are_put_all [OF Cons.prems(1), of "rev taken"] by (simp add: count_list_rev)
  show ?case
  proof (cases "slash_qdma_qpair_lookup d qid")
    case None
    then show ?thesis using undo by force
  next
    case (Some a)
    have "Some a \<in> set (qd_qpairs d)"
      using Some by (auto simp: slash_qdma_qpair_lookup_def in_set_conv_nth split: if_splits)
    then have "count_list (qd_qpairs d) (Some a) \<noteq> 0" by (simp add: count_list_0_iff)
    then have pos: "0 < base a + count_list taken a" using Cons.prems(2) [of a] by simp
    obtain e where e: "qd_heap d a = Some e" using refs_are_present [OF Cons.prems(1) pos] by blast
    obtain H where H: "slash_qdma_qpair_get a d = Some (d\<lparr>qd_heap := H\<rparr>)"
      "refs_are (d\<lparr>qd_heap := H\<rparr>) ((\<lambda>a. base a + count_list taken a)(a := base a + count_list taken a + 1))"
      using refs_are_get [OF Cons.prems(1) pos] by blast
    have "(\<lambda>a. base a + count_list taken a)(a := base a + count_list taken a + 1) =
        (\<lambda>b. base b + count_list (taken @ [a]) b)" by auto
    then have "refs_are (d\<lparr>qd_heap := H\<rparr>) (\<lambda>b. base b + count_list (taken @ [a]) b)" using H(2) by simp
    from Cons.IH [OF this] Cons.prems(2) obtain r H' where
      r: "take_refs qids (taken @ [a]) (d\<lparr>qd_heap := H\<rparr>) = Some (r, d\<lparr>qd_heap := H'\<rparr>)"
      "refs_are (d\<lparr>qd_heap := H'\<rparr>) (\<lambda>a. base a + count_list (case r of Inl e \<Rightarrow> [] | Inr as \<Rightarrow> as) a)"
      by auto
    show ?thesis
    proof (cases "qe_dir_mask e = 0")
      case True
      then show ?thesis using Some e undo by force
    next
      case False
      then have "take_refs (qid # qids) taken d = Some (r, d\<lparr>qd_heap := H'\<rparr>)" using Some e H(1) r(1) by simp
      then show ?thesis using r(2) by blast
    qed
  qed
qed

lemma take_refs_table:
  assumes "take_refs qids taken d = Some (Inr as, d')"
  shows "set as \<subseteq> set taken \<union> {a. Some a \<in> set (qd_qpairs d)}"
  using assms
proof (induction qids arbitrary: taken d)
  case (Cons qid qids)
  obtain a where a: "slash_qdma_qpair_lookup d qid = Some a"
    using Cons.prems by (auto simp: bind_eq_Some_conv split: option.splits)
  then obtain d1 where d1: "slash_qdma_qpair_get a d = Some d1" "take_refs qids (taken @ [a]) d1 = Some (Inr as, d')"
    using Cons.prems by (auto simp: bind_eq_Some_conv split: if_splits)
  have "qd_qpairs d1 = qd_qpairs d" using d1(1) by (auto simp: slash_qdma_qpair_get_def bind_eq_Some_conv)
  moreover have "Some a \<in> set (qd_qpairs d)"
    using a by (auto simp: slash_qdma_qpair_lookup_def in_set_conv_nth split: if_splits)
  ultimately show ?case using Cons.IH [OF d1(2)] by auto
qed simp

lemma table_count: "Some a \<in> set (qd_qpairs d) \<Longrightarrow> 0 < holders d a"
  using count_list_0_iff [of "qd_qpairs d" "Some a"] by (simp add: holders_def)

lemma counted_ref_pos: "counted d \<Longrightarrow> 0 < dev_holders d \<Longrightarrow> qd_ref d \<noteq> 0"
  by (simp add: counted_def)

lemma counted_get_fd_begin:
  assumes C: "counted d" and ctl: "0 < qd_ctl d"
  shows "ok (get_fd_begin ua n req d) (\<lambda>(r, d'). counted d')"
proof (cases "\<not> ua_in ua \<or> n < 12 \<or> fr_flags req AND NOT O_CLOEXEC \<noteq> 0 \<or> requested_ids req = None \<or> \<not> usable d")
  case True
  then show ?thesis using C by (auto simp: get_fd_begin_def split: option.splits)
next
  case False
  then obtain ids where ids: "requested_ids req = Some ids" by auto
  have le: "count_list (qd_qpairs d) (Some a) \<le> holders d a" for a by (simp add: holders_def)
  have "refs_are d (\<lambda>a. holders d a + count_list [] a)" using C by (simp add: counted_def)
  from take_refs_counted [OF this le, of ids] obtain r H where
    r: "take_refs ids [] d = Some (r, d\<lparr>qd_heap := H\<rparr>)"
    "refs_are (d\<lparr>qd_heap := H\<rparr>) (\<lambda>a. holders d a + count_list (case r of Inl e \<Rightarrow> [] | Inr as \<Rightarrow> as) a)" by blast
  have ref: "qd_ref d \<noteq> 0" using C ctl by (simp add: counted_def dev_holders_def)
  show ?thesis
  proof (cases r)
    case (Inl e)
    then have "counted (d\<lparr>qd_heap := H\<rparr>)" using C r(2) by (simp add: counted_def)
    then show ?thesis using False ids r(1) Inl by (simp add: get_fd_begin_def)
  next
    case (Inr as)
    let ?f = "qd_next_file d"
    let ?c = "\<lparr>fc_entries = as, fc_qids = ids, fc_fds = 0\<rparr>"
    let ?d = "d\<lparr>qd_heap := H, qd_ref := qd_ref d + 1, qd_pending := (?f, ?c) # qd_pending d, qd_next_file := ?f + 1\<rparr>"
    have h: "holders ?d = (\<lambda>a. holders d a + count_list as a)" by (simp add: fun_eq_iff holders_def)
    have "refs_are ?d (holders ?d)" using r(2) Inr unfolding h by (simp add: refs_are_def)
    moreover have fresh: "?f \<notin> set (map fst (qd_pending d) @ map fst (qd_files d))"
      using C by (auto simp: counted_def)
    moreover have "\<forall>f \<in> set (map fst (qd_pending d) @ map fst (qd_files d)). f < ?f + 1"
      using C unfolding counted_def by (meson less_SucI Suc_eq_plus1 trans_less_add1)
    moreover have "\<forall>a \<ge> qd_next d. count_list as a = 0"
    proof (intro allI impI)
      fix a assume a: "qd_next d \<le> a"
      have "set as \<subseteq> {a. 0 < holders d a}" using take_refs_table [of ids "[]" d as] r(1) Inr table_count by auto
      then show "count_list as a = 0" using C a by (auto simp: counted_def count_list_0_iff)
    qed
    ultimately show ?thesis using False ids r(1) Inr ref C h
      by (simp add: get_fd_begin_def dev_get_def Let_def counted_def dev_holders_def)
  qed
qed

text \<open>Dropping a context that is out of both lists: \<open>d\<close> is the device without it.\<close>

lemma counted_drop_ctx:
  assumes refs: "refs_are d (\<lambda>a. holders d a + count_list (fc_entries c) a)"
    and ref: "qd_ref d = Suc (dev_holders d)"
    and rest: "\<forall>a \<ge> qd_next d. holders d a = 0" "length (qd_qpairs d) = SLASH_QDMA_MAX_QPAIRS"
      "distinct (map fst (qd_pending d) @ map fst (qd_files d))"
      "\<forall>f \<in> set (map fst (qd_pending d) @ map fst (qd_files d)). f < qd_next_file d"
  shows "ok (drop_ctx c d) counted"
proof -
  obtain H where H: "qpair_put_all (fc_entries c) d = Some (d\<lparr>qd_heap := H\<rparr>)"
    "refs_are (d\<lparr>qd_heap := H\<rparr>) (holders d)"
    using refs_are_put_all [OF refs, of "fc_entries c"] by auto
  then have "counted (d\<lparr>qd_heap := H, qd_ref := dev_holders d\<rparr>)"
    using rest by (simp add: counted_def refs_are_def dev_holders_def)
  then show ?thesis using H(1) ref by (simp add: drop_ctx_def dev_put_def)
qed

lemma counted_finish:
  assumes C: "counted d" and m: "map_of (qd_pending d) f = Some c"
  shows "ok (get_fd_finish ua n fe de f d) (\<lambda>(r, d'). counted d')"
proof -
  let ?d = "d\<lparr>qd_pending := remove_key f (qd_pending d)\<rparr>"
  have D: "distinct (map fst (qd_pending d))" using C by (simp add: counted_def)
  note R = ctx_refs_remove_key [OF m D]
  have h: "holders d = (\<lambda>a. holders ?d a + count_list (fc_entries c) a)"
    using R(1) by (simp add: fun_eq_iff holders_def)
  have len: "dev_holders d = Suc (dev_holders ?d)" using R(2) by (simp add: dev_holders_def)
  have f: "f \<in> set (map fst (qd_pending d))" using m by (metis map_of_SomeD image_eqI fst_conv set_map)
  have drop: "ok (drop_ctx c ?d) counted"
    using C h len R(3,4) by (intro counted_drop_ctx) (auto simp: counted_def refs_are_def)
  let ?d' = "d\<lparr>qd_pending := remove_key f (qd_pending d), qd_files := (f, c\<lparr>fc_fds := 1\<rparr>) # qd_files d\<rparr>"
  have "holders ?d' = holders d" using h by (simp add: fun_eq_iff holders_def)
  moreover have "dev_holders ?d' = dev_holders d" using len by (simp add: dev_holders_def)
  ultimately have "counted ?d'"
    using C R(3,4) f by (auto simp: counted_def refs_are_def)
  then show ?thesis
    using m drop by (auto simp: get_fd_finish_def Let_def split: option.splits sum.splits)
qed

lemma counted_release:
  assumes C: "counted d" and m: "map_of (qd_files d) f = Some c"
  shows "ok (slash_qdma_qpair_release f d) counted"
proof -
  let ?d = "d\<lparr>qd_files := remove_key f (qd_files d)\<rparr>"
  have D: "distinct (map fst (qd_files d))" using C by (simp add: counted_def)
  note R = ctx_refs_remove_key [OF m D]
  have h: "holders d = (\<lambda>a. holders ?d a + count_list (fc_entries c) a)"
    using R(1) by (simp add: fun_eq_iff holders_def)
  have len: "dev_holders d = Suc (dev_holders ?d)" using R(2) by (simp add: dev_holders_def)
  have "ok (drop_ctx c ?d) counted"
    using C h len R(3,4) by (intro counted_drop_ctx) (auto simp: counted_def refs_are_def)
  then show ?thesis using m by (simp add: slash_qdma_qpair_release_def)
qed

lemma counted_relabel:
  assumes "\<And>g c. fc_entries (F g c) = fc_entries c"
  shows "counted (d\<lparr>qd_files := map (\<lambda>(g, c). (g, F g c)) (qd_files d)\<rparr>) = counted d"
proof -
  let ?g = "\<lambda>(g, c). (g, F g c)"
  have k: "map fst (map ?g cs) = map fst cs" for cs by (induction cs) auto
  have "ctx_refs (map ?g cs) = ctx_refs cs" for cs
    using assms by (induction cs) (auto simp: fun_eq_iff)
  then have "holders (d\<lparr>qd_files := map ?g (qd_files d)\<rparr>) = holders d" by (simp add: fun_eq_iff holders_def)
  moreover have "dev_holders (d\<lparr>qd_files := map ?g (qd_files d)\<rparr>) = dev_holders d" by (simp add: dev_holders_def)
  moreover have "set (map fst (map ?g (qd_files d))) = set (map fst (qd_files d))"
    "distinct (map fst (map ?g (qd_files d))) = distinct (map fst (qd_files d))" by (simp_all only: k)
  ultimately show ?thesis by (simp add: counted_def refs_are_def)
qed

lemma counted_pass: "counted (pass_file f d) = counted d"
  using counted_relabel [of "\<lambda>g c. if g = f then c\<lparr>fc_fds := fc_fds c + 1\<rparr> else c" d] by (simp add: pass_file_def)

lemma counted_close: "counted d \<Longrightarrow> ok (close_file f d) counted"
  using counted_relabel [of "\<lambda>g c. if g = f then c\<lparr>fc_fds := fc_fds c - 1\<rparr> else c" d] counted_release [of d f]
  by (cases "map_of (qd_files d) f") (simp_all add: close_file_def)

lemma counted_teardown:
  assumes "counted d" and "\<forall>i\<in>set is. i < SLASH_QDMA_MAX_QPAIRS"
  shows "ok (teardown_qpairs L is d) counted"
  using assms
proof (induction "is" arbitrary: d)
  case (Cons i "is")
  have l: "i < length (qd_qpairs d)" using Cons.prems by (simp add: counted_def)
  show ?case
  proof (cases "qd_qpairs d ! i")
    case None
    then show ?thesis using Cons by simp
  next
    case (Some a)
    have "Some a \<in> set (qd_qpairs d)" using Some l by (metis nth_mem)
    then have "0 < holders d a" by (rule table_count)
    then obtain e where e: "qd_heap d a = Some e"
      using refs_are_present [of d "holders d" a] Cons.prems(1) by (auto simp: counted_def)
    obtain e' h where t: "teardown_entry L e (qd_lib d) = (e', h)" by (cases "teardown_entry L e (qd_lib d)")
    have S: "counted (store_entry a e' h d)" using counted_store [OF Cons.prems(1) e] .
    have q: "qd_qpairs (store_entry a e' h d) = qd_qpairs d" by (simp add: store_entry_def)
    obtain d' where d': "slash_qdma_qpair_put a ((store_entry a e' h d)\<lparr>qd_qpairs := (qd_qpairs d)[i := None]\<rparr>) = Some d'"
      "counted d'"
      using counted_erase [OF S, of i a] l Some q by auto
    then show ?thesis using Some e t Cons.IH [of d'] Cons.prems(2) by simp
  qed
qed simp

lemma counted_destroy: "counted d \<Longrightarrow> ok (destroy_finish L d) counted"
  using counted_teardown [of d "[0..<length (qd_qpairs d)]" L]
  by (auto simp: destroy_finish_def counted_def [of d] elim!: ok_mono)

lemma counted_open: "counted d \<Longrightarrow> qd_bound d \<Longrightarrow> ok (slash_qdma_fop_open d) (\<lambda>(r, d'). counted d')"
  by (auto simp: slash_qdma_fop_open_def dev_get_def counted_def refs_are_def dev_holders_def holders_def)

lemma counted_ctl_release: "counted d \<Longrightarrow> 0 < qd_ctl d \<Longrightarrow> ok (slash_qdma_fop_release d) counted"
  by (auto simp: slash_qdma_fop_release_def dev_put_def counted_def refs_are_def dev_holders_def holders_def)

lemma teardown_keeps_bound: "teardown_qpairs L is d = Some d' \<Longrightarrow> qd_bound d' = qd_bound d"
proof (induction "is" arbitrary: d)
  case (Cons i "is")
  show ?case
  proof (cases "qd_qpairs d ! i")
    case None
    then show ?thesis using Cons by simp
  next
    case (Some a)
    then obtain e' h d1 where
      d1: "slash_qdma_qpair_put a ((store_entry a e' h d)\<lparr>qd_qpairs := (qd_qpairs d)[i := None]\<rparr>) = Some d1"
        "teardown_qpairs L is d1 = Some d'"
      using Cons.prems by (auto simp: bind_eq_Some_conv case_prod_beta)
    have "qd_bound d1 = qd_bound d"
      using d1(1) by (auto simp: slash_qdma_qpair_put_def store_entry_def bind_eq_Some_conv split: if_splits)
    then show ?thesis using Cons.IH [OF d1(2)] by simp
  qed
qed simp

lemma counted_unbind:
  assumes "counted d" and "qd_bound d"
  shows "ok (destroy_finish L d) (\<lambda>d. ok (dev_put d) (\<lambda>d. counted (d\<lparr>qd_bound := False\<rparr>)))"
proof -
  obtain d' where d': "destroy_finish L d = Some d'" "counted d'" using ok_exists [OF counted_destroy [OF assms(1)]] by blast
  have "qd_bound d'" using d'(1) assms(2)
    by (auto simp: destroy_finish_def bind_eq_Some_conv dest!: teardown_keeps_bound split: if_splits)
  then show ?thesis
    using d' by (auto simp: dev_put_def counted_def refs_are_def dev_holders_def holders_def)
qed

lemma xfer_prep_returns: "qd_heap d a \<noteq> None \<Longrightarrow> slash_qdma_xfer_prep B d a x \<noteq> None"
  by (auto simp: slash_qdma_xfer_prep_def Let_def split: option.splits sum.splits)

lemma xfer_prep_all_returns:
  "\<forall>a\<in>set as. qd_heap d a \<noteq> None \<Longrightarrow> xfer_prep_all B d as xs xrs \<noteq> None"
proof (induction xs arbitrary: xrs)
  case (Cons x xs)
  show ?case
  proof (cases "length as \<le> unat (sx_qpair_index x)")
    case False
    then have "qd_heap d (as ! unat (sx_qpair_index x)) \<noteq> None" using Cons.prems by simp
    from xfer_prep_returns [OF this] obtain r where "slash_qdma_xfer_prep B d (as ! unat (sx_qpair_index x)) x = Some r"
      by blast
    then show ?thesis using Cons False by (cases r) auto
  qed simp
qed simp

lemma transfer_returns:
  assumes C: "counted d" and m: "map_of (qd_files d) f = Some c"
  shows "slash_qdma_qpair_transfer B R ua n k xs f d \<noteq> None"
proof -
  have "qd_heap d a \<noteq> None" if a: "a \<in> set (fc_entries c)" for a
  proof -
    have "count_list (fc_entries c) a \<noteq> 0" using a by (simp add: count_list_0_iff)
    then have "0 < holders d a"
      using ctx_refs_remove_key(1) [OF m, of a] C by (simp add: holders_def counted_def)
    then show ?thesis using refs_are_present [of d "holders d" a] C by (auto simp: counted_def)
  qed
  then have "xfer_prep_all B d (fc_entries c) (take (unat k) xs) [] \<noteq> None"
    by (intro xfer_prep_all_returns) blast
  then obtain r where "xfer_prep_all B d (fc_entries c) (take (unat k) xs) [] = Some r" by blast
  then show ?thesis using m by (cases r) (simp_all add: slash_qdma_qpair_transfer_def Let_def)
qed

lemma counted_event:
  assumes "counted d"
  shows "ok (exec_event L B R ev d) counted"
proof -
  have snd: "ok (map_option snd m) counted" if "ok m (\<lambda>(r, d'). counted d')" for m :: "('x \<times> 'a qdma_dev) option"
    using that by (cases m) auto
  show ?thesis
  proof (cases ev)
    case (Ev_add ua n req)
    then show ?thesis
      using assms snd [OF counted_add [OF assms, of L req]] ok_exists [OF counted_add [OF assms, of L req]]
      by (auto simp: slash_qdma_ioctl_qpair_add_w_def)
  next
    case (Ev_op ua n qid opcode)
    then show ?thesis
      using assms ok_exists [OF counted_op [OF assms, of L qid opcode]]
      by (auto simp: slash_qdma_ioctl_qpair_op_w_def)
  next
    case (Ev_install ua n fe de f)
    then show ?thesis using assms snd [OF counted_finish [OF assms]] by auto
  next
    case (Ev_transfer ua n k xs f)
    show ?thesis
    proof (cases "map_of (qd_files d) f")
      case (Some c)
      then obtain r where "slash_qdma_qpair_transfer B R ua n k xs f d = Some r"
        using transfer_returns [OF assms Some] by blast
      then show ?thesis using Ev_transfer assms by simp
    qed (use Ev_transfer assms in simp)
  qed (use assms in \<open>auto simp: counted_pass counted_close destroy_begin_def removing_def
      intro: snd counted_open counted_ctl_release counted_get_fd_begin counted_unbind [simplified]\<close>)
qed

lemma counted_probed: "counted (probed_dev h)"
  by (simp add: counted_def probed_dev_def refs_are_def holders_def dev_holders_def)

lemma counted_events: "counted d \<Longrightarrow> ok (exec_events L B R evs d) counted"
proof (induction evs arbitrary: d)
  case (Cons ev evs)
  then show ?case using ok_exists [OF counted_event [OF Cons.prems, of L B R ev]] by auto
qed simp


section \<open>Transfers stay inside their buffer\<close>

lemma ceil_div:
  fixes l g :: nat
  assumes "0 < l" "0 < g"
  shows "(l + g - 1) div g = (if l mod g = 0 then l div g else Suc (l div g))"
proof (cases "l mod g = 0")
  case True
  then obtain k where k: "l = g * k" by (auto simp: mod_eq_0_iff_dvd elim: dvdE)
  have e: "l + g - 1 = g * k + (g - 1)" using k assms by simp
  have "(g * k + (g - 1)) div g = k" using assms(2) by (intro div_nat_eqI) (auto simp: algebra_simps)
  then show ?thesis unfolding e using True k assms by simp
next
  case False
  have e: "l + g - 1 = g * Suc (l div g) + (l mod g - 1)"
    using mult_div_mod_eq [of g l] False by simp
  have "l mod g - 1 < g" using mod_less_divisor [OF assms(2), of l] by linarith
  then have "(g * Suc (l div g) + (l mod g - 1)) div g = Suc (l div g)"
    by (intro div_nat_eqI) (auto simp: algebra_simps)
  then show ?thesis unfolding e using False by simp
qed

lemma xfer_sgl_nat:
  assumes "0 < len" "0 < granule" "unat n = (unat len + unat granule - 1) div unat granule"
  shows "map fst (xfer_sgl granule s n len) = [unat s..<unat s + unat n]"
    and "sum_list (map (unat \<circ> snd) (xfer_sgl granule s n len)) = unat len"
    and "\<forall>(p, l)\<in>set (xfer_sgl granule s n len). 0 < l \<and> l \<le> granule"
proof -
  let ?g = "unat granule" and ?l = "unat len"
  let ?pages = "map (\<lambda>i. (unat s + i, granule)) [0..<unat n]"
  have pos: "0 < ?g" "0 < ?l" using assms(1,2) by (simp_all add: word_less_nat_alt)
  have md: "unat (len mod granule) = ?l mod ?g" by (simp add: unat_mod)
  have z: "len mod granule = 0 \<longleftrightarrow> ?l mod ?g = 0" by (metis md unat_eq_zero unsigned_0)
  have n: "unat n = (if ?l mod ?g = 0 then ?l div ?g else Suc (?l div ?g))"
    using ceil_div [OF pos(2,1)] assms(3) by simp
  have whole: "map fst (map (\<lambda>i. (unat s + i, granule)) [0..<k]) = [unat s..<unat s + k]"
    "sum_list (map (unat \<circ> snd) (map (\<lambda>i. (unat s + i, granule)) [0..<k])) = k * ?g" for k
    by (induction k) (simp_all add: map_add_upt add.commute)
  show "map fst (xfer_sgl granule s n len) = [unat s..<unat s + unat n]"
    using whole(1) [of "?l div ?g"] n by (simp add: xfer_sgl_def Let_def z)
  show "sum_list (map (unat \<circ> snd) (xfer_sgl granule s n len)) = unat len"
    using whole(2) [of "?l div ?g"] n md by (auto simp: xfer_sgl_def Let_def z)
  have "len mod granule \<noteq> 0 \<Longrightarrow> 0 < len mod granule \<and> len mod granule \<le> granule"
    using pos md by (simp add: word_le_nat_alt word_less_nat_alt z)
  then show "\<forall>(p, l)\<in>set (xfer_sgl granule s n len). 0 < l \<and> l \<le> granule"
    using assms(2) by (auto simp: xfer_sgl_def Let_def dest: in_set_butlastD)
qed

lemma ceil_le:
  fixes l g :: nat
  assumes "0 < l" "0 < g"
  shows "(l + g - 1) div g \<le> l"
proof -
  have "l * 1 \<le> l * g" using assms(2) by (intro mult_le_mono) simp_all
  moreover have "g - 1 \<le> l * g - l + (g - 1)" by simp
  moreover have "l + g - 1 < Suc l * g"
  proof -
    have "l + (g - 1) < l * g + g" using assms calculation(1) by linarith
    then show ?thesis using assms by simp
  qed
  ultimately show ?thesis using less_mult_imp_div_less [of "l + g - 1" "Suc l" g] by simp
qed

text \<open>What acceptance of a transfer gives, in unbounded arithmetic.\<close>

lemma xfer_prep_accepts:
  assumes "slash_qdma_xfer_prep B d a x = Some (Inr xr)" and "B (sx_buf_fd x) = Inr buf"
  defines "g \<equiv> ucast (qb_granule buf) :: u64"
  defines "s \<equiv> sx_buf_offset x div g"
  defines "n \<equiv> (sx_length x + g - 1) div g"
  shows "0 < sx_length x \<and> sx_length x \<le> UINT_MAX" and "0 < g \<and> sx_buf_offset x mod g = 0"
    and "sx_buf_offset x \<le> qb_length buf \<and> sx_length x \<le> qb_length buf - sx_buf_offset x"
    and "s + n \<le> ucast (qb_pages_nr buf)"
    and "xr_sgl xr = xfer_sgl g s n (sx_length x)" "xr_count xr = ucast (sx_length x)"
  using assms(1,2) unfolding assms(3-5)
  by (auto simp: slash_qdma_xfer_prep_def Let_def bind_eq_Some_conv word_neq_0_conv not_less
      split: option.splits if_splits)

lemma xfer_prep_nat:
  fixes off len g bl pages :: u64
  assumes len: "0 < len" "len \<le> UINT_MAX" and g: "0 < g" "unat g < 2 ^ 32" and al: "off mod g = 0"
    and fit: "off \<le> bl" "len \<le> bl - off" and pg: "off div g + (len + g - 1) div g \<le> pages"
  shows "unat ((len + g - 1) div g) = (unat len + unat g - 1) div unat g"
    and "unat (off div g) + unat ((len + g - 1) div g) \<le> unat pages"
    and "unat (off div g) * unat g = unat off"
proof -
  have l: "unat len < 2 ^ 32" using len(2) by (simp add: word_le_nat_alt)
  have g0: "0 < unat g" "0 < unat len" using g(1) len(1) by (simp_all add: word_less_nat_alt)
  have s1: "unat (len + g) = unat len + unat g" using l g(2) by (intro unat_add_lem [THEN iffD1]) simp
  have "1 \<le> len + g" using s1 g0 by (simp add: word_le_nat_alt)
  then have s2: "unat (len + g - 1) = unat len + unat g - 1" using s1 by (simp add: unat_sub)
  then show e: "unat ((len + g - 1) div g) = (unat len + unat g - 1) div unat g" by (simp add: unat_div)
  have "unat off + unat len \<le> unat bl"
    using fit by (simp add: word_le_nat_alt unat_sub)
  moreover have "unat off div unat g \<le> unat off" by simp
  moreover have "(unat len + unat g - 1) div unat g \<le> unat len"
    using g0 by (metis (no_types) ceil_le)
  moreover have "unat bl < 2 ^ LENGTH(64)" by (rule unsigned_less)
  ultimately have "unat off div unat g + (unat len + unat g - 1) div unat g < 2 ^ LENGTH(64)" by linarith
  then have "unat (off div g) + unat ((len + g - 1) div g) < 2 ^ LENGTH(64)" unfolding e by (simp only: unat_div)
  then have "unat (off div g + (len + g - 1) div g) = unat (off div g) + unat ((len + g - 1) div g)"
    by (intro unat_add_lem [THEN iffD1]) simp
  then show "unat (off div g) + unat ((len + g - 1) div g) \<le> unat pages" using pg by (simp add: word_le_nat_alt)
  have "unat off mod unat g = 0" using al by (metis unat_mod unsigned_0)
  then show "unat (off div g) * unat g = unat off" by (simp add: unat_div mod_eq_0_iff_dvd)
qed

text \<open>A small libqdma for examples: handles are computed from queue index and direction.\<close>

definition demo_lib :: "(nat \<times> q_state) list libqdma" where
  "demo_lib =
     \<lparr>qdma_queue_add = (\<lambda>c h.
        let hn = 3 * unat (qc_qidx c) + (case qc_q_type c of Q_H2C \<Rightarrow> 0 | Q_C2H \<Rightarrow> 1 | Q_CMPT \<Rightarrow> 2) in
        if map_of h hn \<noteq> None then (Inl EBUSY, h) else (Inr hn, (hn, Q_STATE_ENABLED) # h)),
      qdma_queue_config = (\<lambda>hn c h. (None, h)),
      qdma_queue_start = (\<lambda>hn h.
        if map_of h hn = None then (Some EINVAL, h) else (None, (hn, Q_STATE_ONLINE) # remove_key hn h)),
      qdma_queue_stop = (\<lambda>hn h.
        if map_of h hn = None then (Some EINVAL, h) else (None, (hn, Q_STATE_ENABLED) # remove_key hn h)),
      qdma_queue_remove = (\<lambda>hn h.
        if map_of h hn = None then (Some EINVAL, h) else (None, remove_key hn h)),
      qdma_get_queue_state = (\<lambda>hn h. case map_of h hn of None \<Rightarrow> (Inl EINVAL, h) | Some s \<Rightarrow> (Inr s, h)),
      qdma_device_close = (\<lambda>h. (None, []))\<rparr>"

definition demo_buf :: "int \<Rightarrow> errno + qdma_buf" where
  "demo_buf fd = (if fd = 5 then Inr \<lparr>qb_own_dev = True, qb_length = 8192, qb_granule = 4096, qb_pages_nr = 2\<rparr> else Inl EBADF)"

definition demo_subxfer :: qdma_subxfer where
  "demo_subxfer = \<lparr>sx_qpair_index = 0, sx_direction = 1, sx_buf_fd = 5, sx_buf_offset = 0, sx_dev_addr = 0x4000000000,
     sx_length = 5000\<rparr>"

text \<open>A device with one running queue pair, one open control file and one open transfer file.\<close>

definition demo_dev :: "(nat \<times> q_state) list qdma_dev" where
  "demo_dev =
     (probed_dev [(0, Q_STATE_ONLINE)])
       \<lparr>qd_heap := [0 \<mapsto> \<lparr>qe_ref = 2, qe_qhndl = [Q_H2C \<mapsto> 0], qe_dir_mask = 1, qe_mode = 0\<rparr>],
        qd_next := 1, qd_qpairs := Some 0 # replicate 255 None,
        qd_files := [(0, \<lparr>fc_entries = [0], fc_qids = [0], fc_fds = 1\<rparr>)], qd_next_file := 1,
        qd_ref := 3, qd_ctl := 1\<rparr>"

lemma counted_demo: "counted demo_dev"
  by (auto simp: counted_def demo_dev_def probed_dev_def refs_are_def holders_def dev_holders_def count_list_0_iff)

lemma demo_prep:
  "slash_qdma_xfer_prep demo_buf demo_dev 0 demo_subxfer =
     Some (Inr \<lparr>xr_qhndl = 0, xr_write = True, xr_ep_addr = 0x4000000000, xr_count = 5000,
       xr_sgl = [(0, 4096), (1, 904)]\<rparr>)"
  by (simp add: slash_qdma_xfer_prep_def demo_buf_def demo_dev_def probed_dev_def demo_subxfer_def xfer_direction_def
      usable_def has_dir_def xfer_sgl_def upt_rec)

text \<open>
  C39: An accepted transfer touches only pages of its buffer: its scatter list covers consecutive pages
  from the one at the requested offset, all of them of the buffer, with non-empty pieces of at most
  one page that add up to exactly the requested length, and the length fits libqdma's 32-bit count.
\<close>

theorem transfer_in_buffer:
  assumes "slash_qdma_xfer_prep B d a x = Some (Inr xr)" and "B (sx_buf_fd x) = Inr buf"
  shows "\<exists>first. first * unat (qb_granule buf) = unat (sx_buf_offset x) \<and>
      map fst (xr_sgl xr) = [first..<first + length (xr_sgl xr)] \<and>
      first + length (xr_sgl xr) \<le> unat (qb_pages_nr buf) \<and>
      (\<forall>(p, l)\<in>set (xr_sgl xr). 0 < l \<and> unat l \<le> unat (qb_granule buf)) \<and>
      sum_list (map (unat \<circ> snd) (xr_sgl xr)) = unat (sx_length x) \<and> unat (xr_count xr) = unat (sx_length x)"
proof -
  let ?g = "ucast (qb_granule buf) :: u64" and ?len = "sx_length x"
  let ?s = "sx_buf_offset x div ?g" and ?n = "(?len + ?g - 1) div ?g"
  note A = xfer_prep_accepts [OF assms]
  have g: "unat ?g = unat (qb_granule buf)" "unat ?g < 2 ^ 32"
    using unsigned_less [of "qb_granule buf", where ?'a = nat] by (simp_all add: unsigned_ucast_eq take_bit_nat_eq_self)
  have pg: "unat (ucast (qb_pages_nr buf) :: u64) = unat (qb_pages_nr buf)"
    using unsigned_less [of "qb_pages_nr buf", where ?'a = nat] by (simp add: unsigned_ucast_eq take_bit_nat_eq_self)
  have cnt: "unat (ucast ?len :: u32) = unat ?len"
    using A(1) by (simp add: unsigned_ucast_eq take_bit_nat_eq_self word_le_nat_alt)
  note N = xfer_prep_nat [of ?len ?g "sx_buf_offset x" "qb_length buf" "ucast (qb_pages_nr buf)",
    OF conjunct1 [OF A(1)] conjunct2 [OF A(1)] conjunct1 [OF A(2)] g(2) conjunct2 [OF A(2)]
      conjunct1 [OF A(3)] conjunct2 [OF A(3)] A(4)]
  note S = xfer_sgl_nat [OF conjunct1 [OF A(1)] conjunct1 [OF A(2)] N(1), of ?s]
  have "length (xfer_sgl ?g ?s ?n ?len) = unat ?n" using arg_cong [OF S(1), of length] by simp
  then show ?thesis
    using N(2,3) S g pg cnt unfolding A(5,6)
    by (intro exI [of _ "unat ?s"]) (auto simp: word_le_nat_alt)
qed

theorem transfer_in_buffer_witness:
  "\<exists>xr. slash_qdma_xfer_prep demo_buf demo_dev 0 demo_subxfer = Some (Inr xr) \<and>
    sum_list (map (unat \<circ> snd) (xr_sgl xr)) = 5000 \<and> length (xr_sgl xr) = 2"
proof -
  let ?xr = "\<lparr>xr_qhndl = 0, xr_write = True, xr_ep_addr = 0x4000000000, xr_count = 5000, xr_sgl = [(0, 4096), (1, 904)]\<rparr>"
  have xr: "slash_qdma_xfer_prep demo_buf demo_dev 0 demo_subxfer = Some (Inr ?xr)" by (rule demo_prep)
  have "demo_buf (sx_buf_fd demo_subxfer) = Inr \<lparr>qb_own_dev = True, qb_length = 8192, qb_granule = 4096, qb_pages_nr = 2\<rparr>"
    by (simp add: demo_buf_def demo_subxfer_def)
  from transfer_in_buffer [OF xr this] have "sum_list (map (unat \<circ> snd) (xr_sgl ?xr)) = unat (sx_length demo_subxfer)"
    by blast
  then show ?thesis using xr by (intro exI [of _ ?xr]) (simp add: demo_subxfer_def)
qed

lemma xfer_prep_cong:
  assumes "usable d' = usable d" and "qd_heap d a = Some e" "qd_heap d' a = Some e'"
    and "qe_qhndl e' = qe_qhndl e" "qe_dir_mask e' = qe_dir_mask e"
  shows "slash_qdma_xfer_prep B d' a x = slash_qdma_xfer_prep B d a x"
  unfolding slash_qdma_xfer_prep_def assms(1-3) Option.bind_lunit assms(4,5) by (rule refl)

lemma demo_delete:
  "\<exists>d'. slash_qdma_ioctl_qpair_op demo_lib 0 SLASH_QDMA_QUEUE_OP_DEL demo_dev = Some (None, d') \<and> qd_lib d' = []"
  by (simp add: slash_qdma_ioctl_qpair_op_def slash_qdma_ioctl_qpair_op_apply_def demo_dev_def probed_dev_def
      slash_qdma_qpair_lookup_def queue_types_def has_dir_def slash_qdma_queue_remove_safe_def demo_lib_def
      remove_key_def slash_qdma_qpair_remove_def slash_qdma_qpair_put_def)



end
