(* ===== verification/Slash_Qdma_Calls.thy ===== *)
theory Slash_Qdma_Calls
  imports Slash_Qdma
begin

unbundle bit_operations_syntax

text \<open>
  The QDMA interface of libslash as its clients see it. \<open>qdma_ops\<close> holds the calls; two providers
  implement them: the kernel driver of \<^verbatim>\<open>Slash_Qdma\<close> behind the ioctls of
  \<^verbatim>\<open>driver/libslash/src/qdma.c\<close>, and the mock of \<^verbatim>\<open>driver/libslash/src/qdma_mock.c\<close>.

  The locale \<open>qpair_calls\<close> states that the calls return and keep an invariant of the provider;
  \<open>qpair_provider\<close> adds what they do to the set of queue pairs and of descriptors. Both providers
  are shown to satisfy both contracts. Outcomes the kernel decides (creation of a file, of a
  descriptor, of a memory file) are the argument \<open>E\<close>.
\<close>

section \<open>The interface\<close>

record 'q qdma_ops =
  qpair_add :: "qpair_add_req \<Rightarrow> 'q \<Rightarrow> ((errno + u32) \<times> 'q) option"
  qpair_start :: "u32 \<Rightarrow> 'q \<Rightarrow> (errno option \<times> 'q) option"
  qpair_stop :: "u32 \<Rightarrow> 'q \<Rightarrow> (errno option \<times> 'q) option"
  qpair_del :: "u32 \<Rightarrow> 'q \<Rightarrow> (errno option \<times> 'q) option"
  qpair_get_fd :: "u32 \<Rightarrow> u32 \<Rightarrow> 'q \<Rightarrow> ((errno + nat) \<times> 'q) option"
  qpair_get_fd_multi :: "u32 list \<Rightarrow> 'q \<Rightarrow> ((errno + nat) \<times> 'q) option"
  close_fd :: "nat \<Rightarrow> 'q \<Rightarrow> (errno option \<times> 'q) option"

locale qpair_calls =
  fixes ops :: "'q qdma_ops" and inv :: "'q \<Rightarrow> bool"
  assumes add_inv: "inv q \<Longrightarrow> ok (qpair_add ops req q) (\<lambda>(r, q'). inv q')"
    and start_inv: "inv q \<Longrightarrow> ok (qpair_start ops qid q) (\<lambda>(r, q'). inv q')"
    and stop_inv: "inv q \<Longrightarrow> ok (qpair_stop ops qid q) (\<lambda>(r, q'). inv q')"
    and del_inv: "inv q \<Longrightarrow> ok (qpair_del ops qid q) (\<lambda>(r, q'). inv q')"
    and get_one_fd_inv: "inv q \<Longrightarrow> ok (qpair_get_fd ops qid flags q) (\<lambda>(r, q'). inv q')"
    and get_fd_inv: "inv q \<Longrightarrow> ok (qpair_get_fd_multi ops qids q) (\<lambda>(r, q'). inv q')"
    and close_inv: "inv q \<Longrightarrow> ok (close_fd ops fd q) (\<lambda>(r, q'). inv q')"

locale qpair_provider = qpair_calls ops inv for ops :: "'q qdma_ops" and inv +
  fixes live :: "'q \<Rightarrow> u32 set" and fds :: "'q \<Rightarrow> nat set"
  assumes add_law: "inv q \<Longrightarrow> qpair_add ops req q = Some (r, q') \<Longrightarrow>
      fds q' = fds q \<and> (case r of Inl e \<Rightarrow> live q' = live q
                        | Inr qid \<Rightarrow> qid \<notin> live q \<and> live q' = insert qid (live q))"
    and start_law: "inv q \<Longrightarrow> qpair_start ops qid q = Some (r', q') \<Longrightarrow> fds q' = fds q \<and> live q' = live q"
    and stop_law: "inv q \<Longrightarrow> qpair_stop ops qid q = Some (r', q') \<Longrightarrow> fds q' = fds q \<and> live q' = live q"
    and del_law: "inv q \<Longrightarrow> qid \<in> live q \<Longrightarrow> qpair_del ops qid q = Some (r', q') \<Longrightarrow>
      fds q' = fds q \<and> live q' = live q - {qid}"
    and get_fd_law: "inv q \<Longrightarrow> qpair_get_fd_multi ops qids q = Some (s, q') \<Longrightarrow>
      live q' = live q \<and> (case s of Inl e \<Rightarrow> fds q' = fds q
                          | Inr fd \<Rightarrow> fd \<notin> fds q \<and> fds q' = insert fd (fds q))"

section \<open>The driver behind libslash\<close>

definition ua_ok :: uaccess where
  "ua_ok = \<lparr>ua_in = True, ua_out = True, ua_clear = True\<rparr>"

text \<open>The dispatcher \<^verbatim>\<open>slash_qdma_fop_ioctl\<close> rejects every ioctl of a device that is shutting down.\<close>

definition slash_qdma_qpair_add ::
  "'h libqdma \<Rightarrow> qpair_add_req \<Rightarrow> 'h qdma_dev \<Rightarrow> ((errno + u32) \<times> 'h qdma_dev) option" where
  "slash_qdma_qpair_add L req d =
     (if \<not> usable d then Some (Inl ENODEV, d)
      else slash_qdma_ioctl_qpair_add_w L ua_ok sizeof_qpair_add req d)"

definition slash_qdma_qpair_op ::
  "'h libqdma \<Rightarrow> u32 \<Rightarrow> u32 \<Rightarrow> 'h qdma_dev \<Rightarrow> (errno option \<times> 'h qdma_dev) option" where
  "slash_qdma_qpair_op L qid opcode d =
     (if \<not> usable d then Some (Some ENODEV, d)
      else slash_qdma_ioctl_qpair_op_w L ua_ok sizeof_qpair_op qid opcode d)"

definition slash_qdma_qpair_start :: "'h libqdma \<Rightarrow> u32 \<Rightarrow> 'h qdma_dev \<Rightarrow> (errno option \<times> 'h qdma_dev) option" where
  "slash_qdma_qpair_start L qid d = slash_qdma_qpair_op L qid SLASH_QDMA_QUEUE_OP_START d"

definition slash_qdma_qpair_stop :: "'h libqdma \<Rightarrow> u32 \<Rightarrow> 'h qdma_dev \<Rightarrow> (errno option \<times> 'h qdma_dev) option" where
  "slash_qdma_qpair_stop L qid d = slash_qdma_qpair_op L qid SLASH_QDMA_QUEUE_OP_STOP d"

definition slash_qdma_qpair_del :: "'h libqdma \<Rightarrow> u32 \<Rightarrow> 'h qdma_dev \<Rightarrow> (errno option \<times> 'h qdma_dev) option" where
  "slash_qdma_qpair_del L qid d = slash_qdma_qpair_op L qid SLASH_QDMA_QUEUE_OP_DEL d"

definition slash_qdma_qpair_get_fd ::
  "('h qdma_dev \<Rightarrow> errno option \<times> errno option) \<Rightarrow> u32 \<Rightarrow> u32 \<Rightarrow> 'h qdma_dev \<Rightarrow>
   ((errno + nat) \<times> 'h qdma_dev) option" where
  "slash_qdma_qpair_get_fd E qid flags d =
     (if \<not> usable d then Some (Inl ENODEV, d)
      else slash_qdma_ioctl_qpair_get_fd_w ua_ok sizeof_qpair_fd_request (fst (E d)) (snd (E d))
             \<lparr>fr_qid = qid, fr_flags = flags, fr_qpair_count = 0, fr_qpair_ids = [0, 0]\<rparr> d)"

definition slash_qdma_qpair_get_fd_multi ::
  "('h qdma_dev \<Rightarrow> errno option \<times> errno option) \<Rightarrow> u32 list \<Rightarrow> 'h qdma_dev \<Rightarrow>
   ((errno + nat) \<times> 'h qdma_dev) option" where
  "slash_qdma_qpair_get_fd_multi E qids d =
     (if qids = [] \<or> length qids > SLASH_QDMA_FD_MAX_QPAIRS then Some (Inl EINVAL, d)
      else if \<not> usable d then Some (Inl ENODEV, d)
      else slash_qdma_ioctl_qpair_get_fd_w ua_ok sizeof_qpair_fd_request (fst (E d)) (snd (E d))
             \<lparr>fr_qid = hd qids, fr_flags = O_CLOEXEC, fr_qpair_count = of_nat (length qids), fr_qpair_ids = qids\<rparr> d)"

definition driver_ops :: "'h libqdma \<Rightarrow> ('h qdma_dev \<Rightarrow> errno option \<times> errno option) \<Rightarrow> 'h qdma_dev qdma_ops" where
  "driver_ops L E =
     \<lparr>qpair_add = slash_qdma_qpair_add L, qpair_start = slash_qdma_qpair_start L,
      qpair_stop = slash_qdma_qpair_stop L, qpair_del = slash_qdma_qpair_del L,
      qpair_get_fd = slash_qdma_qpair_get_fd E, qpair_get_fd_multi = slash_qdma_qpair_get_fd_multi E,
      close_fd = (\<lambda>fd d. map_option (Pair None) (close_file fd d))\<rparr>"

section \<open>The mock\<close>

abbreviation (input) QDMA_MOCK_MAX_QUEUES :: nat where "QDMA_MOCK_MAX_QUEUES \<equiv> 64"
abbreviation (input) ENOSPC :: errno where "ENOSPC \<equiv> 28"

text \<open>\<open>mk_fds\<close> lists the open descriptors the mock created; \<open>mk_next\<close> is a descriptor not used yet.\<close>

record mock_qpair =
  mq_in_use :: bool
  mq_started :: bool
  mq_fd :: "nat option"

record qdma_mock =
  mk_queues :: "mock_qpair list"
  mk_fds :: "nat set"
  mk_next :: nat

definition free_slot :: mock_qpair where
  "free_slot = \<lparr>mq_in_use = False, mq_started = False, mq_fd = None\<rparr>"

definition slash_qdma_mock_open :: qdma_mock where
  "slash_qdma_mock_open = \<lparr>mk_queues = replicate QDMA_MOCK_MAX_QUEUES free_slot, mk_fds = {}, mk_next = 0\<rparr>"

definition slash_qdma_mock_qpair_add ::
  "(qdma_mock \<Rightarrow> errno option) \<Rightarrow> qpair_add_req \<Rightarrow> qdma_mock \<Rightarrow> ((errno + u32) \<times> qdma_mock) option" where
  "slash_qdma_mock_qpair_add E req k =
     (case find (\<lambda>i. \<not> mq_in_use (mk_queues k ! i)) [0..<length (mk_queues k)] of
        None \<Rightarrow> Some (Inl ENOSPC, k)
      | Some i \<Rightarrow>
          (case E k of
             Some e \<Rightarrow> Some (Inl e, k)
           | None \<Rightarrow>
               (let fd = mk_next k in
                Some (Inr (of_nat i),
                  k\<lparr>mk_queues := (mk_queues k)[i := \<lparr>mq_in_use = True, mq_started = False, mq_fd = Some fd\<rparr>],
                    mk_fds := insert fd (mk_fds k), mk_next := fd + 1\<rparr>))))"

definition mock_in_use :: "qdma_mock \<Rightarrow> u32 \<Rightarrow> bool" where
  "mock_in_use k qid \<longleftrightarrow> unat qid < QDMA_MOCK_MAX_QUEUES \<and> mq_in_use (mk_queues k ! unat qid)"

definition mock_qpair_op :: "bool \<Rightarrow> u32 \<Rightarrow> qdma_mock \<Rightarrow> (errno option \<times> qdma_mock) option" where
  "mock_qpair_op start qid k =
     (if \<not> mock_in_use k qid then Some (Some EINVAL, k)
      else Some (None, k\<lparr>mk_queues := (mk_queues k)[unat qid := (mk_queues k ! unat qid)\<lparr>mq_started := start\<rparr>]\<rparr>))"

definition slash_qdma_mock_qpair_del :: "u32 \<Rightarrow> qdma_mock \<Rightarrow> (errno option \<times> qdma_mock) option" where
  "slash_qdma_mock_qpair_del qid k =
     (if \<not> mock_in_use k qid then Some (Some EINVAL, k)
      else Some (None,
        k\<lparr>mk_fds := (case mq_fd (mk_queues k ! unat qid) of Some fd \<Rightarrow> mk_fds k - {fd} | None \<Rightarrow> mk_fds k),
          mk_queues := (mk_queues k)[unat qid := free_slot]\<rparr>))"

definition slash_qdma_mock_qpair_get_fd ::
  "(qdma_mock \<Rightarrow> errno option) \<Rightarrow> u32 \<Rightarrow> u32 \<Rightarrow> qdma_mock \<Rightarrow> ((errno + nat) \<times> qdma_mock) option" where
  "slash_qdma_mock_qpair_get_fd E qid flags k =
     (if \<not> mock_in_use k qid \<or> \<not> mq_started (mk_queues k ! unat qid) then Some (Inl EINVAL, k)
      else case E k of
        Some e \<Rightarrow> Some (Inl e, k)
      | None \<Rightarrow> Some (Inr (mk_next k), k\<lparr>mk_fds := insert (mk_next k) (mk_fds k), mk_next := mk_next k + 1\<rparr>))"

definition slash_qdma_mock_qpair_get_fd_multi ::
  "(qdma_mock \<Rightarrow> errno option) \<Rightarrow> u32 list \<Rightarrow> qdma_mock \<Rightarrow> ((errno + nat) \<times> qdma_mock) option" where
  "slash_qdma_mock_qpair_get_fd_multi E qids k =
     (if qids = [] \<or> length qids > SLASH_QDMA_FD_MAX_QPAIRS then Some (Inl EINVAL, k)
      else if \<exists>qid\<in>set qids. \<not> mock_in_use k qid \<or> \<not> mq_started (mk_queues k ! unat qid)
      then Some (Inl EINVAL, k)
      else case E k of
        Some e \<Rightarrow> Some (Inl e, k)
      | None \<Rightarrow> Some (Inr (mk_next k), k\<lparr>mk_fds := insert (mk_next k) (mk_fds k), mk_next := mk_next k + 1\<rparr>))"

definition mock_close_fd :: "nat \<Rightarrow> qdma_mock \<Rightarrow> (errno option \<times> qdma_mock) option" where
  "mock_close_fd fd k =
     (if fd \<in> mk_fds k then Some (None, k\<lparr>mk_fds := mk_fds k - {fd}\<rparr>) else Some (Some EBADF, k))"

definition mock_ops :: "(qdma_mock \<Rightarrow> errno option) \<Rightarrow> qdma_mock qdma_ops" where
  "mock_ops E =
     \<lparr>qpair_add = slash_qdma_mock_qpair_add E, qpair_start = mock_qpair_op True, qpair_stop = mock_qpair_op False,
      qpair_del = slash_qdma_mock_qpair_del, qpair_get_fd = slash_qdma_mock_qpair_get_fd E,
      qpair_get_fd_multi = slash_qdma_mock_qpair_get_fd_multi E,
      close_fd = mock_close_fd\<rparr>"

subsection \<open>The mock keeps the contract\<close>

definition mock_inv :: "qdma_mock \<Rightarrow> bool" where
  "mock_inv k \<longleftrightarrow>
     length (mk_queues k) = QDMA_MOCK_MAX_QUEUES \<and>
     (\<forall>i<QDMA_MOCK_MAX_QUEUES. mq_fd (mk_queues k ! i) \<noteq> None \<longrightarrow> mq_in_use (mk_queues k ! i)) \<and> (\<forall>fd\<in>mk_fds k. fd < mk_next k) \<and>
     (\<forall>i<QDMA_MOCK_MAX_QUEUES. \<forall>fd. mq_fd (mk_queues k ! i) = Some fd \<longrightarrow> fd < mk_next k) \<and>
     (\<forall>i<QDMA_MOCK_MAX_QUEUES. \<forall>j<QDMA_MOCK_MAX_QUEUES. \<forall>fd.
        mq_fd (mk_queues k ! i) = Some fd \<and> mq_fd (mk_queues k ! j) = Some fd \<longrightarrow> i = j)"

text \<open>The queue pairs in use, and the open descriptors that do not back a queue pair.\<close>

definition mock_live :: "qdma_mock \<Rightarrow> u32 set" where
  "mock_live k = {qid. mock_in_use k qid}"

definition mock_fds :: "qdma_mock \<Rightarrow> nat set" where
  "mock_fds k = {fd \<in> mk_fds k. \<forall>i<QDMA_MOCK_MAX_QUEUES. mq_fd (mk_queues k ! i) \<noteq> Some fd}"

lemma mock_find_Some:
  "find (\<lambda>i. \<not> mq_in_use (qs ! i)) [0..<length qs] = Some i \<Longrightarrow> i < length qs \<and> \<not> mq_in_use (qs ! i)"
  by (auto simp: find_Some_iff)

lemma mock_add_cases:
  assumes "mock_inv k" and "slash_qdma_mock_qpair_add E req k = Some (r, k')"
  obtains (none) e where "r = Inl e" "k' = k"
  | (added) i where "i < QDMA_MOCK_MAX_QUEUES" "\<not> mq_in_use (mk_queues k ! i)" "r = Inr (of_nat i)"
      "k' = k\<lparr>mk_queues := (mk_queues k)[i := \<lparr>mq_in_use = True, mq_started = False, mq_fd = Some (mk_next k)\<rparr>],
        mk_fds := insert (mk_next k) (mk_fds k), mk_next := mk_next k + 1\<rparr>"
proof (cases "find (\<lambda>i. \<not> mq_in_use (mk_queues k ! i)) [0..<length (mk_queues k)]")
  case None
  then show ?thesis using assms(2) by (intro none) (auto simp: slash_qdma_mock_qpair_add_def)
next
  case (Some i)
  have i: "i < 64" "\<not> mq_in_use (mk_queues k ! i)"
    using mock_find_Some [OF Some] assms(1) by (auto simp: mock_inv_def)
  show ?thesis
  proof (cases "E k")
    case None
    then show ?thesis
      using assms(2) Some i by (intro added [of i]) (auto simp: slash_qdma_mock_qpair_add_def Let_def)
  next
    case (Some e)
    then show ?thesis
      using assms(2) \<open>find _ _ = Some i\<close> by (intro none [of e]) (auto simp: slash_qdma_mock_qpair_add_def)
  qed
qed

lemma unat_slot: "i < 64 \<Longrightarrow> unat (of_nat i :: u32) = i"
  by (simp add: unsigned_of_nat take_bit_nat_eq_self)

lemma mock_invI:
  assumes "length (mk_queues k) = QDMA_MOCK_MAX_QUEUES"
    and "\<And>i fd. i < QDMA_MOCK_MAX_QUEUES \<Longrightarrow> mq_fd (mk_queues k ! i) = Some fd \<Longrightarrow> mq_in_use (mk_queues k ! i) \<and> fd < mk_next k"
    and "\<And>fd. fd \<in> mk_fds k \<Longrightarrow> fd < mk_next k"
    and "\<And>i j fd. i < QDMA_MOCK_MAX_QUEUES \<Longrightarrow> j < QDMA_MOCK_MAX_QUEUES \<Longrightarrow> mq_fd (mk_queues k ! i) = Some fd \<Longrightarrow>
      mq_fd (mk_queues k ! j) = Some fd \<Longrightarrow> i = j"
  shows "mock_inv k"
  unfolding mock_inv_def using assms by blast

lemma mock_invD:
  assumes "mock_inv k"
  shows "length (mk_queues k) = QDMA_MOCK_MAX_QUEUES"
    and "i < QDMA_MOCK_MAX_QUEUES \<Longrightarrow> mq_fd (mk_queues k ! i) = Some fd \<Longrightarrow> mq_in_use (mk_queues k ! i) \<and> fd < mk_next k"
    and "fd \<in> mk_fds k \<Longrightarrow> fd < mk_next k"
    and "i < QDMA_MOCK_MAX_QUEUES \<Longrightarrow> j < QDMA_MOCK_MAX_QUEUES \<Longrightarrow> mq_fd (mk_queues k ! i) = Some fd \<Longrightarrow>
      mq_fd (mk_queues k ! j) = Some fd \<Longrightarrow> i = j"
  using assms unfolding mock_inv_def by blast+

lemma mock_add_inv:
  assumes "mock_inv k" and "slash_qdma_mock_qpair_add E req k = Some (r, k')"
  shows "mock_inv k'"
  using assms
proof (cases rule: mock_add_cases)
  case (added i)
  note D = mock_invD [OF assms(1)]
  have q: "mk_queues k' ! j = (if j = i then \<lparr>mq_in_use = True, mq_started = False, mq_fd = Some (mk_next k)\<rparr>
      else mk_queues k ! j)" if "j < 64" for j
    using added D(1) that by (simp add: nth_list_update)
  have n: "mk_next k' = Suc (mk_next k)" "mk_fds k' = insert (mk_next k) (mk_fds k)" using added by simp_all
  show ?thesis
  proof (rule mock_invI)
    show "length (mk_queues k') = 64" using added D(1) by simp
    show "mq_in_use (mk_queues k' ! j) \<and> fd < mk_next k'" if "j < 64" "mq_fd (mk_queues k' ! j) = Some fd" for j fd
      using that q D(2) [of j fd] n by (auto split: if_splits)
    show "fd < mk_next k'" if "fd \<in> mk_fds k'" for fd using that n D(3) by (auto simp: less_Suc_eq)
    show "j = l" if "j < 64" "l < 64" "mq_fd (mk_queues k' ! j) = Some fd" "mq_fd (mk_queues k' ! l) = Some fd" for j l fd
      using that q [of j] q [of l] D(2) [of j fd] D(2) [of l fd] D(4) [of j l fd] by (auto split: if_splits)
  qed
qed (use assms in simp)

lemma mock_add_law:
  assumes "mock_inv k" and "slash_qdma_mock_qpair_add E req k = Some (r, k')"
  shows "mock_fds k' = mock_fds k \<and> (case r of Inl e \<Rightarrow> mock_live k' = mock_live k
    | Inr qid \<Rightarrow> qid \<notin> mock_live k \<and> mock_live k' = insert qid (mock_live k))"
  using assms
proof (cases rule: mock_add_cases)
  case (added i)
  have len: "length (mk_queues k) = 64" using assms(1) by (simp add: mock_inv_def)
  note D = mock_invD [OF assms(1)]
  have slot: "unat qid = i \<longleftrightarrow> qid = of_nat i" for qid :: u32
    using unat_slot [OF added(1)] by (simp add: word_unat_eq_iff)
  have q: "mq_fd (mk_queues k' ! j) = (if j = i then Some (mk_next k) else mq_fd (mk_queues k ! j))" if "j < 64" for j
    using added len that by (simp add: nth_list_update)
  have i: "mq_fd (mk_queues k ! i) = None" using D(2) [OF added(1)] added(2) by (cases "mq_fd (mk_queues k ! i)") auto
  have "mk_fds k' = insert (mk_next k) (mk_fds k)" "mk_next k \<notin> mk_fds k" using added D(3) by auto
  then have "fd \<in> mock_fds k' \<longleftrightarrow> fd \<in> mock_fds k" for fd
    unfolding mock_fds_def mem_Collect_eq using q i added(1) by (cases "fd = mk_next k") (simp, metis, simp, metis option.distinct(1) option.inject)
  then have "mock_fds k' = mock_fds k" by blast
  moreover
  have "mock_live k' = insert (of_nat i) (mock_live k)"
  proof (intro set_eqI)
    fix qid :: u32
    show "qid \<in> mock_live k' \<longleftrightarrow> qid \<in> insert (of_nat i) (mock_live k)"
    proof (cases "unat qid = i")
      case True
      then show ?thesis using added len slot [of qid] by (simp add: mock_live_def mock_in_use_def)
    next
      case False
      then show ?thesis using added len slot [of qid] by (simp add: mock_live_def mock_in_use_def)
    qed
  qed
  moreover have "of_nat i \<notin> mock_live k" using added by (simp add: mock_live_def mock_in_use_def unat_slot)
  ultimately show ?thesis using added by simp
qed simp

lemma mock_update_started:
  assumes "mock_inv k"
  shows "mock_inv (k\<lparr>mk_queues := (mk_queues k)[n := (mk_queues k ! n)\<lparr>mq_started := s\<rparr>]\<rparr>)" (is "mock_inv ?k")
    and "mock_live (k\<lparr>mk_queues := (mk_queues k)[n := (mk_queues k ! n)\<lparr>mq_started := s\<rparr>]\<rparr>) = mock_live k"
    and "mock_fds (k\<lparr>mk_queues := (mk_queues k)[n := (mk_queues k ! n)\<lparr>mq_started := s\<rparr>]\<rparr>) = mock_fds k"
proof -
  note D = mock_invD [OF assms]
  have u: "mk_queues ?k ! j = (if j = n \<and> n < length (mk_queues k) then (mk_queues k ! n)\<lparr>mq_started := s\<rparr>
      else mk_queues k ! j)" for j
    by (cases "n < length (mk_queues k)") (auto simp: nth_list_update_neq not_less list_update_beyond)
  have q: "mq_fd (mk_queues ?k ! j) = mq_fd (mk_queues k ! j)" "mq_in_use (mk_queues ?k ! j) = mq_in_use (mk_queues k ! j)" for j
    unfolding u by simp_all
  show "mock_inv ?k"
  proof (rule mock_invI)
    show "length (mk_queues ?k) = 64" using D(1) by simp
    show "mq_in_use (mk_queues ?k ! j) \<and> fd < mk_next ?k" if "j < 64" "mq_fd (mk_queues ?k ! j) = Some fd" for j fd
      using that D(2) [of j fd] unfolding q by simp
    show "fd < mk_next ?k" if "fd \<in> mk_fds ?k" for fd using that D(3) by simp
    show "j = l" if "j < 64" "l < 64" "mq_fd (mk_queues ?k ! j) = Some fd" "mq_fd (mk_queues ?k ! l) = Some fd" for j l fd
      using that D(4) [of j l fd] unfolding q by simp
  qed
  show "mock_live ?k = mock_live k" "mock_fds ?k = mock_fds k"
    unfolding mock_live_def mock_in_use_def mock_fds_def q by simp_all
qed

lemma mock_op_law:
  assumes "mock_inv k" and "mock_qpair_op s qid k = Some (r, k')"
  shows "mock_inv k' \<and> mock_live k' = mock_live k \<and> mock_fds k' = mock_fds k"
  using assms mock_update_started [OF assms(1)] by (auto simp: mock_qpair_op_def split: if_splits)

lemma mock_del_law:
  assumes "mock_inv k" and "slash_qdma_mock_qpair_del qid k = Some (r, k')"
  shows "mock_inv k'" and "qid \<in> mock_live k \<Longrightarrow> mock_fds k' = mock_fds k \<and> mock_live k' = mock_live k - {qid}"
proof -
  note D = mock_invD [OF assms(1)]
  have "mock_inv k' \<and> (mock_in_use k qid \<longrightarrow> mock_fds k' = mock_fds k \<and> mock_live k' = mock_live k - {qid})"
  proof (cases "mock_in_use k qid")
    case True
    define i where "i = unat qid"
    have i: "i < 64" using True by (simp add: i_def mock_in_use_def)
    have k': "mk_queues k' = (mk_queues k)[i := free_slot]" "mk_next k' = mk_next k"
      "mk_fds k' = mk_fds k - {fd. mq_fd (mk_queues k ! i) = Some fd}"
      using assms(2) True by (auto simp: slash_qdma_mock_qpair_del_def i_def split: option.splits)
    have q: "mk_queues k' ! j = (if j = i then free_slot else mk_queues k ! j)" if "j < 64" for j
      using that D(1) i k'(1) by (simp add: nth_list_update)
    have "mock_inv k'"
    proof (rule mock_invI)
      show "length (mk_queues k') = 64" using D(1) k'(1) by simp
      show "mq_in_use (mk_queues k' ! j) \<and> fd < mk_next k'" if "j < 64" "mq_fd (mk_queues k' ! j) = Some fd" for j fd
        using that q [of j] D(2) [of j fd] k'(2) by (auto simp: free_slot_def split: if_splits)
      show "fd < mk_next k'" if "fd \<in> mk_fds k'" for fd using that k'(2,3) D(3) by simp
      show "j = l" if "j < 64" "l < 64" "mq_fd (mk_queues k' ! j) = Some fd" "mq_fd (mk_queues k' ! l) = Some fd" for j l fd
        using that q [of j] q [of l] D(4) [of j l fd] by (auto simp: free_slot_def split: if_splits)
    qed
    moreover have "fd \<in> mock_fds k' \<longleftrightarrow> fd \<in> mock_fds k" for fd
    proof -
      have "(\<forall>j<64. mq_fd (mk_queues k ! j) \<noteq> Some fd) \<longleftrightarrow>
          mq_fd (mk_queues k ! i) \<noteq> Some fd \<and> (\<forall>j<64. mq_fd (mk_queues k' ! j) \<noteq> Some fd)"
      proof (intro iffI conjI allI impI)
        fix j :: nat assume A: "\<forall>j<64. mq_fd (mk_queues k ! j) \<noteq> Some fd" and j: "j < 64"
        show "mq_fd (mk_queues k' ! j) \<noteq> Some fd" using A j q [OF j] by (simp add: free_slot_def)
      next
        fix j :: nat assume A: "mq_fd (mk_queues k ! i) \<noteq> Some fd \<and> (\<forall>j<64. mq_fd (mk_queues k' ! j) \<noteq> Some fd)" and j: "j < 64"
        show "mq_fd (mk_queues k ! j) \<noteq> Some fd" using A j q [OF j] by (cases "j = i") auto
      qed (use i in blast)
      then show ?thesis by (auto simp: mock_fds_def k'(3))
    qed
    moreover have "p \<in> mock_live k' \<longleftrightarrow> p \<in> mock_live k - {qid}" for p
    proof (cases "unat p < 64")
      case True
      have "p = qid \<longleftrightarrow> unat p = i" by (simp add: i_def word_unat_eq_iff)
      then show ?thesis using q [OF True] by (simp add: mock_live_def mock_in_use_def free_slot_def)
    qed (simp add: mock_live_def mock_in_use_def)
    ultimately show ?thesis by blast
  qed (use assms in \<open>simp add: slash_qdma_mock_qpair_del_def\<close>)
  then show "mock_inv k'" "qid \<in> mock_live k \<Longrightarrow> mock_fds k' = mock_fds k \<and> mock_live k' = mock_live k - {qid}"
    by (simp_all add: mock_live_def)
qed

lemma mock_new_fd:
  assumes "mock_inv k"
  defines "k' \<equiv> k\<lparr>mk_fds := insert (mk_next k) (mk_fds k), mk_next := mk_next k + 1\<rparr>"
  shows "mock_inv k'" and "mk_next k \<notin> mock_fds k" and "mock_fds k' = insert (mk_next k) (mock_fds k)"
proof -
  note D = mock_invD [OF assms(1)]
  show "mock_inv k'"
  proof (rule mock_invI)
    show "length (mk_queues k') = 64" using D(1) by (simp add: k'_def)
    show "mq_in_use (mk_queues k' ! j) \<and> fd < mk_next k'" if "j < 64" "mq_fd (mk_queues k' ! j) = Some fd" for j fd
      using that D(2) [of j fd] by (simp add: k'_def)
    show "fd < mk_next k'" if "fd \<in> mk_fds k'" for fd using that D(3) by (auto simp: k'_def less_Suc_eq)
    show "j = l" if "j < 64" "l < 64" "mq_fd (mk_queues k' ! j) = Some fd" "mq_fd (mk_queues k' ! l) = Some fd" for j l fd
      using that D(4) [of j l fd] by (simp add: k'_def)
  qed
  show "mk_next k \<notin> mock_fds k" using D(3) by (auto simp: mock_fds_def)
  have "mq_fd (mk_queues k ! j) \<noteq> Some (mk_next k)" if "j < 64" for j using D(2) [OF that] by auto
  then show "mock_fds k' = insert (mk_next k) (mock_fds k)" by (auto simp: mock_fds_def k'_def)
qed

lemma mock_get_fd_law:
  assumes "mock_inv k" and "slash_qdma_mock_qpair_get_fd_multi E qids k = Some (s, k')"
  shows "mock_inv k' \<and> mock_live k' = mock_live k \<and> (case s of Inl e \<Rightarrow> mock_fds k' = mock_fds k
    | Inr fd \<Rightarrow> fd \<notin> mock_fds k \<and> mock_fds k' = insert fd (mock_fds k))"
proof (cases s)
  case (Inl e)
  then show ?thesis using assms by (auto simp: slash_qdma_mock_qpair_get_fd_multi_def split: if_splits option.splits)
next
  case (Inr fd)
  then have "k' = k\<lparr>mk_fds := insert (mk_next k) (mk_fds k), mk_next := mk_next k + 1\<rparr>" "fd = mk_next k"
    using assms(2) by (auto simp: slash_qdma_mock_qpair_get_fd_multi_def split: if_splits option.splits)
  then show ?thesis using Inr mock_new_fd [OF assms(1)] by (simp add: mock_live_def mock_in_use_def)
qed

lemma mock_get_one_fd_inv:
  assumes "mock_inv k"
  shows "ok (slash_qdma_mock_qpair_get_fd E qid flags k) (\<lambda>(r, k'). mock_inv k')"
  using assms mock_new_fd(1) [OF assms] by (simp add: slash_qdma_mock_qpair_get_fd_def split: option.splits)

lemma mock_close_inv: "mock_inv k \<Longrightarrow> mock_close_fd fd k = Some (r, k') \<Longrightarrow> mock_inv k'"
  by (auto simp: mock_close_fd_def mock_inv_def split: if_splits)

lemma mock_returns:
  "slash_qdma_mock_qpair_add E req k \<noteq> None" "mock_qpair_op s qid k \<noteq> None" "slash_qdma_mock_qpair_del qid k \<noteq> None"
  "slash_qdma_mock_qpair_get_fd_multi E qids k \<noteq> None" "mock_close_fd fd k \<noteq> None"
  by (auto simp: slash_qdma_mock_qpair_add_def mock_qpair_op_def slash_qdma_mock_qpair_del_def
      slash_qdma_mock_qpair_get_fd_multi_def mock_close_fd_def Let_def split: option.splits)

lemma ok_returned: "m \<noteq> None \<Longrightarrow> (\<And>r q. m = Some (r, q) \<Longrightarrow> P q) \<Longrightarrow> ok m (\<lambda>(r, q). P q)"
  by (cases m) auto

interpretation mock: qpair_provider "mock_ops E" mock_inv mock_live mock_fds for E
proof unfold_locales
  fix k req qid fd qids flags assume I: "mock_inv k"
  show "ok (qpair_add (mock_ops E) req k) (\<lambda>(r, q'). mock_inv q')"
    using mock_returns(1) mock_add_inv [OF I] by (intro ok_returned) (auto simp: mock_ops_def)
  show "ok (qpair_start (mock_ops E) qid k) (\<lambda>(r, q'). mock_inv q')" "ok (qpair_stop (mock_ops E) qid k) (\<lambda>(r, q'). mock_inv q')"
    using mock_returns(2) mock_op_law [OF I] by (auto simp: mock_ops_def intro!: ok_returned)
  show "ok (qpair_del (mock_ops E) qid k) (\<lambda>(r, q'). mock_inv q')"
    using mock_returns(3) mock_del_law(1) [OF I] by (intro ok_returned) (auto simp: mock_ops_def)
  show "ok (qpair_get_fd (mock_ops E) qid flags k) (\<lambda>(r, q'). mock_inv q')"
    using mock_get_one_fd_inv [OF I] by (simp add: mock_ops_def)
  show "ok (qpair_get_fd_multi (mock_ops E) qids k) (\<lambda>(r, q'). mock_inv q')"
    using mock_returns(4) mock_get_fd_law [OF I] by (intro ok_returned) (auto simp: mock_ops_def)
  show "ok (close_fd (mock_ops E) fd k) (\<lambda>(r, q'). mock_inv q')"
    using mock_returns(5) mock_close_inv [OF I] by (intro ok_returned) (auto simp: mock_ops_def)
next
  fix k req r k' assume "mock_inv k" "qpair_add (mock_ops E) req k = Some (r, k')"
  then show "mock_fds k' = mock_fds k \<and> (case r of Inl e \<Rightarrow> mock_live k' = mock_live k
      | Inr qid \<Rightarrow> qid \<notin> mock_live k \<and> mock_live k' = insert qid (mock_live k))"
    using mock_add_law [of k E req r k'] by (simp add: mock_ops_def)
next
  fix k qid r k' assume "mock_inv k" "qpair_start (mock_ops E) qid k = Some (r, k')"
  then show "mock_fds k' = mock_fds k \<and> mock_live k' = mock_live k"
    using mock_op_law [of k True qid r k'] by (simp add: mock_ops_def)
next
  fix k qid r k' assume "mock_inv k" "qpair_stop (mock_ops E) qid k = Some (r, k')"
  then show "mock_fds k' = mock_fds k \<and> mock_live k' = mock_live k"
    using mock_op_law [of k False qid r k'] by (simp add: mock_ops_def)
next
  fix k qid r k' assume "mock_inv k" "qid \<in> mock_live k" "qpair_del (mock_ops E) qid k = Some (r, k')"
  then show "mock_fds k' = mock_fds k \<and> mock_live k' = mock_live k - {qid}"
    using mock_del_law(2) [of k qid r k'] by (simp add: mock_ops_def)
next
  fix k qids s k' assume "mock_inv k" "qpair_get_fd_multi (mock_ops E) qids k = Some (s, k')"
  then show "mock_live k' = mock_live k \<and> (case s of Inl e \<Rightarrow> mock_fds k' = mock_fds k
      | Inr fd \<Rightarrow> fd \<notin> mock_fds k \<and> mock_fds k' = insert fd (mock_fds k))"
    using mock_get_fd_law [of k E qids s k'] by (simp add: mock_ops_def)
qed

subsection \<open>The driver keeps the contract\<close>

text \<open>What no queue-pair call touches: the control files and the state of the device.\<close>

definition same_dev :: "'h qdma_dev \<Rightarrow> 'h qdma_dev \<Rightarrow> bool" where
  "same_dev d d' \<longleftrightarrow> qd_ctl d' = qd_ctl d \<and> usable d' = usable d"

lemma same_dev_refl [simp]: "same_dev d d"
  by (simp add: same_dev_def)

lemma same_dev_trans: "same_dev a b \<Longrightarrow> same_dev b c \<Longrightarrow> same_dev a c"
  by (simp add: same_dev_def)

lemma same_dev_upd [simp]:
  "same_dev d (d'\<lparr>qd_heap := H\<rparr>) = same_dev d d'" "same_dev d (d'\<lparr>qd_lib := h\<rparr>) = same_dev d d'"
  "same_dev d (d'\<lparr>qd_qpairs := q\<rparr>) = same_dev d d'" "same_dev d (d'\<lparr>qd_next := k\<rparr>) = same_dev d d'"
  "same_dev d (d'\<lparr>qd_ref := k\<rparr>) = same_dev d d'" "same_dev d (d'\<lparr>qd_pending := p\<rparr>) = same_dev d d'"
  "same_dev d (d'\<lparr>qd_files := p\<rparr>) = same_dev d d'" "same_dev d (d'\<lparr>qd_next_file := k\<rparr>) = same_dev d d'"
  by (simp_all add: same_dev_def usable_def)

lemma same_dev_put: "slash_qdma_qpair_put a d = Some d' \<Longrightarrow> same_dev d d'"
  by (auto simp: slash_qdma_qpair_put_def bind_eq_Some_conv split: if_splits)

lemma same_dev_get: "slash_qdma_qpair_get a d = Some d' \<Longrightarrow> same_dev d d'"
  by (auto simp: slash_qdma_qpair_get_def bind_eq_Some_conv)

lemma same_dev_put_all: "qpair_put_all as d = Some d' \<Longrightarrow> same_dev d d'"
proof (induction as arbitrary: d)
  case (Cons a as)
  then obtain d1 where "slash_qdma_qpair_put a d = Some d1" "qpair_put_all as d1 = Some d'"
    by (auto simp: bind_eq_Some_conv)
  then show ?case using Cons.IH same_dev_put same_dev_trans by blast
qed simp

lemma same_dev_remove: "slash_qdma_qpair_remove qid d = Some d' \<Longrightarrow> same_dev d d'"
  using same_dev_put [of _ "d\<lparr>qd_qpairs := (qd_qpairs d)[unat qid := None]\<rparr>" d']
  by (auto simp: slash_qdma_qpair_remove_def same_dev_def usable_def split: option.splits)

lemma same_dev_add:
  assumes "slash_qdma_ioctl_qpair_add L req d = Some (r, d')"
  shows "same_dev d d'"
proof (cases "slash_qdma_qpair_insert (new_entry req) d")
  case (Pair i d1)
  have 1: "same_dev d d1"
    using Pair by (auto simp: slash_qdma_qpair_insert_def Let_def split: option.splits)
  have 2: "same_dev d (store_entry a e h d1)" for a e h using 1 by (simp add: store_entry_def)
  show ?thesis
  proof (cases i)
    case (Inr p)
    obtain qid a where p: "p = (qid, a)" by (cases p)
    obtain f added entry h where Q: "qpair_add_queues L req qid queue_types [] (new_entry req) (qd_lib d1) = (f, added, entry, h)"
      by (cases "qpair_add_queues L req qid queue_types [] (new_entry req) (qd_lib d1)")
    show ?thesis
    proof (cases f)
      case None
      then show ?thesis using assms Pair Inr p Q 2 by (auto simp: slash_qdma_ioctl_qpair_add_def)
    next
      case (Some e)
      obtain e' h' where "fold (slash_qdma_ioctl_qpair_rm_q L) added (entry, h) = (e', h')" by fastforce
      then have "slash_qdma_qpair_remove qid (store_entry a e' h' d1) = Some d'"
        using assms Pair Inr p Q Some by (auto simp: slash_qdma_ioctl_qpair_add_def bind_eq_Some_conv)
      then show ?thesis using 2 same_dev_remove same_dev_trans by blast
    qed
  qed (use assms Pair 1 in \<open>auto simp: slash_qdma_ioctl_qpair_add_def\<close>)
qed

lemma same_dev_op:
  assumes "slash_qdma_ioctl_qpair_op L qid opcode d = Some (r, d')"
  shows "same_dev d d'"
proof -
  have A: "same_dev d d1" if "slash_qdma_ioctl_qpair_op_apply fn b a d = Some (x, d1)" for fn b a x d1
    using that by (auto simp: slash_qdma_ioctl_qpair_op_apply_def bind_eq_Some_conv case_prod_beta)
  show ?thesis
    using assms A same_dev_remove same_dev_trans
    by (fastforce simp: slash_qdma_ioctl_qpair_op_def bind_eq_Some_conv split: if_splits option.splits)
qed

lemma same_dev_take_refs: "take_refs qids taken d = Some (r, d') \<Longrightarrow> same_dev d d'"
proof (induction qids arbitrary: taken d)
  case (Cons qid qids)
  show ?case
  proof (cases "slash_qdma_qpair_lookup d qid")
    case None
    then show ?thesis using Cons.prems same_dev_put_all by (auto simp: bind_eq_Some_conv)
  next
    case (Some a)
    then show ?thesis
      using Cons.prems Cons.IH same_dev_put_all same_dev_get same_dev_trans
      by (fastforce simp: bind_eq_Some_conv split: if_splits)
  qed
qed simp

lemma same_dev_drop: "drop_ctx c d = Some d' \<Longrightarrow> same_dev d d'"
  using same_dev_put_all by (fastforce simp: drop_ctx_def dev_put_def bind_eq_Some_conv split: if_splits)

lemma get_fd_begin_cases:
  assumes "get_fd_begin ua n req d = Some (s, d1)"
  obtains (rejected) e where "s = Inl e" "d1 = d"
  | (dropped) ids e where "take_refs ids [] d = Some (Inl e, d1)" "s = Inl e"
  | (taken) ids as d2 where "take_refs ids [] d = Some (Inr as, d2)" "s = Inr (qd_next_file d2)"
      "d1 = d2\<lparr>qd_ref := qd_ref d2 + 1,
        qd_pending := (qd_next_file d2, \<lparr>fc_entries = as, fc_qids = ids, fc_fds = 0\<rparr>) # qd_pending d2,
        qd_next_file := qd_next_file d2 + 1\<rparr>"
proof (cases "\<not> ua_in ua \<or> n < 12 \<or> fr_flags req AND NOT O_CLOEXEC \<noteq> 0 \<or> requested_ids req = None \<or> \<not> usable d")
  case True
  then show ?thesis using assms rejected by (auto simp: get_fd_begin_def split: if_splits option.splits)
next
  case False
  then obtain ids where ids: "requested_ids req = Some ids" by auto
  then obtain x d2 where t: "take_refs ids [] d = Some (x, d2)"
    using assms False by (auto simp: get_fd_begin_def bind_eq_Some_conv)
  show ?thesis
  proof (cases x)
    case (Inl e)
    then show ?thesis using dropped [of ids e] assms False ids t by (simp add: get_fd_begin_def)
  next
    case (Inr as)
    then show ?thesis
      using taken [of ids as d2] assms False ids t
      by (auto simp: get_fd_begin_def bind_eq_Some_conv dev_get_def Let_def split: if_splits)
  qed
qed

lemma same_dev_get_fd:
  assumes "slash_qdma_ioctl_qpair_get_fd_w ua n fe de req d = Some (r, d')"
  shows "same_dev d d'"
proof -
  obtain s d1 where 1: "get_fd_begin ua n req d = Some (s, d1)"
    "(case s of Inl e \<Rightarrow> Some (Inl e, d1) | Inr f \<Rightarrow> get_fd_finish ua n fe de f d1) = Some (r, d')"
    using assms by (auto simp: slash_qdma_ioctl_qpair_get_fd_w_def bind_eq_Some_conv)
  have b: "same_dev d d1"
    using 1(1)
  proof (cases rule: get_fd_begin_cases)
    case (dropped ids e)
    then show ?thesis using same_dev_take_refs by blast
  next
    case (taken ids as d2)
    then show ?thesis using same_dev_take_refs [OF taken(1)] by simp
  qed simp
  have "same_dev d1 d'" if "get_fd_finish ua n fe de f d1 = Some (r, d')" for f
    using that same_dev_drop [of _ "d1\<lparr>qd_pending := remove_key f (qd_pending d1)\<rparr>" d']
    by (auto simp: get_fd_finish_def bind_eq_Some_conv Let_def same_dev_def usable_def split: option.splits sum.splits)
  then show ?thesis using 1(2) b same_dev_trans by (fastforce split: sum.splits)
qed

lemma same_dev_close: "close_file f d = Some d' \<Longrightarrow> same_dev d d'"
  using same_dev_drop [of _ "d\<lparr>qd_files := remove_key f (qd_files d)\<rparr>" d']
  by (auto simp: close_file_def slash_qdma_qpair_release_def bind_eq_Some_conv same_dev_def usable_def split: option.splits if_splits)

definition driver_inv :: "'h qdma_dev \<Rightarrow> bool" where
  "driver_inv d \<longleftrightarrow> counted d \<and> 0 < qd_ctl d"

lemma driver_invI: "ok m (\<lambda>(r, d'). counted d') \<Longrightarrow> (\<And>r d'. m = Some (r, d') \<Longrightarrow> same_dev d d') \<Longrightarrow>
    driver_inv d \<Longrightarrow> ok m (\<lambda>(r, d'). driver_inv d')"
  by (cases m) (auto simp: driver_inv_def same_dev_def)

lemma driver_add_inv:
  assumes "driver_inv d"
  shows "ok (slash_qdma_qpair_add L req d) (\<lambda>(r, d'). driver_inv d')"
proof -
  have "counted d" using assms by (simp add: driver_inv_def)
  then have "ok (slash_qdma_ioctl_qpair_add L req d) (\<lambda>(r, d'). driver_inv d')"
    using counted_add same_dev_add assms by (intro driver_invI) blast+
  then obtain r d' where "slash_qdma_ioctl_qpair_add L req d = Some (r, d')" "driver_inv d'"
    by (auto simp: ok_def split: option.splits)
  then show ?thesis
    using assms by (simp add: slash_qdma_qpair_add_def slash_qdma_ioctl_qpair_add_w_def)
qed

lemma driver_op_inv:
  assumes "driver_inv d"
  shows "ok (slash_qdma_qpair_op L qid opcode d) (\<lambda>(r, d'). driver_inv d')"
proof -
  have "counted d" using assms by (simp add: driver_inv_def)
  then have "ok (slash_qdma_ioctl_qpair_op L qid opcode d) (\<lambda>(r, d'). driver_inv d')"
    using counted_op same_dev_op assms by (intro driver_invI) blast+
  then obtain r d' where "slash_qdma_ioctl_qpair_op L qid opcode d = Some (r, d')" "driver_inv d'"
    by (auto simp: ok_def split: option.splits)
  then show ?thesis
    using assms by (simp add: slash_qdma_qpair_op_def slash_qdma_ioctl_qpair_op_w_def)
qed

lemma counted_get_fd:
  assumes "counted d" "0 < qd_ctl d"
  shows "ok (slash_qdma_ioctl_qpair_get_fd_w ua n fe de req d) (\<lambda>(r, d'). counted d')"
proof -
  obtain s d1 where s: "get_fd_begin ua n req d = Some (s, d1)" "counted d1"
    using counted_get_fd_begin [OF assms, of ua n req] by (auto simp: ok_def split: option.splits)
  have "map_of (qd_pending d1) f \<noteq> None" if "s = Inr f" for f
    using s(1) that by (cases rule: get_fd_begin_cases) auto
  then show ?thesis
    using s counted_finish [OF s(2)] by (cases s) (fastforce simp: slash_qdma_ioctl_qpair_get_fd_w_def)+
qed

lemma driver_get_fd_inv:
  assumes "driver_inv d"
  shows "ok (slash_qdma_qpair_get_fd_multi E qids d) (\<lambda>(r, d'). driver_inv d')"
proof -
  have C: "counted d" "0 < qd_ctl d" using assms by (simp_all add: driver_inv_def)
  show ?thesis
    using assms driver_invI [OF counted_get_fd [OF C] same_dev_get_fd assms]
    by (simp add: slash_qdma_qpair_get_fd_multi_def)
qed

lemma driver_get_one_fd_inv:
  assumes "driver_inv d"
  shows "ok (slash_qdma_qpair_get_fd E qid flags d) (\<lambda>(r, d'). driver_inv d')"
proof -
  have C: "counted d" "0 < qd_ctl d" using assms by (simp_all add: driver_inv_def)
  show ?thesis
    using assms driver_invI [OF counted_get_fd [OF C] same_dev_get_fd assms] by (simp add: slash_qdma_qpair_get_fd_def)
qed

lemma driver_close_inv:
  assumes "driver_inv d"
  shows "ok (close_file fd d) driver_inv"
proof -
  have "counted d" using assms by (simp add: driver_inv_def)
  from ok_exists [OF counted_close [OF this]] obtain d' where "close_file fd d = Some d'" "counted d'" by blast
  then show ?thesis using assms same_dev_close [of fd d d'] by (simp add: driver_inv_def same_dev_def)
qed

interpretation driver: qpair_calls "driver_ops L E" driver_inv for L E
proof unfold_locales
  fix d :: "'a qdma_dev" and req qid qids fd flags assume I: "driver_inv d"
  show "ok (qpair_add (driver_ops L E) req d) (\<lambda>(r, q'). driver_inv q')"
    using driver_add_inv [OF I] by (simp add: driver_ops_def)
  show "ok (qpair_start (driver_ops L E) qid d) (\<lambda>(r, q'). driver_inv q')"
    "ok (qpair_stop (driver_ops L E) qid d) (\<lambda>(r, q'). driver_inv q')"
    "ok (qpair_del (driver_ops L E) qid d) (\<lambda>(r, q'). driver_inv q')"
    using driver_op_inv [OF I]
    by (simp_all add: driver_ops_def slash_qdma_qpair_start_def slash_qdma_qpair_stop_def slash_qdma_qpair_del_def)
  show "ok (qpair_get_fd (driver_ops L E) qid flags d) (\<lambda>(r, q'). driver_inv q')"
    using driver_get_one_fd_inv [OF I] by (simp add: driver_ops_def)
  show "ok (qpair_get_fd_multi (driver_ops L E) qids d) (\<lambda>(r, q'). driver_inv q')"
    using driver_get_fd_inv [OF I] by (simp add: driver_ops_def)
  show "ok (close_fd (driver_ops L E) fd d) (\<lambda>(r, q'). driver_inv q')"
    using ok_exists [OF driver_close_inv [OF I, of fd]] by (auto simp: driver_ops_def)
qed

text \<open>
  Deleting needs libqdma: \<open>lib_reliable\<close> says that it reports the state of every queue as one of the three
  the driver knows, stops what is online and removes what is enabled.
\<close>

definition lib_reliable :: "'h libqdma \<Rightarrow> bool" where
  "lib_reliable L \<longleftrightarrow>
     (\<forall>hn h. \<exists>s h'. qdma_get_queue_state L hn h = (Inr s, h') \<and> s \<noteq> Q_STATE_OTHER) \<and>
     (\<forall>hn h. fst (qdma_queue_stop L hn h) = None) \<and> (\<forall>hn h. fst (qdma_queue_remove L hn h) = None)"

definition driver_up :: "'h libqdma \<Rightarrow> 'h qdma_dev \<Rightarrow> bool" where
  "driver_up L d \<longleftrightarrow> lib_reliable L \<and> driver_inv d \<and> usable d"

definition driver_live :: "'h qdma_dev \<Rightarrow> u32 set" where
  "driver_live d = {qid. slash_qdma_qpair_lookup d qid \<noteq> None}"

definition driver_fds :: "'h qdma_dev \<Rightarrow> nat set" where
  "driver_fds d = fst ` set (qd_files d)"

lemma driver_upI:
  assumes "ok m (\<lambda>(r, d'). driver_inv d')" "\<And>r d'. m = Some (r, d') \<Longrightarrow> same_dev d d'" "driver_up L d"
  shows "ok m (\<lambda>(r, d'). driver_up L d')"
  using assms by (cases m) (auto simp: driver_up_def same_dev_def)

lemma remove_safe_reliable:
  assumes "lib_reliable L"
  shows "fst (slash_qdma_queue_remove_safe L hn h) = None"
proof -
  obtain s h' where s: "qdma_get_queue_state L hn h = (Inr s, h')" "s \<noteq> Q_STATE_OTHER"
    using assms unfolding lib_reliable_def by blast
  have st: "fst (qdma_queue_stop L hn h') = None" and rm: "fst (qdma_queue_remove L hn x) = None" for x
    using assms unfolding lib_reliable_def by blast+
  obtain h'' where "qdma_queue_stop L hn h' = (None, h'')" using st by (cases "qdma_queue_stop L hn h'") auto
  then show ?thesis using s rm by (cases s) (simp_all add: slash_qdma_queue_remove_safe_def)
qed

lemma op_apply_reliable:
  assumes "\<And>hn h. fst (fn hn h) = None"
  shows "fst (op_apply fn b entry qts f h) = f"
proof (induction qts arbitrary: h)
  case (Cons qt qts)
  show ?case
  proof (cases "qe_qhndl entry qt")
    case (Some hn)
    obtain h' where "fn hn h = (None, h')" using assms [of hn h] by (cases "fn hn h") auto
    then show ?thesis using Some Cons.IH by simp
  qed (use Cons.IH in simp)
qed simp

text \<open>The table and the open files after each call.\<close>

definition table_is :: "'h qdma_dev \<Rightarrow> nat option list \<Rightarrow> 'h qdma_dev \<Rightarrow> bool" where
  "table_is d qs d' \<longleftrightarrow> qd_qpairs d' = qs \<and> qd_files d' = qd_files d"

lemma table_put: "slash_qdma_qpair_put a d = Some d' \<Longrightarrow> table_is d (qd_qpairs d) d'"
  by (auto simp: slash_qdma_qpair_put_def table_is_def bind_eq_Some_conv split: if_splits)

lemma table_remove:
  assumes "slash_qdma_qpair_remove qid d = Some d'"
  shows "table_is d ((qd_qpairs d)[unat qid := None]) d'"
proof (cases "slash_qdma_qpair_lookup d qid")
  case None
  then have "(qd_qpairs d)[unat qid := None] = qd_qpairs d"
    by (cases "unat qid < length (qd_qpairs d)")
      (auto simp: slash_qdma_qpair_lookup_def not_less list_update_beyond intro: list_update_same_conv [THEN iffD2])
  then show ?thesis using assms None by (simp add: slash_qdma_qpair_remove_def table_is_def)
next
  case (Some a)
  then show ?thesis
    using assms table_put [of a "d\<lparr>qd_qpairs := (qd_qpairs d)[unat qid := None]\<rparr>" d']
    by (simp add: slash_qdma_qpair_remove_def table_is_def)
qed

lemma live_update:
  assumes "table_is d ((qd_qpairs d)[unat qid := x]) d'" and "unat qid < length (qd_qpairs d)"
  shows "driver_live d' = (if x = None then driver_live d - {qid} else insert qid (driver_live d))"
    and "driver_fds d' = driver_fds d"
proof -
  have "p \<in> driver_live d' \<longleftrightarrow> (if p = qid then x \<noteq> None else p \<in> driver_live d)" for p
  proof (cases "p = qid")
    case True
    then show ?thesis using assms by (simp add: driver_live_def table_is_def slash_qdma_qpair_lookup_def)
  next
    case False
    then have "unat qid \<noteq> unat p" by (metis word_unat_eq_iff)
    then show ?thesis using False assms by (simp add: driver_live_def table_is_def slash_qdma_qpair_lookup_def)
  qed
  then show "driver_live d' = (if x = None then driver_live d - {qid} else insert qid (driver_live d))"
    by (cases "x = None") (auto simp: set_eq_iff)
  show "driver_fds d' = driver_fds d" using assms(1) by (simp add: driver_fds_def table_is_def)
qed

lemma live_same: "table_is d (qd_qpairs d) d' \<Longrightarrow> driver_live d' = driver_live d \<and> driver_fds d' = driver_fds d"
  by (auto simp: table_is_def driver_live_def driver_fds_def slash_qdma_qpair_lookup_def)

lemma driver_add_law:
  assumes "counted d" and "slash_qdma_ioctl_qpair_add L req d = Some (r, d')"
  shows "driver_fds d' = driver_fds d \<and> (case r of Inl e \<Rightarrow> driver_live d' = driver_live d
    | Inr qid \<Rightarrow> qid \<notin> driver_live d \<and> driver_live d' = insert qid (driver_live d))"
proof (cases "xa_free_id (qd_qpairs d)")
  case None
  then have "d' = d" "\<exists>e. r = Inl e" using assms(2) by (auto simp: slash_qdma_ioctl_qpair_add_def slash_qdma_qpair_insert_def)
  then show ?thesis by auto
next
  case (Some i)
  have i: "i < length (qd_qpairs d)" "qd_qpairs d ! i = None" "length (qd_qpairs d) = 256"
    using xa_free_id_Some [OF Some] assms(1) by (auto simp: counted_def)
  let ?qid = "of_nat i :: u32" and ?a = "qd_next d"
  have u: "unat ?qid = i" using i by (simp add: unsigned_of_nat take_bit_nat_eq_self)
  obtain d1 where d1: "slash_qdma_qpair_insert (new_entry req) d = (Inr (?qid, ?a), d1)"
    "qd_qpairs d1 = (qd_qpairs d)[i := Some ?a]" "qd_files d1 = qd_files d"
    using Some by (auto simp: slash_qdma_qpair_insert_def Let_def)
  have S: "table_is d ((qd_qpairs d)[i := Some ?a]) (store_entry ?a e h d1)" for e h
    using d1 by (simp add: table_is_def store_entry_def)
  have nl: "?qid \<notin> driver_live d" using i u by (simp add: driver_live_def slash_qdma_qpair_lookup_def)
  obtain f added entry h where Q: "qpair_add_queues L req ?qid queue_types [] (new_entry req) (qd_lib d1) = (f, added, entry, h)"
    by (cases "qpair_add_queues L req ?qid queue_types [] (new_entry req) (qd_lib d1)")
  show ?thesis
  proof (cases f)
    case None
    then have r: "r = Inr ?qid" "d' = store_entry ?a entry h d1"
      using assms(2) d1(1) Q by (auto simp: slash_qdma_ioctl_qpair_add_def)
    then show ?thesis using live_update [of d ?qid "Some ?a" d'] S i u nl by simp
  next
    case (Some e)
    obtain e' h' where "fold (slash_qdma_ioctl_qpair_rm_q L) added (entry, h) = (e', h')" by fastforce
    then have r: "r = Inl e" "slash_qdma_qpair_remove ?qid (store_entry ?a e' h' d1) = Some d'"
      using assms(2) d1(1) Q Some by (auto simp: slash_qdma_ioctl_qpair_add_def bind_eq_Some_conv)
    have "table_is d (qd_qpairs d) d'"
      using table_remove [OF r(2)] S [of e' h'] u i(2) list_update_id [of "qd_qpairs d" i] by (simp add: table_is_def)
    then show ?thesis using live_same r(1) by auto
  qed
qed

lemma driver_op_law:
  assumes "slash_qdma_ioctl_qpair_op L qid opcode d = Some (r, d')"
  shows "opcode \<noteq> SLASH_QDMA_QUEUE_OP_DEL \<Longrightarrow> table_is d (qd_qpairs d) d'"
    and "opcode = SLASH_QDMA_QUEUE_OP_DEL \<Longrightarrow> lib_reliable L \<Longrightarrow> qd_have_qdma_handle d \<Longrightarrow> qid \<in> driver_live d \<Longrightarrow>
      r = None \<and> table_is d ((qd_qpairs d)[unat qid := None]) d'"
proof -
  have A: "table_is d (qd_qpairs d) d1" if "slash_qdma_ioctl_qpair_op_apply fn b a d = Some (x, d1)" for fn b a x d1
    using that by (auto simp: slash_qdma_ioctl_qpair_op_apply_def table_is_def bind_eq_Some_conv case_prod_beta)
  show "opcode \<noteq> SLASH_QDMA_QUEUE_OP_DEL \<Longrightarrow> table_is d (qd_qpairs d) d'"
    using assms A by (auto simp: slash_qdma_ioctl_qpair_op_def table_is_def split: if_splits option.splits)
  assume del: "opcode = SLASH_QDMA_QUEUE_OP_DEL" and L: "lib_reliable L" and h: "qd_have_qdma_handle d" and l: "qid \<in> driver_live d"
  obtain a where a: "slash_qdma_qpair_lookup d qid = Some a" using l by (auto simp: driver_live_def)
  obtain x d1 where x: "slash_qdma_ioctl_qpair_op_apply (slash_qdma_queue_remove_safe L) False a d = Some (x, d1)"
    using assms del h a by (auto simp: slash_qdma_ioctl_qpair_op_def bind_eq_Some_conv)
  then have "x = None"
    using op_apply_reliable [of "slash_qdma_queue_remove_safe L" False _ queue_types None "qd_lib d"] remove_safe_reliable [OF L]
    by (auto simp: slash_qdma_ioctl_qpair_op_apply_def bind_eq_Some_conv case_prod_beta)
  then have "slash_qdma_qpair_remove qid d1 = Some d'" "r = None"
    using assms del h a x by (auto simp: slash_qdma_ioctl_qpair_op_def bind_eq_Some_conv)
  then show "r = None \<and> table_is d ((qd_qpairs d)[unat qid := None]) d'"
    using table_remove [of qid d1 d'] A [OF x] by (simp add: table_is_def)
qed

lemma put_all_table:
  "qpair_put_all as d = Some d' \<Longrightarrow>
     table_is d (qd_qpairs d) d' \<and> qd_next_file d' = qd_next_file d \<and> qd_pending d' = qd_pending d"
proof (induction as arbitrary: d)
  case (Cons a as)
  then show ?case
    by (fastforce simp: slash_qdma_qpair_put_def table_is_def bind_eq_Some_conv split: if_splits)
qed (simp add: table_is_def)

lemma take_refs_table_is: "take_refs qids taken d = Some (r, d') \<Longrightarrow> 
    table_is d (qd_qpairs d) d' \<and> qd_next_file d' = qd_next_file d \<and> qd_pending d' = qd_pending d"
proof (induction qids arbitrary: taken d)
  case (Cons qid qids)
  show ?case
  proof (cases "slash_qdma_qpair_lookup d qid")
    case None
    then show ?thesis using Cons.prems put_all_table by (auto simp: bind_eq_Some_conv)
  next
    case (Some a)
    then obtain e where e: "qd_heap d a = Some e" using Cons.prems by (auto simp: bind_eq_Some_conv)
    show ?thesis
    proof (cases "qe_dir_mask e = 0")
      case True
      then show ?thesis using Cons.prems Some e put_all_table by (auto simp: bind_eq_Some_conv)
    next
      case False
      then obtain d1 where d1: "slash_qdma_qpair_get a d = Some d1" "take_refs qids (taken @ [a]) d1 = Some (r, d')"
        using Cons.prems Some e by (auto simp: bind_eq_Some_conv)
      have "table_is d (qd_qpairs d) d1 \<and> qd_next_file d1 = qd_next_file d \<and> qd_pending d1 = qd_pending d"
        using d1(1) by (auto simp: slash_qdma_qpair_get_def table_is_def bind_eq_Some_conv)
      then show ?thesis using Cons.IH [OF d1(2)] by (auto simp: table_is_def)
    qed
  qed
qed (simp add: table_is_def)

lemma drop_ctx_table: "drop_ctx c d = Some d' \<Longrightarrow> table_is d (qd_qpairs d) d'"
  using put_all_table by (fastforce simp: drop_ctx_def dev_put_def table_is_def bind_eq_Some_conv split: if_splits)

lemma driver_get_fd_law:
  assumes C: "counted d" and r: "slash_qdma_ioctl_qpair_get_fd_w ua n fe de req d = Some (r, d')"
  shows "driver_live d' = driver_live d \<and> (case r of Inl e \<Rightarrow> driver_fds d' = driver_fds d
    | Inr f \<Rightarrow> f \<notin> driver_fds d \<and> driver_fds d' = insert f (driver_fds d))"
proof -
  obtain s d1 where 1: "get_fd_begin ua n req d = Some (s, d1)"
    "(case s of Inl e \<Rightarrow> Some (Inl e, d1) | Inr f \<Rightarrow> get_fd_finish ua n fe de f d1) = Some (r, d')"
    using r by (auto simp: slash_qdma_ioctl_qpair_get_fd_w_def bind_eq_Some_conv)
  show ?thesis
    using 1(1)
  proof (cases rule: get_fd_begin_cases)
    case (rejected e)
    then show ?thesis using 1(2) by auto
  next
    case (dropped ids e)
    then show ?thesis using 1(2) take_refs_table_is [OF dropped(1)] live_same by auto
  next
    case (taken ids as d2)
    let ?f = "qd_next_file d" and ?d = "d1\<lparr>qd_pending := remove_key (qd_next_file d) (qd_pending d1)\<rparr>"
    have T: "table_is d (qd_qpairs d) d2" "qd_next_file d2 = ?f" using take_refs_table_is [OF taken(1)] by auto
    have d1: "table_is d (qd_qpairs d) d1" using T taken(3) by (simp add: table_is_def)
    have fresh: "?f \<notin> driver_fds d" using C by (auto simp: counted_def driver_fds_def)
    have fin: "get_fd_finish ua n fe de ?f d1 = Some (r, d')" using 1(2) taken(2) T(2) by simp
    show ?thesis
    proof (cases r)
      case (Inl e)
      then obtain c where "drop_ctx c ?d = Some d'"
        using fin by (auto simp: get_fd_finish_def bind_eq_Some_conv Let_def split: option.splits sum.splits)
      from drop_ctx_table [OF this] d1 have "table_is d (qd_qpairs d) d'" by (simp add: table_is_def)
      then show ?thesis using live_same Inl by simp
    next
      case (Inr f)
      then obtain c where "f = ?f" "d' = ?d\<lparr>qd_files := (?f, c) # qd_files d1\<rparr>"
        using fin by (auto simp: get_fd_finish_def bind_eq_Some_conv Let_def split: option.splits sum.splits)
      then show ?thesis
        using Inr fresh d1 by (auto simp: driver_live_def driver_fds_def table_is_def slash_qdma_qpair_lookup_def)
    qed
  qed
qed

lemmas driver_call_defs = driver_ops_def slash_qdma_qpair_start_def slash_qdma_qpair_stop_def slash_qdma_qpair_del_def
  slash_qdma_qpair_op_def slash_qdma_ioctl_qpair_op_w_def slash_qdma_qpair_add_def slash_qdma_ioctl_qpair_add_w_def
  slash_qdma_qpair_get_fd_multi_def ua_ok_def copy_back_def

lemma driver_op_same:
  assumes "slash_qdma_qpair_op L qid opcode d = Some (r, d')"
  shows "same_dev d d'"
  using assms same_dev_op
  by (auto simp: slash_qdma_qpair_op_def slash_qdma_ioctl_qpair_op_w_def bind_eq_Some_conv split: if_splits)

lemma driver_add_same: "slash_qdma_qpair_add L req d = Some (r, d') \<Longrightarrow> same_dev d d'"
  using same_dev_add
  by (auto simp: slash_qdma_qpair_add_def slash_qdma_ioctl_qpair_add_w_def bind_eq_Some_conv split: if_splits)

lemma driver_get_one_fd_same: "slash_qdma_qpair_get_fd E qid flags d = Some (r, d') \<Longrightarrow> same_dev d d'"
  using same_dev_get_fd by (auto simp: slash_qdma_qpair_get_fd_def split: if_splits)

lemma driver_get_fd_same: "slash_qdma_qpair_get_fd_multi E qids d = Some (r, d') \<Longrightarrow> same_dev d d'"
  using same_dev_get_fd by (auto simp: slash_qdma_qpair_get_fd_multi_def split: if_splits)

interpretation driver_up: qpair_provider "driver_ops L E" "driver_up L" driver_live driver_fds for L E
proof unfold_locales
  fix d :: "'a qdma_dev" and req qid qids fd flags assume U: "driver_up L d"
  then have I: "driver_inv d" by (simp add: driver_up_def)
  show "ok (qpair_add (driver_ops L E) req d) (\<lambda>(r, q'). driver_up L q')"
    using driver_upI [OF driver_add_inv [OF I] driver_add_same U] by (simp add: driver_ops_def)
  show "ok (qpair_start (driver_ops L E) qid d) (\<lambda>(r, q'). driver_up L q')"
    "ok (qpair_stop (driver_ops L E) qid d) (\<lambda>(r, q'). driver_up L q')"
    "ok (qpair_del (driver_ops L E) qid d) (\<lambda>(r, q'). driver_up L q')"
    using driver_upI [OF driver_op_inv [OF I] driver_op_same U]
    by (simp_all add: driver_ops_def slash_qdma_qpair_start_def slash_qdma_qpair_stop_def slash_qdma_qpair_del_def)
  show "ok (qpair_get_fd (driver_ops L E) qid flags d) (\<lambda>(r, q'). driver_up L q')"
    using driver_upI [OF driver_get_one_fd_inv [OF I] driver_get_one_fd_same U] by (simp add: driver_ops_def)
  show "ok (qpair_get_fd_multi (driver_ops L E) qids d) (\<lambda>(r, q'). driver_up L q')"
    using driver_upI [OF driver_get_fd_inv [OF I] driver_get_fd_same U] by (simp add: driver_ops_def)
  show "ok (close_fd (driver_ops L E) fd d) (\<lambda>(r, q'). driver_up L q')"
    using ok_exists [OF driver_close_inv [OF I, of fd]] same_dev_close [of fd d] U
    by (auto simp: driver_ops_def driver_up_def same_dev_def)
next
  fix d :: "'a qdma_dev" and req r d' assume U: "driver_up L d" and r: "qpair_add (driver_ops L E) req d = Some (r, d')"
  have "counted d" using U by (simp add: driver_up_def driver_inv_def)
  then show "driver_fds d' = driver_fds d \<and> (case r of Inl e \<Rightarrow> driver_live d' = driver_live d
      | Inr qid \<Rightarrow> qid \<notin> driver_live d \<and> driver_live d' = insert qid (driver_live d))"
    using r driver_add_law [of d L req]
    by (fastforce simp: driver_call_defs bind_eq_Some_conv split: if_splits sum.splits)
next
  fix d :: "'a qdma_dev" and qid r' d' assume "driver_up L d" "qpair_start (driver_ops L E) qid d = Some (r', d')"
  then show "driver_fds d' = driver_fds d \<and> driver_live d' = driver_live d"
    using driver_op_law(1) [of L qid 0 d] live_same [of d]
    by (fastforce simp: driver_call_defs bind_eq_Some_conv split: if_splits)
next
  fix d :: "'a qdma_dev" and qid r' d' assume "driver_up L d" "qpair_stop (driver_ops L E) qid d = Some (r', d')"
  then show "driver_fds d' = driver_fds d \<and> driver_live d' = driver_live d"
    using driver_op_law(1) [of L qid 1 d] live_same [of d]
    by (fastforce simp: driver_call_defs bind_eq_Some_conv split: if_splits)
next
  fix d :: "'a qdma_dev" and qid r' d'
  assume U: "driver_up L d" and l: "qid \<in> driver_live d" and r: "qpair_del (driver_ops L E) qid d = Some (r', d')"
  have L: "lib_reliable L" "qd_have_qdma_handle d" using U by (simp_all add: driver_up_def usable_def)
  obtain x where x: "slash_qdma_ioctl_qpair_op L qid SLASH_QDMA_QUEUE_OP_DEL d = Some (x, d')"
    using r U by (auto simp: driver_call_defs driver_up_def bind_eq_Some_conv split: if_splits)
  have t: "table_is d ((qd_qpairs d)[unat qid := None]) d'" using driver_op_law(2) [OF x refl L l] by simp
  have "unat qid < length (qd_qpairs d)" using l by (auto simp: driver_live_def slash_qdma_qpair_lookup_def split: if_splits)
  then show "driver_fds d' = driver_fds d \<and> driver_live d' = driver_live d - {qid}" using live_update [OF t] by simp
next
  fix d :: "'a qdma_dev" and qids s d'
  assume U: "driver_up L d" and r: "qpair_get_fd_multi (driver_ops L E) qids d = Some (s, d')"
  have "counted d" using U by (simp add: driver_up_def driver_inv_def)
  then show "driver_live d' = driver_live d \<and> (case s of Inl e \<Rightarrow> driver_fds d' = driver_fds d
      | Inr fd \<Rightarrow> fd \<notin> driver_fds d \<and> driver_fds d' = insert fd (driver_fds d))"
    using r driver_get_fd_law [of d]
    by (auto simp: driver_ops_def slash_qdma_qpair_get_fd_multi_def split: if_splits)
qed

end
