(* ===== verification/Vrtd_Buffer.thy ===== *)
theory Vrtd_Buffer
  imports Vrtd_Allocator Slash_Qdma_Calls
begin

unbundle bit_operations_syntax

text \<open>
  The life of a DMA buffer in the daemon, from \<^verbatim>\<open>vrt/vrtd/src/buffer.c\<close> and \<^verbatim>\<open>buffer.h\<close>: device memory
  from the tracker of \<^verbatim>\<open>Vrtd_Allocator\<close>, one or two QDMA queue pairs, and a transfer descriptor.

  The daemon reaches QDMA through libslash, which talks to the kernel driver or to its own mock. The
  calls are the argument \<open>ops\<close>, functions on a state \<open>'q\<close> that return an error number or a result;
  \<^verbatim>\<open>Slash_Qdma_Calls\<close> gives both providers. \<open>errno\<close> is threaded through the calls that set it, because
  the request handler reads it after the clean-up. The \<open>None\<close> of a result is an access outside the
  tracker's tables or to freed memory of the provider. A map of \<open>None\<close> is a null pointer; heap
  allocation succeeds.
\<close>

section \<open>QDMA\<close>

abbreviation (input) VRTD_QDMA_DIR_H2C :: u32 where "VRTD_QDMA_DIR_H2C \<equiv> 1"
abbreviation (input) VRTD_QDMA_DIR_C2H :: u32 where "VRTD_QDMA_DIR_C2H \<equiv> 2"
abbreviation (input) VRTD_QDMA_Q_MODE_MM :: u32 where "VRTD_QDMA_Q_MODE_MM \<equiv> 0"
abbreviation (input) VRTD_QDMA_RING_SZ_IDX :: u32 where "VRTD_QDMA_RING_SZ_IDX \<equiv> 15"
abbreviation (input) VRTD_BUFFER_MAX_QPAIR_FDS :: nat where "VRTD_BUFFER_MAX_QPAIR_FDS \<equiv> 2"

section \<open>Buffers\<close>

record buffer =
  bf_alloc_type :: allocation_type
  bf_alloc_arg :: u64
  bf_alloc_dir :: u32
  bf_client_id :: u64
  bf_addr :: u64
  bf_size :: u64
  bf_qids :: "u32 list"
  bf_fd :: "nat option"
  bf_allocation_valid :: bool
  bf_qpair_created :: bool

definition bf_qpair_count :: "buffer \<Rightarrow> nat" where
  "bf_qpair_count b = length (bf_qids b)"

definition buffer_plan_qpair_channels :: "u32 \<Rightarrow> u32 list" where
  "buffer_plan_qpair_channels mm_channel =
     (if mm_channel = SLASH_QDMA_MM_CHANNEL_AUTO
      then [SLASH_QDMA_MM_CHANNEL_0, SLASH_QDMA_MM_CHANNEL_1] else [mm_channel])"

text \<open>The wire values of \<open>alloc_dir\<close> and \<open>alloc_type\<close>; \<open>None\<close> is the default branch.\<close>

definition dir_mask_of :: "u32 \<Rightarrow> u32 option" where
  "dir_mask_of alloc_dir =
     (if alloc_dir = 0 then Some (VRTD_QDMA_DIR_H2C OR VRTD_QDMA_DIR_C2H)
      else if alloc_dir = 1 then Some VRTD_QDMA_DIR_H2C
      else if alloc_dir = 2 then Some VRTD_QDMA_DIR_C2H
      else None)"

definition alloc_type_of :: "u32 \<Rightarrow> allocation_type option" where
  "alloc_type_of v =
     (if v = 0 then Some ALLOCATION_TYPE_DDR
      else if v = 1 then Some ALLOCATION_TYPE_HBM
      else if v = 2 then Some ALLOCATION_TYPE_HBM_VNOC
      else None)"

definition default_qpair :: qpair_add_req where
  "default_qpair =
     \<lparr>qa_mode = VRTD_QDMA_Q_MODE_MM, qa_dir_mask = 0, qa_mm_channel = 0,
      qa_h2c_ring_sz = VRTD_QDMA_RING_SZ_IDX, qa_c2h_ring_sz = VRTD_QDMA_RING_SZ_IDX,
      qa_cmpt_ring_sz = VRTD_QDMA_RING_SZ_IDX, qa_aperture_size = 0\<rparr>"

text \<open>Keep the old error number unless the call failed.\<close>

definition set_errno :: "errno option \<Rightarrow> errno \<Rightarrow> errno" where
  "set_errno r e = (case r of None \<Rightarrow> e | Some e' \<Rightarrow> e')"

fun delete_qpairs :: "'q qdma_ops \<Rightarrow> u32 list \<Rightarrow> errno \<Rightarrow> 'q \<Rightarrow> (errno \<times> 'q) option" where
  "delete_qpairs ops [] e q = Some (e, q)"
| "delete_qpairs ops (qid # qids) e q = do {
     (r1, q) \<leftarrow> qpair_stop ops qid q;
     (r2, q) \<leftarrow> qpair_del ops qid q;
     delete_qpairs ops qids (set_errno r2 (set_errno r1 e)) q
   }"

text \<open>The descriptor, the queue pairs, the memory; every step is skipped when it was not acquired.\<close>

definition close_buffer_fd :: "'q qdma_ops \<Rightarrow> buffer \<Rightarrow> errno \<Rightarrow> 'q \<Rightarrow> (errno \<times> 'q) option" where
  "close_buffer_fd ops b e q =
     (case bf_fd b of
        None \<Rightarrow> Some (e, q)
      | Some fd \<Rightarrow> do {
          (r, q) \<leftarrow> close_fd ops fd q;
          Some (set_errno r e, q)
        })"

definition cleanup_buffer ::
  "'q qdma_ops \<Rightarrow> buffer \<Rightarrow> errno \<Rightarrow> device_memory_map option \<Rightarrow> 'q \<Rightarrow>
   (errno \<times> device_memory_map option \<times> 'q) option" where
  "cleanup_buffer ops b e m q = do {
     (e, q) \<leftarrow> close_buffer_fd ops b e q;
     (e, q) \<leftarrow> (if bf_qpair_created b then delete_qpairs ops (bf_qids b) e q else Some (e, q));
     case m of
       Some m' \<Rightarrow>
         if bf_allocation_valid b then do {
           (res, m') \<leftarrow> device_memory_map_free (bf_alloc_type b) (bf_addr b) (bf_size b) (bf_client_id b) m';
           Some (e, Some m', q)
         }
         else Some (e, m, q)
     | None \<Rightarrow> Some (e, m, q)
   }"

text \<open>The loop that adds and starts the queue pairs of the planned channels.\<close>

fun add_qpairs ::
  "'q qdma_ops \<Rightarrow> qpair_add_req \<Rightarrow> u32 list \<Rightarrow> buffer \<Rightarrow> 'q \<Rightarrow> (errno option \<times> buffer \<times> 'q) option" where
  "add_qpairs ops qp [] b q = Some (None, b, q)"
| "add_qpairs ops qp (ch # chs) b q = do {
     (r, q) \<leftarrow> qpair_add ops (qp\<lparr>qa_mm_channel := ch\<rparr>) q;
     case r of
       Inl e \<Rightarrow> Some (Some e, b, q)
     | Inr qid \<Rightarrow>
         (let b = b\<lparr>bf_qids := bf_qids b @ [qid], bf_qpair_created := True\<rparr> in do {
            (r, q) \<leftarrow> qpair_start ops qid q;
            case r of
              Some e \<Rightarrow> Some (Some e, b, q)
            | None \<Rightarrow> add_qpairs ops qp chs b q
          })
   }"

text \<open>Queue pairs, then the descriptor that binds them.\<close>

definition attach_qpairs ::
  "'q qdma_ops \<Rightarrow> qpair_add_req \<Rightarrow> u32 \<Rightarrow> buffer \<Rightarrow> 'q \<Rightarrow> (errno option \<times> buffer \<times> 'q) option" where
  "attach_qpairs ops qp mm_channel b q = do {
     (r, b, q) \<leftarrow> add_qpairs ops qp (buffer_plan_qpair_channels mm_channel) b q;
     case r of
       Some e \<Rightarrow> Some (Some e, b, q)
     | None \<Rightarrow> do {
         (r, q) \<leftarrow> qpair_get_fd_multi ops (bf_qids b) q;
         case r of
           Inl e \<Rightarrow> Some (Some e, b, q)
         | Inr fd \<Rightarrow> Some (None, b\<lparr>bf_fd := Some fd\<rparr>, q)
       }
   }"

type_synonym 'q created = "((errno + buffer) \<times> device_memory_map option \<times> 'q) option"

definition buffer_fail :: "'q qdma_ops \<Rightarrow> buffer \<Rightarrow> errno \<Rightarrow> device_memory_map option \<Rightarrow> 'q \<Rightarrow> 'q created" where
  "buffer_fail ops b e m q = do {
     (e, m, q) \<leftarrow> cleanup_buffer ops b e m q;
     Some (Inl e, m, q)
   }"

definition finish_buffer ::
  "'q qdma_ops \<Rightarrow> qpair_add_req \<Rightarrow> u32 \<Rightarrow> buffer \<Rightarrow> device_memory_map option \<Rightarrow> 'q \<Rightarrow> 'q created" where
  "finish_buffer ops qp mm_channel b m q = do {
     (r, b, q) \<leftarrow> attach_qpairs ops qp mm_channel b q;
     case r of
       Some e \<Rightarrow> buffer_fail ops b e m q
     | None \<Rightarrow> Some (Inr b, m, q)
   }"

definition empty_buffer :: "allocation_type \<Rightarrow> u64 \<Rightarrow> u32 \<Rightarrow> u64 \<Rightarrow> buffer" where
  "empty_buffer ty arg dir client =
     \<lparr>bf_alloc_type = ty, bf_alloc_arg = arg, bf_alloc_dir = dir, bf_client_id = client, bf_addr = 0,
      bf_size = 0, bf_qids = [], bf_fd = None, bf_allocation_valid = False, bf_qpair_created = False\<rparr>"

text \<open>The tracker's answer for a wire type; an unknown type reaches its final return.\<close>

definition allocate_wire ::
  "u32 \<Rightarrow> u64 \<Rightarrow> u64 \<Rightarrow> u64 \<Rightarrow> device_memory_map \<Rightarrow> allocation option" where
  "allocate_wire alloc_type sz arg client m =
     (case alloc_type_of alloc_type of
        None \<Rightarrow> Some (ALLOCATION_RESULT_BAD_ARGUMENT, sz, 0, m)
      | Some ty \<Rightarrow> device_memory_map_allocate ty sz arg client 0 m)"

definition wire_type :: "u32 \<Rightarrow> allocation_type" where
  "wire_type v = (case alloc_type_of v of Some ty \<Rightarrow> ty | None \<Rightarrow> ALLOCATION_TYPE_DDR)"

definition buffer_init ::
  "'q qdma_ops \<Rightarrow> u32 \<Rightarrow> u32 \<Rightarrow> u64 \<Rightarrow> u64 \<Rightarrow> u64 \<Rightarrow> u32 \<Rightarrow> qpair_add_req option \<Rightarrow>
   device_memory_map option \<Rightarrow> 'q \<Rightarrow> 'q created" where
  "buffer_init ops alloc_type alloc_dir sz alloc_arg client_id mm_channel params m q =
     (let b = empty_buffer (wire_type alloc_type) alloc_arg alloc_dir client_id in
      case m of
        None \<Rightarrow> buffer_fail ops b EINVAL m q
      | Some m' \<Rightarrow>
      if sz = 0 \<or> client_id = 0 then buffer_fail ops b EINVAL m q
      else case dir_mask_of alloc_dir of
        None \<Rightarrow> buffer_fail ops b EINVAL m q
      | Some dir_mask \<Rightarrow> do {
          (ares, alloc_size, alloc_addr, m') \<leftarrow> allocate_wire alloc_type sz alloc_arg client_id m';
          let m = Some m' in
          if ares \<noteq> ALLOCATION_RESULT_SUCCESS
          then buffer_fail ops b (if ares = ALLOCATION_RESULT_NO_MEMORY then ENOMEM else EINVAL) m q
          else
            finish_buffer ops
              ((case params of Some p \<Rightarrow> p | None \<Rightarrow> default_qpair)\<lparr>qa_dir_mask := dir_mask\<rparr>) mm_channel
              (b\<lparr>bf_addr := alloc_addr, bf_size := alloc_size, bf_allocation_valid := True\<rparr>) m q
        })"

definition buffer_create ::
  "'q qdma_ops \<Rightarrow> u32 \<Rightarrow> u32 \<Rightarrow> u64 \<Rightarrow> u64 \<Rightarrow> u64 \<Rightarrow> u32 \<Rightarrow> qpair_add_req option \<Rightarrow>
   device_memory_map option \<Rightarrow> 'q \<Rightarrow> 'q created" where
  "buffer_create = buffer_init"

definition buffer_create_raw ::
  "'q qdma_ops \<Rightarrow> u64 \<Rightarrow> u64 \<Rightarrow> u32 \<Rightarrow> u64 \<Rightarrow> u32 \<Rightarrow> device_memory_map option \<Rightarrow> 'q \<Rightarrow> 'q created" where
  "buffer_create_raw ops phys_addr sz alloc_dir client_id mm_channel m q =
     (if sz = 0 then Some (Inl EINVAL, m, q)
      else case dir_mask_of alloc_dir of
        None \<Rightarrow> Some (Inl EINVAL, m, q)
      | Some dir_mask \<Rightarrow>
          finish_buffer ops (default_qpair\<lparr>qa_dir_mask := dir_mask\<rparr>) mm_channel
            ((empty_buffer ALLOCATION_TYPE_DDR 0 alloc_dir client_id)\<lparr>bf_addr := phys_addr, bf_size := sz\<rparr>) m q)"

section \<open>Buffers and the memory map\<close>

text \<open>The subregions a buffer owns, and when it is consistent with itself.\<close>

definition cells :: "buffer \<Rightarrow> (mem_class \<times> nat \<times> nat) set" where
  "cells b =
     (if bf_allocation_valid b then
        (case named_run (bf_alloc_type b) (bf_addr b) (bf_size b) of
           None \<Rightarrow> {}
         | Some (r, s, n) \<Rightarrow> {(class_of (bf_alloc_type b), r, i) | i. s \<le> i \<and> i < s + n})
      else {})"

definition buffer_ok :: "buffer \<Rightarrow> bool" where
  "buffer_ok b \<longleftrightarrow> bf_client_id b \<noteq> 0 \<and>
     (bf_allocation_valid b \<longrightarrow> bf_size b \<noteq> 0 \<and> named_run (bf_alloc_type b) (bf_addr b) (bf_size b) \<noteq> None)"

definition same_allocation :: "buffer \<Rightarrow> buffer \<Rightarrow> bool" where
  "same_allocation b b' \<longleftrightarrow> bf_alloc_type b' = bf_alloc_type b \<and> bf_client_id b' = bf_client_id b \<and>
     bf_addr b' = bf_addr b \<and> bf_size b' = bf_size b \<and> bf_allocation_valid b' = bf_allocation_valid b"

lemma same_allocation_cells: "same_allocation b b' \<Longrightarrow> cells b' = cells b \<and> buffer_ok b' = buffer_ok b"
  by (auto simp: same_allocation_def cells_def buffer_ok_def split: option.splits)

lemma map_eqI:
  assumes "\<And>u. subregion_owner m u = subregion_owner m' u"
  shows "m = (m' :: device_memory_map)"
  using assms [of "(DDR, _, _)"] assms [of "(HBM, _, _)"] by (intro device_memory_map.equality) (auto simp: fun_eq_iff)

lemma owner_run:
  "subregion_owner (with_regs ty (give r s n c (regs_of ty m)) m) u =
     (if u \<in> {(class_of ty, r, i) | i. s \<le> i \<and> i < s + n} then c else subregion_owner m u)"
  using owner_give [of ty r s n c m] by (cases u) auto

text \<open>Releasing the memory of a buffer that owns its cells.\<close>

definition release_cells :: "buffer \<Rightarrow> device_memory_map \<Rightarrow> device_memory_map \<Rightarrow> bool" where
  "release_cells b m m' \<longleftrightarrow> (\<forall>u. subregion_owner m' u = (if u \<in> cells b then 0 else subregion_owner m u))"

lemma free_cells:
  assumes "bf_allocation_valid b" "buffer_ok b" "\<forall>u\<in>cells b. subregion_owner m u = bf_client_id b"
  shows "\<exists>m'. device_memory_map_free (bf_alloc_type b) (bf_addr b) (bf_size b) (bf_client_id b) m =
      Some (ALLOCATION_RESULT_SUCCESS, m') \<and> release_cells b m m'"
proof -
  let ?ty = "bf_alloc_type b"
  obtain r s n where run: "named_run ?ty (bf_addr b) (bf_size b) = Some (r, s, n)"
    using assms(1,2) by (auto simp: buffer_ok_def)
  have c: "cells b = {(class_of ?ty, r, i) | i. s \<le> i \<and> i < s + n}" using assms(1) run by (simp add: cells_def)
  have "regs_of ?ty m r (s + i) = bf_client_id b" if "i < n" for i
    using assms(3) that owner_regs [of m ?ty r "s + i"] by (auto simp: c)
  then have "device_memory_map_free ?ty (bf_addr b) (bf_size b) (bf_client_id b) m =
      Some (ALLOCATION_RESULT_SUCCESS, with_regs ?ty (give r s n 0 (regs_of ?ty m)) m)"
    using assms run by (simp add: free_eq free_from_eq buffer_ok_def)
  then show ?thesis by (simp add: release_cells_def owner_run c)
qed

lemma free_returns: "\<exists>res m'. device_memory_map_free ty addr sz client m = Some (res, m')"
  by (auto simp: free_eq free_from_eq split: option.splits)

lemma allocate_cells:
  assumes "allocate_wire alloc_type sz arg client m = Some (ALLOCATION_RESULT_SUCCESS, sz', addr', m')"
    and "b = (empty_buffer (wire_type alloc_type) arg dir client)\<lparr>bf_addr := addr', bf_size := sz', bf_allocation_valid := True\<rparr>"
  shows "buffer_ok b" and "cells b \<noteq> {}" and "\<forall>u\<in>cells b. subregion_owner m u = 0"
    and "subregion_owner m' u = (if u \<in> cells b then client else subregion_owner m u)"
proof -
  obtain ty where ty: "alloc_type_of alloc_type = Some ty" "wire_type alloc_type = ty"
    "device_memory_map_allocate ty sz arg client 0 m = Some (ALLOCATION_RESULT_SUCCESS, sz', addr', m')"
    using assms(1) by (auto simp: allocate_wire_def wire_type_def split: option.splits)
  obtain r s n where A: "named_run ty addr' sz' = Some (r, s, n)" "0 < n" "sz' \<noteq> 0" "client \<noteq> 0"
      "run_free (regs_of ty m) r s n" "m' = with_regs ty (give r s n client (regs_of ty m)) m"
    by (rule allocated_run [OF ty(3)])
  have c: "cells b = {(class_of ty, r, i) | i. s \<le> i \<and> i < s + n}"
    using A(1) ty(2) assms(2) by (simp add: cells_def empty_buffer_def)
  show "buffer_ok b" using A ty(2) assms(2) by (simp add: buffer_ok_def empty_buffer_def)
  show "cells b \<noteq> {}" using A(2) c by auto
  show "\<forall>u\<in>cells b. subregion_owner m u = 0" using run_free_hit [OF A(5)] owner_regs c by auto
  show "subregion_owner m' u = (if u \<in> cells b then client else subregion_owner m u)" by (simp add: A(6) owner_run c)
qed

lemma allocate_refused:
  assumes "allocate_wire alloc_type sz arg client m = Some (res, sz', addr', m')" and "res \<noteq> ALLOCATION_RESULT_SUCCESS"
  shows "m' = m"
proof (cases "alloc_type_of alloc_type")
  case (Some ty)
  show ?thesis
    by (rule allocate_cases [where ty = ty and sz = sz and arg = arg and client = client and addr = 0 and m = m])
      (use assms Some in \<open>auto simp: allocate_wire_def\<close>)
qed (use assms in \<open>simp add: allocate_wire_def\<close>)

lemma allocate_returns: "\<exists>res sz' addr' m'. allocate_wire alloc_type sz arg client m = Some (res, sz', addr', m')"
proof (cases "alloc_type_of alloc_type")
  case (Some ty)
  show ?thesis
    by (rule allocate_cases [where ty = ty and sz = sz and arg = arg and client = client and addr = 0 and m = m])
      (use Some in \<open>auto simp: allocate_wire_def\<close>)
qed (simp add: allocate_wire_def)

text \<open>Owners in a map that may be missing, and buffers that own their cells there.\<close>

definition mem_owner :: "device_memory_map option \<Rightarrow> mem_class \<times> nat \<times> nat \<Rightarrow> u64" where
  "mem_owner mo u = (case mo of None \<Rightarrow> 0 | Some m \<Rightarrow> subregion_owner m u)"

definition holds_cells :: "buffer \<Rightarrow> device_memory_map option \<Rightarrow> bool" where
  "holds_cells b mo \<longleftrightarrow> buffer_ok b \<and> (\<forall>u\<in>cells b. mem_owner mo u = bf_client_id b)"

definition gives_back :: "buffer \<Rightarrow> device_memory_map option \<Rightarrow> device_memory_map option \<Rightarrow> bool" where
  "gives_back b mo mo' \<longleftrightarrow>
     (mo' = None \<longleftrightarrow> mo = None) \<and> (\<forall>u. mem_owner mo' u = (if u \<in> cells b then 0 else mem_owner mo u))"

definition takes_cells :: "buffer \<Rightarrow> device_memory_map option \<Rightarrow> device_memory_map option \<Rightarrow> bool" where
  "takes_cells b mo mo' \<longleftrightarrow> buffer_ok b \<and> (mo' = None \<longleftrightarrow> mo = None) \<and> (\<forall>u\<in>cells b. mem_owner mo u = 0) \<and>
     (\<forall>u. mem_owner mo' u = (if u \<in> cells b then bf_client_id b else mem_owner mo u))"

lemma mem_eqI:
  assumes "mo = None \<longleftrightarrow> mo' = None" and "\<And>u. mem_owner mo u = mem_owner mo' u"
  shows "mo = mo'"
  using assms map_eqI by (cases mo; cases mo') (auto simp: mem_owner_def)

lemma takes_then_gives:
  assumes "takes_cells b mo mo'" "gives_back b mo' mo''"
  shows "mo'' = mo"
proof (rule mem_eqI)
  show "mo'' = None \<longleftrightarrow> mo = None" using assms by (simp add: takes_cells_def gives_back_def)
  show "mem_owner mo'' u = mem_owner mo u" for u
    using assms unfolding takes_cells_def gives_back_def by metis
qed

lemma takes_holds: "takes_cells b mo mo' \<Longrightarrow> holds_cells b mo'"
  unfolding takes_cells_def holds_cells_def by metis

lemma same_allocation_effects:
  assumes "same_allocation b b'"
  shows "holds_cells b' mo = holds_cells b mo" "gives_back b' mo mo' = gives_back b mo mo'"
    "takes_cells b' mo mo' = takes_cells b mo mo'"
proof -
  have "cells b' = cells b" "buffer_ok b' = buffer_ok b" "bf_client_id b' = bf_client_id b"
    using same_allocation_cells [OF assms] assms by (simp_all add: same_allocation_def)
  then show "holds_cells b' mo = holds_cells b mo" "gives_back b' mo mo' = gives_back b mo mo'"
    "takes_cells b' mo mo' = takes_cells b mo mo'"
    by (simp_all add: holds_cells_def gives_back_def takes_cells_def)
qed

text \<open>The last step of the clean-up.\<close>

lemma free_gives_back:
  assumes "holds_cells b (Some m)" "bf_allocation_valid b"
  shows "ok (device_memory_map_free (bf_alloc_type b) (bf_addr b) (bf_size b) (bf_client_id b) m)
      (\<lambda>(res, m'). gives_back b (Some m) (Some m'))"
  using free_cells [of b m] assms
  by (auto simp: holds_cells_def gives_back_def release_cells_def mem_owner_def)

lemma no_cells_gives_back:
  assumes "holds_cells b mo" "mo = None \<or> \<not> bf_allocation_valid b"
  shows "gives_back b mo mo"
  using assms by (auto simp: gives_back_def holds_cells_def mem_owner_def buffer_ok_def cells_def)

section \<open>Buffers over any provider\<close>

text \<open>What creating a buffer promises: nothing on failure; on success free memory, a descriptor, one or two queue pairs.\<close>

definition created_ok ::
  "('q \<Rightarrow> bool) \<Rightarrow> u64 \<Rightarrow> device_memory_map option \<Rightarrow> (errno + buffer) \<times> device_memory_map option \<times> 'q \<Rightarrow> bool" where
  "created_ok I client mo = (\<lambda>(r, mo', q'). I q' \<and> (case r of Inl e \<Rightarrow> mo' = mo
     | Inr b \<Rightarrow> takes_cells b mo mo' \<and> bf_client_id b = client \<and> bf_fd b \<noteq> None \<and> bf_qpair_count b \<in> {1, 2}))"

context qpair_calls
begin

lemma delete_keeps_inv: "inv q \<Longrightarrow> ok (delete_qpairs ops qids e q) (\<lambda>(e', q'). inv q')"
proof (induction qids arbitrary: e q)
  case (Cons qid qids)
  show ?case
    using Cons.IH
    by (auto intro!: ok_pair [OF stop_inv [OF Cons.prems]] ok_pair [OF del_inv])
qed simp

lemma close_keeps_inv: "inv q \<Longrightarrow> ok (close_buffer_fd ops b e q) (\<lambda>(e', q'). inv q')"
  by (auto simp: close_buffer_fd_def intro!: ok_pair [OF close_inv] split: option.splits)

lemma cleanup_gives_back:
  assumes "inv q" "holds_cells b mo"
  shows "ok (cleanup_buffer ops b e mo q) (\<lambda>(e', mo', q'). inv q' \<and> gives_back b mo mo')"
proof -
  have mem: "ok (case mo of None \<Rightarrow> Some (e', mo, q') | Some m' \<Rightarrow>
      if bf_allocation_valid b then do {
        (res, m') \<leftarrow> device_memory_map_free (bf_alloc_type b) (bf_addr b) (bf_size b) (bf_client_id b) m';
        Some (e', Some m', q')
      } else Some (e', mo, q')) (\<lambda>(e', mo', q'). inv q' \<and> gives_back b mo mo')" if "inv q'" for e' q'
  proof (cases "\<exists>m. mo = Some m \<and> bf_allocation_valid b")
    case True
    then obtain m where m: "mo = Some m" "bf_allocation_valid b" by blast
    show ?thesis using m that by (auto intro!: ok_pair [OF free_gives_back [OF assms(2) [unfolded m(1)] m(2)]])
  next
    case False
    then show ?thesis using that no_cells_gives_back [OF assms(2)] by (cases mo) auto
  qed
  show ?thesis
    unfolding cleanup_buffer_def using mem
    by (auto intro!: ok_pair [OF close_keeps_inv [OF assms(1)]] ok_pair [OF delete_keeps_inv])
qed

lemma add_qpairs_inv:
  "inv q \<Longrightarrow> ok (add_qpairs ops qp chs b q) (\<lambda>(r, b', q'). inv q' \<and> same_allocation b b' \<and> bf_fd b' = bf_fd b \<and>
      (r = None \<longrightarrow> bf_qpair_count b' = bf_qpair_count b + length chs))"
proof (induction chs arbitrary: b q)
  case (Cons ch chs)
  let ?P = "\<lambda>(r, b', q'). inv q' \<and> same_allocation b b' \<and> bf_fd b' = bf_fd b \<and>
      (r = None \<longrightarrow> bf_qpair_count b' = bf_qpair_count b + length (ch # chs))"
  have more: "ok (do { (r, q) \<leftarrow> qpair_start ops qid q'; case r of
        Some e \<Rightarrow> Some (Some e, b\<lparr>bf_qids := bf_qids b @ [qid], bf_qpair_created := True\<rparr>, q)
      | None \<Rightarrow> add_qpairs ops qp chs (b\<lparr>bf_qids := bf_qids b @ [qid], bf_qpair_created := True\<rparr>) q }) ?P"
    if "inv q'" for qid q'
    unfolding ok_bind
  proof (rule ok_pair [OF start_inv [OF that, of qid]])
    fix r q1 assume "inv q1"
    then show "ok (case (r, q1) of (r, q) \<Rightarrow> case r of
        Some e \<Rightarrow> Some (Some e, b\<lparr>bf_qids := bf_qids b @ [qid], bf_qpair_created := True\<rparr>, q)
      | None \<Rightarrow> add_qpairs ops qp chs (b\<lparr>bf_qids := bf_qids b @ [qid], bf_qpair_created := True\<rparr>) q) ?P"
      using ok_mono [OF Cons.IH [of q1 "b\<lparr>bf_qids := bf_qids b @ [qid], bf_qpair_created := True\<rparr>"]]
      by (cases r) (auto simp: same_allocation_def bf_qpair_count_def)
  qed
  show ?case
    using more unfolding add_qpairs.simps ok_bind
    by (intro ok_pair [OF add_inv [OF Cons.prems]]) (auto simp: same_allocation_def Let_def split: sum.splits)
qed (simp add: same_allocation_def)

lemma attach_inv:
  assumes "inv q" "bf_qids b = []"
  shows "ok (attach_qpairs ops qp ch b q) (\<lambda>(r, b', q'). inv q' \<and> same_allocation b b' \<and>
      (case r of None \<Rightarrow> bf_fd b' \<noteq> None \<and> bf_qpair_count b' \<in> {1, 2} | Some e \<Rightarrow> bf_fd b' = bf_fd b))"
proof -
  obtain r b' q' where x: "add_qpairs ops qp (buffer_plan_qpair_channels ch) b q = Some (r, b', q')"
    "inv q'" "same_allocation b b'" "bf_fd b' = bf_fd b"
    "r = None \<longrightarrow> bf_qpair_count b' = length (buffer_plan_qpair_channels ch)"
    using ok_exists [OF add_qpairs_inv [OF assms(1)]] assms(2) by (fastforce simp: bf_qpair_count_def)
  obtain s q'' where y: "qpair_get_fd_multi ops (bf_qids b') q' = Some (s, q'')" "inv q''"
    using ok_exists [OF get_fd_inv [OF x(2)]] by fastforce
  have "length (buffer_plan_qpair_channels ch) \<in> {1, 2}" by (simp add: buffer_plan_qpair_channels_def)
  then show ?thesis
    using x y by (cases r; cases s) (auto simp: attach_qpairs_def same_allocation_def bf_qpair_count_def)
qed

lemma fail_gives_back:
  assumes "inv q" "holds_cells b mo"
  shows "ok (buffer_fail ops b e mo q) (\<lambda>(r, mo', q'). inv q' \<and> (\<exists>e'. r = Inl e') \<and> gives_back b mo mo')"
  unfolding buffer_fail_def by (auto intro!: ok_mono [OF cleanup_gives_back [OF assms]])

lemma finish_law:
  assumes "inv q" "holds_cells b mo" "bf_qids b = []"
  shows "ok (finish_buffer ops qp ch b mo q) (\<lambda>(r, mo', q'). inv q' \<and>
      (case r of Inl e \<Rightarrow> gives_back b mo mo'
       | Inr b' \<Rightarrow> mo' = mo \<and> same_allocation b b' \<and> bf_fd b' \<noteq> None \<and> bf_qpair_count b' \<in> {1, 2}))"
proof -
  obtain r b' q' where x: "attach_qpairs ops qp ch b q = Some (r, b', q')" "inv q'" "same_allocation b b'"
    "r = None \<longrightarrow> bf_fd b' \<noteq> None \<and> bf_qpair_count b' \<in> {1, 2}"
    using ok_exists [OF attach_inv [OF assms(1,3), of qp ch]] by (auto split: option.splits)
  note eff = same_allocation_effects [OF x(3)]
  have "ok (buffer_fail ops b' e mo q') (\<lambda>(r, mo', q'). inv q' \<and> (\<exists>e'. r = Inl e') \<and> gives_back b mo mo')" for e
    using fail_gives_back [OF x(2), of b' mo e] assms(2) eff by simp
  then have "ok (buffer_fail ops b' e mo q') (\<lambda>(r, mo', q'). inv q' \<and>
      (case r of Inl e \<Rightarrow> gives_back b mo mo'
       | Inr b' \<Rightarrow> mo' = mo \<and> same_allocation b b' \<and> bf_fd b' \<noteq> None \<and> bf_qpair_count b' \<in> {1, 2}))" for e
    by (rule ok_mono) auto
  then show ?thesis using x by (cases r) (simp_all add: finish_buffer_def)
qed

lemma finish_created:
  assumes "inv q" "takes_cells b mo mo1" "bf_qids b = []"
  shows "ok (finish_buffer ops qp ch b mo1 q) (created_ok inv (bf_client_id b) mo)"
proof (rule ok_mono [OF finish_law [OF assms(1) takes_holds [OF assms(2)] assms(3)]])
  fix x :: "(errno + buffer) \<times> device_memory_map option \<times> 'q"
  assume X: "(\<lambda>(r, mo', q'). inv q' \<and> (case r of Inl e \<Rightarrow> gives_back b mo1 mo'
       | Inr b' \<Rightarrow> mo' = mo1 \<and> same_allocation b b' \<and> bf_fd b' \<noteq> None \<and> bf_qpair_count b' \<in> {1, 2})) x"
  obtain r mo' q' where x: "x = (r, mo', q')" by (cases x)
  show "created_ok inv (bf_client_id b) mo x"
  proof (cases r)
    case (Inl e)
    then have "mo' = mo" using X x takes_then_gives [OF assms(2)] by simp
    then show ?thesis using X x Inl by (simp add: created_ok_def)
  next
    case (Inr b')
    then have same: "same_allocation b b'" "mo' = mo1" using X x by simp_all
    then have "takes_cells b' mo mo'" using same_allocation_effects(3) [OF same(1)] assms(2) by simp
    moreover have "bf_client_id b' = bf_client_id b" using same(1) by (simp add: same_allocation_def)
    ultimately show ?thesis using X x Inr by (simp add: created_ok_def)
  qed
qed

lemma create_law:
  assumes "inv q" "client \<noteq> 0"
  shows "ok (buffer_create ops ty dir sz arg client ch params mo q) (created_ok inv client mo)"
proof -
  let ?b = "empty_buffer (wire_type ty) arg dir client"
  have e: "cells ?b = {}" "holds_cells ?b mo'" for mo'
    using assms(2) by (simp_all add: holds_cells_def cells_def buffer_ok_def empty_buffer_def)
  have same: "gives_back ?b mo' mo'' \<longleftrightarrow> mo'' = mo'" for mo' mo''
    using mem_eqI [of mo'' mo'] e by (auto simp: gives_back_def)
  have fail: "ok (buffer_fail ops ?b er mo q) (created_ok inv client mo)" for er
    by (rule ok_mono [OF fail_gives_back [OF assms(1) e(2)]]) (auto simp: created_ok_def same)
  have fin: "ok (finish_buffer ops qp ch (?b\<lparr>bf_addr := a, bf_size := s, bf_allocation_valid := True\<rparr>) (Some m') q)
      (created_ok inv client mo)"
    if "mo = Some m" "allocate_wire ty sz arg client m = Some (ALLOCATION_RESULT_SUCCESS, s, a, m')" for qp s a m m'
  proof -
    let ?b' = "?b\<lparr>bf_addr := a, bf_size := s, bf_allocation_valid := True\<rparr>"
    have c: "bf_client_id ?b' = client" by (simp add: empty_buffer_def)
    have A: "buffer_ok ?b'" "\<forall>u\<in>cells ?b'. subregion_owner m u = 0"
      "subregion_owner m' u = (if u \<in> cells ?b' then client else subregion_owner m u)" for u
      by (rule allocate_cells [OF that(2) refl])+
    have t: "takes_cells ?b' mo (Some m')"
      unfolding takes_cells_def mem_owner_def that(1) option.case c by (intro conjI allI A) simp
    then show ?thesis using finish_created [OF assms(1) t] c by (simp add: empty_buffer_def)
  qed
  show ?thesis
  proof (cases "mo = None \<or> sz = 0 \<or> dir_mask_of dir = None")
    case True
    then show ?thesis using fail by (cases mo; cases "dir_mask_of dir") (auto simp: buffer_create_def buffer_init_def Let_def)
  next
    case False
    then obtain m dm where md: "mo = Some m" "dir_mask_of dir = Some dm" "sz \<noteq> 0" by auto
    obtain res s a m' where al: "allocate_wire ty sz arg client m = Some (res, s, a, m')" using allocate_returns by metis
    show ?thesis
    proof (cases "res = ALLOCATION_RESULT_SUCCESS")
      case True
      then show ?thesis using fin md al assms(2) by (simp add: buffer_create_def buffer_init_def Let_def)
    next
      case False
      then have "m' = m" using allocate_refused [OF al] by blast
      then show ?thesis using fail False md al assms(2) by (simp add: buffer_create_def buffer_init_def Let_def)
    qed
  qed
qed

lemma raw_law:
  assumes "inv q" "client \<noteq> 0"
  shows "ok (buffer_create_raw ops addr sz dir client ch mo q) (created_ok inv client mo)"
proof -
  let ?b = "(empty_buffer ALLOCATION_TYPE_DDR 0 dir client)\<lparr>bf_addr := addr, bf_size := sz\<rparr>"
  have e: "cells ?b = {}" "takes_cells ?b mo mo" "bf_qids ?b = []" "bf_client_id ?b = client"
    using assms(2) by (simp_all add: cells_def buffer_ok_def empty_buffer_def takes_cells_def)
  have "ok (finish_buffer ops qp ch ?b mo q) (created_ok inv client mo)" for qp
    using finish_created [OF assms(1) e(2,3)] e(4) by simp
  then show ?thesis
    using assms(1) by (cases "dir_mask_of dir") (simp_all add: buffer_create_raw_def created_ok_def)
qed

end

context qpair_provider
begin

lemma inv_step:
  assumes "inv q"
  shows "qpair_add ops req q = Some (r, q') \<Longrightarrow> inv q'" "qpair_start ops qid q = Some (t, q') \<Longrightarrow> inv q'"
    "qpair_stop ops qid q = Some (t, q') \<Longrightarrow> inv q'" "qpair_del ops qid q = Some (t, q') \<Longrightarrow> inv q'"
  using add_inv [OF assms, of req] start_inv [OF assms, of qid] stop_inv [OF assms, of qid] del_inv [OF assms, of qid]
  by auto

lemma delete_live:
  assumes "inv q" "distinct qids" "set qids \<subseteq> live q" "delete_qpairs ops qids e q = Some (e', q')"
  shows "fds q' = fds q \<and> live q' = live q - set qids"
  using assms
proof (induction qids arbitrary: e q)
  case (Cons qid qids)
  then obtain r1 q1 r2 q2 where s: "qpair_stop ops qid q = Some (r1, q1)" "qpair_del ops qid q1 = Some (r2, q2)"
    "delete_qpairs ops qids (set_errno r2 (set_errno r1 e)) q2 = Some (e', q')"
    by (auto simp: bind_eq_Some_conv)
  have i: "inv q1" "inv q2" using inv_step(3) [OF Cons.prems(1) s(1)] inv_step(4) [OF _ s(2)] by blast+
  have l: "fds q1 = fds q" "live q1 = live q" using stop_law [OF Cons.prems(1) s(1)] by auto
  then have l2: "fds q2 = fds q" "live q2 = live q - {qid}" using del_law [OF i(1) _ s(2)] Cons.prems(3) by auto
  then show ?case using Cons.IH [OF i(2) _ _ s(3)] Cons.prems(2,3) by auto
qed simp

lemma add_live:
  assumes "inv q" "add_qpairs ops qp chs b q = Some (r, b', q')"
  shows "\<exists>new. bf_qids b' = bf_qids b @ new \<and> distinct new \<and> set new \<inter> live q = {} \<and> live q' = live q \<union> set new \<and>
      fds q' = fds q \<and> bf_fd b' = bf_fd b \<and> (new = [] \<longrightarrow> bf_qpair_created b' = bf_qpair_created b) \<and>
      (new \<noteq> [] \<longrightarrow> bf_qpair_created b') \<and> inv q'"
  using assms
proof (induction chs arbitrary: b q)
  case (Cons ch chs)
  obtain s q1 where s: "qpair_add ops (qp\<lparr>qa_mm_channel := ch\<rparr>) q = Some (s, q1)"
    using Cons.prems(2) by (auto simp: bind_eq_Some_conv)
  have i: "inv q1" by (rule inv_step(1) [OF Cons.prems(1) s])
  note a = add_law [OF Cons.prems(1) s]
  show ?case
  proof (cases s)
    case (Inl e)
    then show ?thesis using a s i Cons.prems(2) by (intro exI [of _ "[]"]) auto
  next
    case (Inr qid)
    let ?b = "b\<lparr>bf_qids := bf_qids b @ [qid], bf_qpair_created := True\<rparr>"
    obtain t q2 where t: "qpair_start ops qid q1 = Some (t, q2)"
      using Cons.prems(2) s Inr by (auto simp: bind_eq_Some_conv Let_def)
    have i2: "inv q2" by (rule inv_step(2) [OF i t])
    have l: "fds q2 = fds q" "live q2 = insert qid (live q)" "qid \<notin> live q" using start_law [OF i t] a Inr by auto
    show ?thesis
    proof (cases t)
      case None
      then have "add_qpairs ops qp chs ?b q2 = Some (r, b', q')" using Cons.prems(2) s Inr t by simp
      from Cons.IH [OF i2 this] obtain new where new: "bf_qids b' = bf_qids ?b @ new" "distinct new"
        "set new \<inter> live q2 = {}" "live q' = live q2 \<union> set new" "fds q' = fds q2" "bf_fd b' = bf_fd ?b"
        "new = [] \<longrightarrow> bf_qpair_created b' = bf_qpair_created ?b" "new \<noteq> [] \<longrightarrow> bf_qpair_created b'" "inv q'"
        by blast
      then show ?thesis using l by (intro exI [of _ "qid # new"]) auto
    next
      case (Some e)
      then show ?thesis using l i2 s Inr t Cons.prems(2) by (intro exI [of _ "[qid]"]) auto
    qed
  qed
qed auto

lemma attach_failed:
  assumes "inv q" "attach_qpairs ops qp ch b q = Some (Some e, b', q')"
    and "bf_qids b = []" "bf_fd b = None" "\<not> bf_qpair_created b"
  shows "inv q' \<and> bf_fd b' = None \<and> (bf_qpair_created b' \<or> bf_qids b' = []) \<and> distinct (bf_qids b') \<and>
      set (bf_qids b') \<inter> live q = {} \<and> live q' = live q \<union> set (bf_qids b') \<and> fds q' = fds q"
proof -
  obtain r b1 q1 where a: "add_qpairs ops qp (buffer_plan_qpair_channels ch) b q = Some (r, b1, q1)"
    using assms(2) by (auto simp: attach_qpairs_def bind_eq_Some_conv)
  have l: "distinct (bf_qids b1)" "set (bf_qids b1) \<inter> live q = {}" "live q1 = live q \<union> set (bf_qids b1)" "fds q1 = fds q"
    "bf_fd b1 = None" "bf_qpair_created b1 \<or> bf_qids b1 = []" "inv q1"
    using add_live [OF assms(1) a] assms(3-5) by auto
  obtain s q2 where g: "qpair_get_fd_multi ops (bf_qids b1) q1 = Some (s, q2)" "inv q2"
    using ok_exists [OF get_fd_inv [OF l(7), of "bf_qids b1"]] by auto
  show ?thesis
  proof (cases r)
    case None
    then obtain e' where "s = Inl e'" "b' = b1" "q' = q2"
      using assms(2) a g by (cases s) (auto simp: attach_qpairs_def)
    then show ?thesis using get_fd_law [OF l(7) g(1)] g(2) l by simp
  next
    case (Some e')
    then have "b' = b1" "q' = q1" using assms(2) a by (simp_all add: attach_qpairs_def)
    then show ?thesis using l by simp
  qed
qed

lemma failed_cleanup:
  assumes "inv q" "cleanup_buffer ops b e mo q = Some (e', mo', q')" "bf_fd b = None"
    "bf_qpair_created b \<or> bf_qids b = []" "distinct (bf_qids b)" "set (bf_qids b) \<subseteq> live q"
  shows "live q' = live q - set (bf_qids b) \<and> fds q' = fds q"
proof -
  obtain e1 where d: "delete_qpairs ops (bf_qids b) e q = Some (e1, q')"
    using assms(2-4)
    by (cases "bf_qpair_created b") (auto simp: cleanup_buffer_def close_buffer_fd_def bind_eq_Some_conv split: option.splits if_splits)
  then show ?thesis using delete_live [OF assms(1,5,6) d] by blast
qed

lemma finish_undo:
  assumes "inv q" "finish_buffer ops qp ch b mo q = Some (Inl e, mo', q')"
    and "bf_qids b = []" "bf_fd b = None" "\<not> bf_qpair_created b"
  shows "live q' = live q \<and> fds q' = fds q"
proof -
  obtain e1 b1 q1 e2 where x: "attach_qpairs ops qp ch b q = Some (Some e1, b1, q1)"
    "cleanup_buffer ops b1 e1 mo q1 = Some (e2, mo', q')"
    using assms(2) by (auto simp: finish_buffer_def buffer_fail_def bind_eq_Some_conv split: option.splits)
  note a = attach_failed [OF assms(1) x(1) assms(3-5)]
  then have "live q' = live q1 - set (bf_qids b1) \<and> fds q' = fds q1" by (intro failed_cleanup [OF _ x(2)]) auto
  then show ?thesis using a by auto
qed

lemma create_undo:
  assumes "inv q" "buffer_create ops ty dir sz arg client ch params mo q = Some (Inl e, mo', q')"
  shows "live q' = live q \<and> fds q' = fds q"
proof -
  have fail: "live q' = live q \<and> fds q' = fds q"
    if "buffer_fail ops (empty_buffer t arg dir c) er mo1 q = Some (Inl e, mo', q')" for t c er mo1
    using that failed_cleanup [OF assms(1), of "empty_buffer t arg dir c" er mo1]
    by (auto simp: buffer_fail_def empty_buffer_def bind_eq_Some_conv)
  have fin: "live q' = live q \<and> fds q' = fds q"
    if "finish_buffer ops qp ch ((empty_buffer t arg dir client)\<lparr>bf_addr := a, bf_size := s, bf_allocation_valid := True\<rparr>) mo1 q =
      Some (Inl e, mo', q')" for qp t a s mo1
    by (rule finish_undo [OF assms(1) that]) (simp_all add: empty_buffer_def)
  show ?thesis
    using assms(2) unfolding buffer_create_def buffer_init_def Let_def
    by (auto simp: bind_eq_Some_conv dest: fail fin split: option.splits if_splits)
qed

lemma raw_undo:
  assumes "inv q" "buffer_create_raw ops addr sz dir client ch mo q = Some (Inl e, mo', q')"
  shows "live q' = live q \<and> fds q' = fds q"
  using assms(2) finish_undo [OF assms(1)]
  by (fastforce simp: buffer_create_raw_def empty_buffer_def split: option.splits if_splits)

end

section \<open>Opening a buffer is all or nothing\<close>


text \<open>A device the daemon has opened, on a libqdma whose calls succeed.\<close>

definition quiet_lib :: "unit libqdma" where
  "quiet_lib =
     \<lparr>qdma_queue_add = (\<lambda>c h. (Inr (2 * unat (qc_qidx c) + (if qc_q_type c = Q_H2C then 0 else 1)), h)),
      qdma_queue_config = (\<lambda>hn c h. (None, h)), qdma_queue_start = (\<lambda>hn h. (None, h)),
      qdma_queue_stop = (\<lambda>hn h. (None, h)), qdma_queue_remove = (\<lambda>hn h. (None, h)),
      qdma_get_queue_state = (\<lambda>hn h. (Inr Q_STATE_ENABLED, h)), qdma_device_close = (\<lambda>h. (None, h))\<rparr>"

definition opened_dev :: "unit qdma_dev" where
  "opened_dev = (probed_dev ())\<lparr>qd_ref := 2, qd_ctl := 1\<rparr>"

lemma opened_up: "driver_up quiet_lib opened_dev"
proof -
  have "slash_qdma_fop_open (probed_dev ()) = Some (None, opened_dev)"
    by (simp add: slash_qdma_fop_open_def usable_def dev_get_def probed_dev_def opened_dev_def)
  moreover have "ok (slash_qdma_fop_open (probed_dev ())) (\<lambda>(r, d). counted d)"
    by (rule counted_open [OF counted_probed]) (simp add: probed_dev_def)
  ultimately have "counted opened_dev" by simp
  then show ?thesis
    by (simp add: driver_up_def driver_inv_def lib_reliable_def quiet_lib_def usable_def opened_dev_def probed_dev_def)
qed


end
