(* ===== verification/Vrtd_Serve.thy ===== *)
theory Vrtd_Serve
  imports Vrtd_Auth Vrtd_Buffer
begin

text \<open>
  The daemon's handling of buffers and queue pairs, from \<^verbatim>\<open>vrt/vrtd/src/serve.c\<close> and \<^verbatim>\<open>accept.c\<close>: clients
  connect, their requests are authorised and executed or held back while a device operation runs in
  the background, and what a client owns is released when it disconnects.

  \<open>ops\<close> are the libslash calls of \<^verbatim>\<open>Slash_Qdma_Calls\<close>. A device without QDMA or memory map has \<open>None\<close>
  there. The \<open>None\<close> of a result is a fault: a buffer released through a QDMA handle the device no longer has, or
  a fault of the provider. Background operations (flashing, hot-plug) appear only through the flag
  they raise and the completion the timer sees; what they do to the device table is left out. Heap
  allocation succeeds and the tables hold no null pointers.
\<close>

section \<open>State\<close>

record 'q device =
  dv_bdf :: string
  dv_qdma :: "'q option"
  dv_map :: "device_memory_map option"
  dv_buffers :: "buffer list"

datatype vrtd_ret =
    VRTD_RET_OK
  | VRTD_RET_BAD_LIB_CALL
  | VRTD_RET_BAD_CONN
  | VRTD_RET_BAD_REQUEST
  | VRTD_RET_INVALID_ARGUMENT
  | VRTD_RET_NOEXIST
  | VRTD_RET_INTERNAL_ERROR
  | VRTD_RET_AUTH_ERROR
  | VRTD_RET_BUSY
  | VRTD_RET_SHELL_LOCKED

record req_buffer_open =
  bo_dev_number :: u32
  bo_alloc_type :: u32
  bo_alloc_dir :: u32
  bo_mm_channel :: u32
  bo_alloc_arg :: u64
  bo_size :: u64

record req_buffer_open_raw =
  br_dev_number :: u32
  br_alloc_dir :: u32
  br_mm_channel :: u32
  br_phys_addr :: u64
  br_size :: u64

record req_buffer_close =
  bc_dev_number :: u32
  bc_phys_addr :: u64
  bc_size :: u64

datatype vrtd_request =
    VRTD_REQ_QDMA_QPAIR_ADD u32 qpair_add_req
  | VRTD_REQ_QDMA_QPAIR_OP u32 u32 u32
  | VRTD_REQ_QDMA_QPAIR_GET_FD u32 u32 u32
  | VRTD_REQ_BUFFER_OPEN req_buffer_open
  | VRTD_REQ_BUFFER_OPEN_RAW req_buffer_open_raw
  | VRTD_REQ_BUFFER_CLOSE req_buffer_close

text \<open>The body of a reply: allocated size and address, queue-pair count or id, and the descriptor sent along.\<close>

datatype reply_body =
    Reply_none
  | Reply_qid u32
  | Reply_fd nat
  | Reply_buffer u64 u64 u32 nat
  | Reply_raw u32 nat

type_synonym reply = "vrtd_ret \<times> reply_body"

text \<open>
  A connected client: \<open>se_request\<close> is the message in its input buffer, with the mark of a body shorter
  than its type, \<open>se_response\<close> the reply not sent yet.
\<close>

record session =
  se_client :: client
  se_request :: "(bool \<times> vrtd_request) option"
  se_response :: "reply option"

record 'q vrtd =
  vs_config :: config
  vs_devices :: "'q device list"
  vs_clients :: "session list"
  vs_next_conn_id :: u64
  vs_flash_worker :: bool
  vs_async :: bool
  vs_deferred :: "u64 list"

type_synonym 'q handled = "(reply \<times> 'q vrtd) option"

definition put_device :: "nat \<Rightarrow> 'q device \<Rightarrow> 'q vrtd \<Rightarrow> 'q vrtd" where
  "put_device n d s = s\<lparr>vs_devices := (vs_devices s)[n := d]\<rparr>"

definition refuse :: "vrtd_ret \<Rightarrow> 'q vrtd \<Rightarrow> 'q handled" where
  "refuse r s = Some ((r, Reply_none), s)"

text \<open>The authorisation that opens every handler; it caches the client's role.\<close>

definition authorize :: "auth_request \<Rightarrow> nat \<Rightarrow> u32 \<Rightarrow> 'q vrtd \<Rightarrow> bool \<times> 'q vrtd" where
  "authorize auth i dev_number s =
     (let se = vs_clients s ! i;
          (authorized, c, log) = auth (vs_config s) (map dv_bdf (vs_devices s)) (se_client se) dev_number
      in (authorized, s\<lparr>vs_clients := (vs_clients s)[i := se\<lparr>se_client := c\<rparr>]\<rparr>))"

section \<open>Queue-pair requests\<close>

text \<open>The checks the three handlers share, then the call on the device's QDMA handle.\<close>

definition with_qdma ::
  "auth_request \<Rightarrow> nat \<Rightarrow> bool \<Rightarrow> u32 \<Rightarrow> ('q \<Rightarrow> (reply \<times> 'q) option) \<Rightarrow> 'q vrtd \<Rightarrow> 'q handled" where
  "with_qdma auth i short dev_number f s =
     (let (authorized, s) = authorize auth i dev_number s; n = unat dev_number in
      if \<not> authorized then refuse VRTD_RET_AUTH_ERROR s
      else if short then refuse VRTD_RET_BAD_REQUEST s
      else if n \<ge> length (vs_devices s) then refuse VRTD_RET_NOEXIST s
      else case dv_qdma (vs_devices s ! n) of
        None \<Rightarrow> refuse VRTD_RET_NOEXIST s
      | Some q \<Rightarrow> do {
          (r, q) \<leftarrow> f q;
          Some (r, put_device n ((vs_devices s ! n)\<lparr>dv_qdma := Some q\<rparr>) s)
        })"

definition client_handle_request_qdma_qpair_add ::
  "'q qdma_ops \<Rightarrow> nat \<Rightarrow> bool \<Rightarrow> u32 \<Rightarrow> qpair_add_req \<Rightarrow> 'q vrtd \<Rightarrow> 'q handled" where
  "client_handle_request_qdma_qpair_add ops i short dev_number req =
     with_qdma auth_request_qdma_qpair_add i short dev_number (\<lambda>q. do {
       (r, q) \<leftarrow> qpair_add ops req q;
       Some (case r of Inl e \<Rightarrow> (VRTD_RET_INTERNAL_ERROR, Reply_none) | Inr qid \<Rightarrow> (VRTD_RET_OK, Reply_qid qid), q)
     })"

definition client_handle_request_qdma_qpair_op ::
  "'q qdma_ops \<Rightarrow> nat \<Rightarrow> bool \<Rightarrow> u32 \<Rightarrow> u32 \<Rightarrow> u32 \<Rightarrow> 'q vrtd \<Rightarrow> 'q handled" where
  "client_handle_request_qdma_qpair_op ops i short dev_number qid opcode =
     with_qdma auth_request_qdma_qpair_op i short dev_number (\<lambda>q.
       if opcode > SLASH_QDMA_QUEUE_OP_DEL then Some ((VRTD_RET_INVALID_ARGUMENT, Reply_none), q)
       else do {
         (r, q) \<leftarrow> (if opcode = SLASH_QDMA_QUEUE_OP_START then qpair_start ops qid q
                    else if opcode = SLASH_QDMA_QUEUE_OP_STOP then qpair_stop ops qid q
                    else qpair_del ops qid q);
         Some (case r of Some e \<Rightarrow> (VRTD_RET_INTERNAL_ERROR, Reply_none) | None \<Rightarrow> (VRTD_RET_OK, Reply_none), q)
       })"

definition client_handle_request_qdma_qpair_get_fd ::
  "'q qdma_ops \<Rightarrow> nat \<Rightarrow> bool \<Rightarrow> u32 \<Rightarrow> u32 \<Rightarrow> u32 \<Rightarrow> 'q vrtd \<Rightarrow> 'q handled" where
  "client_handle_request_qdma_qpair_get_fd ops i short dev_number qid flags =
     with_qdma auth_request_qdma_qpair_get_fd i short dev_number (\<lambda>q. do {
       (r, q) \<leftarrow> qpair_get_fd ops qid flags q;
       Some (case r of Inl e \<Rightarrow> (VRTD_RET_INTERNAL_ERROR, Reply_none) | Inr fd \<Rightarrow> (VRTD_RET_OK, Reply_fd fd), q)
     })"

section \<open>Opening buffers\<close>

text \<open>
  The end of both open handlers: a buffer without one or two queue pairs or without a descriptor is
  released, any other joins the device's list.
\<close>

definition keep_buffer ::
  "'q qdma_ops \<Rightarrow> (buffer \<Rightarrow> reply_body) \<Rightarrow> nat \<Rightarrow> buffer \<Rightarrow> device_memory_map option \<Rightarrow> 'q \<Rightarrow> 'q vrtd \<Rightarrow> 'q handled" where
  "keep_buffer ops body n b mo q s =
     (let d = vs_devices s ! n in
      if bf_qpair_count b = 0 \<or> bf_qpair_count b > VRTD_BUFFER_MAX_QPAIR_FDS \<or> bf_fd b = None then do {
        (e, mo, q) \<leftarrow> cleanup_buffer ops b 0 mo q;
        refuse VRTD_RET_INTERNAL_ERROR (put_device n (d\<lparr>dv_map := mo, dv_qdma := Some q\<rparr>) s)
      }
      else Some ((VRTD_RET_OK, body b),
             put_device n (d\<lparr>dv_map := mo, dv_qdma := Some q, dv_buffers := dv_buffers d @ [b]\<rparr>) s))"

definition client_handle_request_buffer_open ::
  "'q qdma_ops \<Rightarrow> nat \<Rightarrow> bool \<Rightarrow> req_buffer_open \<Rightarrow> 'q vrtd \<Rightarrow> 'q handled" where
  "client_handle_request_buffer_open ops i short req s =
     (let (authorized, s) = authorize auth_request_buffer_open i (bo_dev_number req) s;
          n = unat (bo_dev_number req);
          client_id = cl_conn_id (se_client (vs_clients s ! i))
      in
      if \<not> authorized then refuse VRTD_RET_AUTH_ERROR s
      else if short then refuse VRTD_RET_BAD_REQUEST s
      else if n \<ge> length (vs_devices s) then refuse VRTD_RET_NOEXIST s
      else if bo_size req = 0 then refuse VRTD_RET_INVALID_ARGUMENT s
      else if bo_mm_channel req > SLASH_QDMA_MM_CHANNEL_1 then refuse VRTD_RET_INVALID_ARGUMENT s
      else let d = vs_devices s ! n in
        if dv_map d = None then refuse VRTD_RET_NOEXIST s
        else case dv_qdma d of
          None \<Rightarrow> refuse VRTD_RET_NOEXIST s
        | Some q \<Rightarrow>
            if client_id = 0 then refuse VRTD_RET_INTERNAL_ERROR s
            else do {
              (r, mo, q) \<leftarrow> buffer_create ops (bo_alloc_type req) (bo_alloc_dir req) (bo_size req)
                              (bo_alloc_arg req) client_id (bo_mm_channel req) None (dv_map d) q;
              case r of
                Inl e \<Rightarrow>
                  refuse (if e = EINVAL then VRTD_RET_INVALID_ARGUMENT
                          else if e = ENOMEM then VRTD_RET_BUSY else VRTD_RET_INTERNAL_ERROR)
                    (put_device n (d\<lparr>dv_map := mo, dv_qdma := Some q\<rparr>) s)
              | Inr b \<Rightarrow>
                  keep_buffer ops
                    (\<lambda>b. Reply_buffer (bf_size b) (bf_addr b) (of_nat (bf_qpair_count b)) (the (bf_fd b))) n b mo q s
            })"

definition client_handle_request_buffer_open_raw ::
  "'q qdma_ops \<Rightarrow> nat \<Rightarrow> bool \<Rightarrow> req_buffer_open_raw \<Rightarrow> 'q vrtd \<Rightarrow> 'q handled" where
  "client_handle_request_buffer_open_raw ops i short req s =
     (let (authorized, s) = authorize auth_request_buffer_open_raw i (br_dev_number req) s;
          n = unat (br_dev_number req);
          client_id = cl_conn_id (se_client (vs_clients s ! i))
      in
      if \<not> authorized then refuse VRTD_RET_AUTH_ERROR s
      else if short then refuse VRTD_RET_BAD_REQUEST s
      else if n \<ge> length (vs_devices s) then refuse VRTD_RET_NOEXIST s
      else if br_size req = 0 then refuse VRTD_RET_INVALID_ARGUMENT s
      else if br_mm_channel req > SLASH_QDMA_MM_CHANNEL_1 then refuse VRTD_RET_INVALID_ARGUMENT s
      else let d = vs_devices s ! n in
        case dv_qdma d of
          None \<Rightarrow> refuse VRTD_RET_NOEXIST s
        | Some q \<Rightarrow>
            if client_id = 0 then refuse VRTD_RET_INTERNAL_ERROR s
            else do {
              (r, mo, q) \<leftarrow> buffer_create_raw ops (br_phys_addr req) (br_size req) (br_alloc_dir req) client_id
                              (br_mm_channel req) (dv_map d) q;
              case r of
                Inl e \<Rightarrow>
                  refuse (if e = EINVAL then VRTD_RET_INVALID_ARGUMENT else VRTD_RET_INTERNAL_ERROR)
                    (put_device n (d\<lparr>dv_map := mo, dv_qdma := Some q\<rparr>) s)
              | Inr b \<Rightarrow>
                  keep_buffer ops (\<lambda>b. Reply_raw (of_nat (bf_qpair_count b)) (the (bf_fd b))) n b mo q s
            })"

section \<open>Closing buffers\<close>

text \<open>
  The scan for the buffer to close: its index, and whether one with this address and size belongs to
  another client, or one with this address has another size.
\<close>

fun find_buffer :: "u64 \<Rightarrow> u64 \<Rightarrow> u64 \<Rightarrow> nat \<Rightarrow> bool \<Rightarrow> bool \<Rightarrow> buffer list \<Rightarrow> nat option \<times> bool \<times> bool" where
  "find_buffer conn_id addr sz i foreign mismatch [] = (None, foreign, mismatch)"
| "find_buffer conn_id addr sz i foreign mismatch (b # bs) =
     (if bf_addr b \<noteq> addr then find_buffer conn_id addr sz (i + 1) foreign mismatch bs
      else if bf_size b \<noteq> sz then find_buffer conn_id addr sz (i + 1) foreign True bs
      else if bf_client_id b \<noteq> conn_id then find_buffer conn_id addr sz (i + 1) True mismatch bs
      else (Some i, foreign, mismatch))"

text \<open>Removal by reference runs the clean-up and closes the gap.\<close>

definition rm_buffer :: "'q qdma_ops \<Rightarrow> nat \<Rightarrow> 'q device \<Rightarrow> 'q device option" where
  "rm_buffer ops i d = do {
     q \<leftarrow> dv_qdma d;
     (e, mo, q) \<leftarrow> cleanup_buffer ops (dv_buffers d ! i) 0 (dv_map d) q;
     Some (d\<lparr>dv_map := mo, dv_qdma := Some q, dv_buffers := take i (dv_buffers d) @ drop (i + 1) (dv_buffers d)\<rparr>)
   }"

definition client_handle_request_buffer_close ::
  "'q qdma_ops \<Rightarrow> nat \<Rightarrow> bool \<Rightarrow> req_buffer_close \<Rightarrow> 'q vrtd \<Rightarrow> 'q handled" where
  "client_handle_request_buffer_close ops i short req s =
     (let (authorized, s) = authorize auth_request_buffer_close i (bc_dev_number req) s;
          n = unat (bc_dev_number req);
          conn_id = cl_conn_id (se_client (vs_clients s ! i))
      in
      if \<not> authorized then refuse VRTD_RET_AUTH_ERROR s
      else if short then refuse VRTD_RET_BAD_REQUEST s
      else if n \<ge> length (vs_devices s) then refuse VRTD_RET_NOEXIST s
      else if bc_size req = 0 then refuse VRTD_RET_INVALID_ARGUMENT s
      else let d = vs_devices s ! n in
        case find_buffer conn_id (bc_phys_addr req) (bc_size req) 0 False False (dv_buffers d) of
          (None, foreign, mismatch) \<Rightarrow>
            refuse (if foreign then VRTD_RET_AUTH_ERROR
                    else if mismatch then VRTD_RET_INVALID_ARGUMENT else VRTD_RET_NOEXIST) s
        | (Some k, _) \<Rightarrow> do {
            d \<leftarrow> rm_buffer ops k d;
            Some ((VRTD_RET_OK, Reply_none), put_device n d s)
          })"

section \<open>Dispatch\<close>

fun dispatch :: "'q qdma_ops \<Rightarrow> nat \<Rightarrow> bool \<Rightarrow> vrtd_request \<Rightarrow> 'q vrtd \<Rightarrow> 'q handled" where
  "dispatch ops i short (VRTD_REQ_QDMA_QPAIR_ADD dev req) s =
     client_handle_request_qdma_qpair_add ops i short dev req s"
| "dispatch ops i short (VRTD_REQ_QDMA_QPAIR_OP dev qid opcode) s =
     client_handle_request_qdma_qpair_op ops i short dev qid opcode s"
| "dispatch ops i short (VRTD_REQ_QDMA_QPAIR_GET_FD dev qid flags) s =
     client_handle_request_qdma_qpair_get_fd ops i short dev qid flags s"
| "dispatch ops i short (VRTD_REQ_BUFFER_OPEN req) s = client_handle_request_buffer_open ops i short req s"
| "dispatch ops i short (VRTD_REQ_BUFFER_OPEN_RAW req) s = client_handle_request_buffer_open_raw ops i short req s"
| "dispatch ops i short (VRTD_REQ_BUFFER_CLOSE req) s = client_handle_request_buffer_close ops i short req s"

definition put_session :: "nat \<Rightarrow> session \<Rightarrow> 'q vrtd \<Rightarrow> 'q vrtd" where
  "put_session i se s = s\<lparr>vs_clients := (vs_clients s)[i := se]\<rparr>"

definition client_handle_request :: "'q qdma_ops \<Rightarrow> nat \<Rightarrow> 'q vrtd \<Rightarrow> 'q vrtd option" where
  "client_handle_request ops i s =
     (case se_request (vs_clients s ! i) of
        None \<Rightarrow> Some s
      | Some (short, req) \<Rightarrow> do {
          (r, s) \<leftarrow> dispatch ops i short req s;
          Some (put_session i ((vs_clients s ! i)\<lparr>se_request := None, se_response := Some r\<rparr>) s)
        })"

section \<open>Connections\<close>

definition create_client :: "u32 \<Rightarrow> u32 list \<Rightarrow> 'q vrtd \<Rightarrow> 'q vrtd" where
  "create_client uid gids s =
     (let conn_id = (if vs_next_conn_id s + 1 = 0 then 1 else vs_next_conn_id s + 1) in
      s\<lparr>vs_next_conn_id := conn_id,
        vs_clients := vs_clients s @
          [\<lparr>se_client = \<lparr>cl_uid = uid, cl_gids = gids, cl_conn_id = conn_id, cl_role = None\<rparr>,
            se_request = None, se_response = None\<rparr>]\<rparr>)"

text \<open>Walk over a device's buffers: those of the connection are released, the others kept in order.\<close>

fun sweep :: "'q qdma_ops \<Rightarrow> u64 \<Rightarrow> buffer list \<Rightarrow> buffer list \<Rightarrow> device_memory_map option \<Rightarrow> 'q \<Rightarrow>
    (buffer list \<times> device_memory_map option \<times> 'q) option" where
  "sweep ops conn_id kept [] mo q = Some (kept, mo, q)"
| "sweep ops conn_id kept (b # bs) mo q =
     (if bf_client_id b \<noteq> conn_id then sweep ops conn_id (kept @ [b]) bs mo q
      else do {
        (e, mo, q) \<leftarrow> cleanup_buffer ops b 0 mo q;
        sweep ops conn_id kept bs mo q
      })"

definition sweep_device :: "'q qdma_ops \<Rightarrow> u64 \<Rightarrow> 'q device \<Rightarrow> 'q device option" where
  "sweep_device ops conn_id d =
     (if \<forall>b\<in>set (dv_buffers d). bf_client_id b \<noteq> conn_id then Some d
      else do {
        q \<leftarrow> dv_qdma d;
        (bs, mo, q) \<leftarrow> sweep ops conn_id [] (dv_buffers d) (dv_map d) q;
        Some (d\<lparr>dv_map := mo, dv_qdma := Some q, dv_buffers := bs\<rparr>)
      })"

fun sweep_devices :: "'q qdma_ops \<Rightarrow> u64 \<Rightarrow> 'q device list \<Rightarrow> 'q device list option" where
  "sweep_devices ops conn_id [] = Some []"
| "sweep_devices ops conn_id (d # ds) = do {
     d \<leftarrow> sweep_device ops conn_id d;
     ds \<leftarrow> sweep_devices ops conn_id ds;
     Some (d # ds)
   }"

definition cleanup_buffers_for_conn_id :: "'q qdma_ops \<Rightarrow> u64 \<Rightarrow> 'q vrtd \<Rightarrow> 'q vrtd option" where
  "cleanup_buffers_for_conn_id ops conn_id s =
     (if conn_id = 0 then Some s
      else do {
        ds \<leftarrow> sweep_devices ops conn_id (vs_devices s);
        Some (s\<lparr>vs_devices := ds\<rparr>)
      })"

definition buffer_cleanup_is_deferred :: "'q vrtd \<Rightarrow> u64 \<Rightarrow> bool" where
  "buffer_cleanup_is_deferred s conn_id \<longleftrightarrow> conn_id \<noteq> 0 \<and> conn_id \<in> set (vs_deferred s)"

definition defer_buffer_cleanup :: "u64 \<Rightarrow> 'q vrtd \<Rightarrow> 'q vrtd" where
  "defer_buffer_cleanup conn_id s =
     (if conn_id = 0 \<or> buffer_cleanup_is_deferred s conn_id then s
      else s\<lparr>vs_deferred := vs_deferred s @ [conn_id]\<rparr>)"

definition cleanup_client_buffers :: "'q qdma_ops \<Rightarrow> u64 \<Rightarrow> 'q vrtd \<Rightarrow> 'q vrtd option" where
  "cleanup_client_buffers ops conn_id s =
     (if conn_id = 0 then Some s
      else if vs_async s then Some (defer_buffer_cleanup conn_id s)
      else cleanup_buffers_for_conn_id ops conn_id s)"

fun drain_each :: "'q qdma_ops \<Rightarrow> u64 list \<Rightarrow> 'q vrtd \<Rightarrow> 'q vrtd option" where
  "drain_each ops [] s = Some s"
| "drain_each ops (c # cs) s = do {
     s \<leftarrow> cleanup_buffers_for_conn_id ops c s;
     drain_each ops cs s
   }"

definition drain_deferred_buffer_cleanups :: "'q qdma_ops \<Rightarrow> 'q vrtd \<Rightarrow> 'q vrtd option" where
  "drain_deferred_buffer_cleanups ops s = do {
     s \<leftarrow> drain_each ops (vs_deferred s) s;
     Some (s\<lparr>vs_deferred := []\<rparr>)
   }"

text \<open>A hang-up: the client is cleaned up, then taken out of the table.\<close>

definition client_hangup :: "'q qdma_ops \<Rightarrow> nat \<Rightarrow> 'q vrtd \<Rightarrow> 'q vrtd option" where
  "client_hangup ops i s = do {
     s \<leftarrow> cleanup_client_buffers ops (cl_conn_id (se_client (vs_clients s ! i))) s;
     Some (s\<lparr>vs_clients := take i (vs_clients s) @ drop (i + 1) (vs_clients s)\<rparr>)
   }"

text \<open>
  Input and output on a connection. \<open>msg\<close> is the message that can be read, \<open>sent\<close> whether the socket
  takes a reply. A request waits while a background operation runs.
\<close>

definition on_client_io ::
  "'q qdma_ops \<Rightarrow> nat \<Rightarrow> (bool \<times> vrtd_request) option \<Rightarrow> bool \<Rightarrow> 'q vrtd \<Rightarrow> 'q vrtd option" where
  "on_client_io ops i msg sent s =
     (let se = vs_clients s ! i;
          s = (if se_request se = None then put_session i (se\<lparr>se_request := msg\<rparr>) s else s)
      in do {
        s \<leftarrow> (if se_request (vs_clients s ! i) \<noteq> None \<and> se_response (vs_clients s ! i) = None \<and> \<not> vs_async s
              then client_handle_request ops i s else Some s);
        Some (if sent then put_session i ((vs_clients s ! i)\<lparr>se_response := None\<rparr>) s else s)
      })"

section \<open>Background operations\<close>

fun drain_deferred_requests :: "'q qdma_ops \<Rightarrow> nat list \<Rightarrow> 'q vrtd \<Rightarrow> 'q vrtd option" where
  "drain_deferred_requests ops [] s = Some s"
| "drain_deferred_requests ops (i # is) s = do {
     s \<leftarrow> (if se_request (vs_clients s ! i) \<noteq> None \<and> se_response (vs_clients s ! i) = None
           then client_handle_request ops i s else Some s);
     drain_deferred_requests ops is s
   }"

definition process_async_device_op_completion :: "'q qdma_ops \<Rightarrow> bool \<Rightarrow> 'q vrtd \<Rightarrow> 'q vrtd option" where
  "process_async_device_op_completion ops finished s =
     (if \<not> vs_flash_worker s then Some (s\<lparr>vs_async := False\<rparr>)
      else if \<not> finished then Some s
      else drain_deferred_buffer_cleanups ops (s\<lparr>vs_async := False\<rparr>))"

definition on_event_deferred_work :: "'q qdma_ops \<Rightarrow> bool \<Rightarrow> 'q vrtd \<Rightarrow> 'q vrtd option" where
  "on_event_deferred_work ops finished s =
     (if \<not> vs_async s then Some s
      else do {
        s \<leftarrow> process_async_device_op_completion ops finished s;
        if vs_async s then Some s
        else drain_deferred_requests ops [0..<length (vs_clients s)] s
      })"

section \<open>Histories\<close>

datatype serve_event =
    Ev_accept u32 "u32 list"
  | Ev_hangup nat
  | Ev_io nat "(bool \<times> vrtd_request) option" bool
  | Ev_background
  | Ev_timer bool

fun exec_serve :: "'q qdma_ops \<Rightarrow> serve_event \<Rightarrow> 'q vrtd \<Rightarrow> 'q vrtd option" where
  "exec_serve ops (Ev_accept uid gids) s = Some (create_client uid gids s)"
| "exec_serve ops (Ev_hangup i) s = (if i < length (vs_clients s) then client_hangup ops i s else Some s)"
| "exec_serve ops (Ev_io i msg sent) s =
     (if i < length (vs_clients s) then on_client_io ops i msg sent s else Some s)"
| "exec_serve ops Ev_background s = Some (if vs_flash_worker s then s\<lparr>vs_async := True\<rparr> else s)"
| "exec_serve ops (Ev_timer finished) s = on_event_deferred_work ops finished s"

fun serve_events :: "'q qdma_ops \<Rightarrow> serve_event list \<Rightarrow> 'q vrtd \<Rightarrow> 'q vrtd option" where
  "serve_events ops [] s = Some s"
| "serve_events ops (ev # evs) s = do {
     s \<leftarrow> exec_serve ops ev s;
     serve_events ops evs s
   }"

section \<open>Buffers partition the owned memory\<close>

text \<open>
  The list of a device against its map: every buffer owns its subregions, no two share one, and
  every owned subregion belongs to a buffer of the list.
\<close>

definition parted :: "buffer list \<Rightarrow> device_memory_map option \<Rightarrow> bool" where
  "parted bs mo \<longleftrightarrow>
     (\<forall>b\<in>set bs. holds_cells b mo) \<and> sorted_wrt (\<lambda>b c. cells b \<inter> cells c = {}) bs \<and>
     (\<forall>u. mem_owner mo u \<noteq> 0 \<longrightarrow> (\<exists>b\<in>set bs. u \<in> cells b))"

lemma partedD:
  assumes "parted bs mo"
  shows "b \<in> set bs \<Longrightarrow> holds_cells b mo" "b \<in> set bs \<Longrightarrow> u \<in> cells b \<Longrightarrow> mem_owner mo u = bf_client_id b \<and> bf_client_id b \<noteq> 0"
    "mem_owner mo u \<noteq> 0 \<Longrightarrow> \<exists>b\<in>set bs. u \<in> cells b"
proof -
  show "b \<in> set bs \<Longrightarrow> holds_cells b mo" "mem_owner mo u \<noteq> 0 \<Longrightarrow> \<exists>b\<in>set bs. u \<in> cells b"
    using assms unfolding parted_def by blast+
  then show "b \<in> set bs \<Longrightarrow> u \<in> cells b \<Longrightarrow> mem_owner mo u = bf_client_id b \<and> bf_client_id b \<noteq> 0"
    unfolding holds_cells_def buffer_ok_def by blast
qed

lemma parted_add:
  assumes "parted bs mo" "takes_cells b mo mo'"
  shows "parted (bs @ [b]) mo'"
proof -
  have own: "mem_owner mo' u = (if u \<in> cells b then bf_client_id b else mem_owner mo u)" for u
    using assms(2) unfolding takes_cells_def by blast
  have free: "u \<in> cells b \<Longrightarrow> mem_owner mo u = 0" for u using assms(2) unfolding takes_cells_def by blast
  have apart: "cells c \<inter> cells b = {}" if "c \<in> set bs" for c
    using partedD(2) [OF assms(1) that] free by fastforce
  have old: "holds_cells c mo'" if "c \<in> set bs" for c
  proof -
    have "mem_owner mo' u = mem_owner mo u" if "u \<in> cells c" for u
      using apart [OF \<open>c \<in> set bs\<close>] that by (auto simp: own)
    then show ?thesis using partedD(1) [OF assms(1) that] by (simp add: holds_cells_def)
  qed
  have ex: "\<exists>c\<in>set (bs @ [b]). u \<in> cells c" if "mem_owner mo' u \<noteq> 0" for u
    using that partedD(3) [OF assms(1), of u] by (cases "u \<in> cells b") (auto simp: own)
  show ?thesis
    unfolding parted_def using old takes_holds [OF assms(2)] apart ex assms(1)
    by (auto simp: sorted_wrt_append parted_def)
qed

lemma parted_remove:
  assumes "parted (xs @ b # ys) mo" "gives_back b mo mo'"
  shows "parted (xs @ ys) mo'"
proof -
  have own: "mem_owner mo' u = (if u \<in> cells b then 0 else mem_owner mo u)" for u
    using assms(2) unfolding gives_back_def by blast
  have apart: "cells c \<inter> cells b = {}" if "c \<in> set (xs @ ys)" for c
    using assms(1) that by (auto simp: parted_def sorted_wrt_append)
  have old: "holds_cells c mo'" if "c \<in> set (xs @ ys)" for c
  proof -
    have "mem_owner mo' u = mem_owner mo u" if "u \<in> cells c" for u
      using apart [OF \<open>c \<in> set (xs @ ys)\<close>] that by (auto simp: own)
    then show ?thesis using partedD(1) [OF assms(1), of c] that by (simp add: holds_cells_def)
  qed
  have ex: "\<exists>c\<in>set (xs @ ys). u \<in> cells c" if "mem_owner mo' u \<noteq> 0" for u
    using that partedD(3) [OF assms(1), of u] by (cases "u \<in> cells b") (auto simp: own)
  show ?thesis
    unfolding parted_def using old ex assms(1) by (auto simp: sorted_wrt_append parted_def)
qed

text \<open>What a client owns in memory is what its buffers cover.\<close>

lemma parted_owner:
  assumes "parted bs mo" "c \<noteq> 0"
  shows "{u. mem_owner mo u = c} = (\<Union>b\<in>set (filter (\<lambda>b. bf_client_id b = c) bs). cells b)"
  using partedD(2,3) [OF assms(1)] assms(2) by fastforce

section \<open>What a request may change\<close>

definition device_ok :: "('q \<Rightarrow> bool) \<Rightarrow> 'q device \<Rightarrow> bool" where
  "device_ok I d \<longleftrightarrow> parted (dv_buffers d) (dv_map d) \<and> (dv_buffers d \<noteq> [] \<longrightarrow> dv_qdma d \<noteq> None) \<and>
     (\<forall>q. dv_qdma d = Some q \<longrightarrow> I q)"

text \<open>A change on behalf of connection \<open>c\<close> leaves the buffers of all others in place.\<close>

definition device_step :: "('q \<Rightarrow> bool) \<Rightarrow> u64 \<Rightarrow> 'q device \<Rightarrow> 'q device \<Rightarrow> bool" where
  "device_step I c d d' \<longleftrightarrow> device_ok I d' \<and>
     filter (\<lambda>b. bf_client_id b \<noteq> c) (dv_buffers d') = filter (\<lambda>b. bf_client_id b \<noteq> c) (dv_buffers d)"

definition conn_of :: "session \<Rightarrow> u64" where
  "conn_of se = cl_conn_id (se_client se)"

definition conn_ids :: "'q vrtd \<Rightarrow> u64 set" where
  "conn_ids s = conn_of ` set (vs_clients s)"

definition same_server :: "'q vrtd \<Rightarrow> 'q vrtd \<Rightarrow> bool" where
  "same_server s s' \<longleftrightarrow> map conn_of (vs_clients s') = map conn_of (vs_clients s) \<and> vs_async s' = vs_async s \<and>
     vs_flash_worker s' = vs_flash_worker s \<and> vs_deferred s' = vs_deferred s"

definition serve_step :: "('q \<Rightarrow> bool) \<Rightarrow> u64 \<Rightarrow> 'q vrtd \<Rightarrow> 'q vrtd \<Rightarrow> bool" where
  "serve_step I c s s' \<longleftrightarrow> list_all2 (device_step I c) (vs_devices s) (vs_devices s') \<and> same_server s s'"

definition devices_ok :: "('q \<Rightarrow> bool) \<Rightarrow> 'q vrtd \<Rightarrow> bool" where
  "devices_ok I s \<longleftrightarrow> (\<forall>d\<in>set (vs_devices s). device_ok I d)"

lemma device_step_refl: "device_ok I d \<Longrightarrow> device_step I c d d"
  by (simp add: device_step_def)

lemma device_step_trans: "device_step I c d d1 \<Longrightarrow> device_step I c d1 d2 \<Longrightarrow> device_step I c d d2"
  by (simp add: device_step_def)

lemma serve_step_trans:
  assumes "serve_step I c s s1" "serve_step I c s1 s2"
  shows "serve_step I c s s2"
proof -
  have "list_all2 (device_step I c) (vs_devices s) (vs_devices s2)"
    using assms unfolding serve_step_def list_all2_conv_all_nth by (metis device_step_trans)
  then show ?thesis using assms by (simp add: serve_step_def same_server_def)
qed

lemma devices_step_refl:
  assumes "\<forall>d\<in>set ds. device_ok I d"
  shows "list_all2 (device_step I c) ds ds"
  using assms by (auto simp: list_all2_same intro: device_step_refl)

lemma serve_step_clients:
  assumes "devices_ok I s" "vs_devices s' = vs_devices s" "same_server s s'"
  shows "serve_step I c s s'"
  using assms devices_step_refl by (auto simp: serve_step_def devices_ok_def)

lemma serve_step_put:
  assumes "devices_ok I s" "n < length (vs_devices s)" "device_step I c (vs_devices s ! n) d"
  shows "serve_step I c s (put_device n d s)"
  using assms
  by (auto simp: serve_step_def put_device_def same_server_def devices_ok_def list_all2_conv_all_nth nth_list_update
      intro: device_step_refl)

lemma serve_step_ok: "serve_step I c s s' \<Longrightarrow> devices_ok I s'"
  by (auto simp: serve_step_def devices_ok_def device_step_def list_all2_conv_all_nth in_set_conv_nth)

lemma serve_step_buffers:
  assumes "serve_step I c s s'" "d \<in> set (vs_devices s')" "b \<in> set (dv_buffers d)" "bf_client_id b \<noteq> c"
  shows "\<exists>d0\<in>set (vs_devices s). b \<in> set (dv_buffers d0)"
proof -
  obtain n where n: "n < length (vs_devices s)" "d = vs_devices s' ! n" "device_step I c (vs_devices s ! n) d"
    using assms(1,2) by (auto simp: serve_step_def list_all2_conv_all_nth in_set_conv_nth)
  have "b \<in> set (filter (\<lambda>b. bf_client_id b \<noteq> c) (dv_buffers d))" using assms(3,4) by simp
  also have "filter (\<lambda>b. bf_client_id b \<noteq> c) (dv_buffers d) = filter (\<lambda>b. bf_client_id b \<noteq> c) (dv_buffers (vs_devices s ! n))"
    using n(3) by (simp add: device_step_def)
  finally have "b \<in> set (filter (\<lambda>b. bf_client_id b \<noteq> c) (dv_buffers (vs_devices s ! n)))" .
  then show ?thesis using n(1) by auto
qed

lemma authorize_step:
  assumes "authorize (auth_device sub op) i dev s = (a, s1)" "i < length (vs_clients s)"
  shows "vs_devices s1 = vs_devices s" "same_server s s1" "conn_of (vs_clients s1 ! i) = conn_of (vs_clients s ! i)"
proof -
  obtain c log where a: "auth_device sub op (vs_config s) (map dv_bdf (vs_devices s)) (se_client (vs_clients s ! i)) dev = (a, c, log)"
    "s1 = s\<lparr>vs_clients := (vs_clients s)[i := (vs_clients s ! i)\<lparr>se_client := c\<rparr>]\<rparr>"
    using assms(1) by (auto simp: authorize_def Let_def split: prod.splits)
  have "cl_conn_id c = cl_conn_id (se_client (vs_clients s ! i))"
    using a(1) by (auto simp: auth_device_def ensure_role_def Let_def split: prod.splits option.splits)
  then have c: "conn_of ((vs_clients s ! i)\<lparr>se_client := c\<rparr>) = conn_of (vs_clients s ! i)" by (simp add: conn_of_def)
  then have "map conn_of ((vs_clients s)[i := (vs_clients s ! i)\<lparr>se_client := c\<rparr>]) = map conn_of (vs_clients s)"
    using assms(2) by (metis list_update_id map_update)
  then show "vs_devices s1 = vs_devices s" "same_server s s1" "conn_of (vs_clients s1 ! i) = conn_of (vs_clients s ! i)"
    using assms(2) c by (simp_all add: a(2) same_server_def)
qed

section \<open>Every handler, over any provider\<close>

lemma device_step_qdma:
  assumes "device_ok I d" "I q"
  shows "device_step I c d (d\<lparr>dv_qdma := Some q\<rparr>)"
  using assms by (simp add: device_step_def device_ok_def)

lemma device_step_same_map:
  assumes "device_ok I d" "I q" "mo = dv_map d"
  shows "device_step I c d (d\<lparr>dv_map := mo, dv_qdma := Some q\<rparr>)"
  using assms by (simp add: device_step_def device_ok_def)

lemma device_step_add:
  assumes "device_ok I d" "I q" "takes_cells b (dv_map d) mo" "bf_client_id b = c"
  shows "device_step I c d (d\<lparr>dv_map := mo, dv_qdma := Some q, dv_buffers := dv_buffers d @ [b]\<rparr>)"
  using assms parted_add [of "dv_buffers d" "dv_map d" b mo] by (simp add: device_step_def device_ok_def)

lemma find_buffer_some:
  assumes "find_buffer c addr sz i f m bs = (Some k, fm)"
  shows "i \<le> k \<and> k - i < length bs \<and> bf_addr (bs ! (k - i)) = addr \<and> bf_size (bs ! (k - i)) = sz \<and> bf_client_id (bs ! (k - i)) = c"
  using assms
proof (induction bs arbitrary: i f m)
  case (Cons b bs)
  show ?case
  proof (cases "bf_addr b = addr \<and> bf_size b = sz \<and> bf_client_id b = c")
    case True
    then show ?thesis using Cons.prems by simp
  next
    case False
    then obtain f' m' where "find_buffer c addr sz (i + 1) f' m' bs = (Some k, fm)"
      using Cons.prems by (auto split: if_splits)
    from Cons.IH [OF this] show ?thesis by (auto simp: nth_Cons')
  qed
qed simp

context qpair_calls
begin

lemma with_qdma_law:
  assumes "devices_ok inv s" "i < length (vs_clients s)"
    and "\<And>q. inv q \<Longrightarrow> ok (f q) (\<lambda>(r, q'). inv q')"
  shows "ok (with_qdma (auth_device sub op) i short dev f s) (\<lambda>(r, s'). serve_step inv c s s')"
proof -
  obtain a s1 where a: "authorize (auth_device sub op) i dev s = (a, s1)" by (cases "authorize (auth_device sub op) i dev s")
  note A = authorize_step [OF a assms(2)]
  have s1: "serve_step inv c s s1" using serve_step_clients [OF assms(1) A(1,2)] .
  have ok1: "devices_ok inv s1" using serve_step_ok [OF s1] .
  have run: "ok (do { (r, q) \<leftarrow> f q; Some (r, put_device n ((vs_devices s1 ! n)\<lparr>dv_qdma := Some q\<rparr>) s1) })
      (\<lambda>(r, s'). serve_step inv c s s')"
    if n: "n < length (vs_devices s1)" and q: "dv_qdma (vs_devices s1 ! n) = Some q" for n q
  proof -
    have d: "device_ok inv (vs_devices s1 ! n)" using ok1 n by (simp add: devices_ok_def)
    then have "inv q" using q by (simp add: device_ok_def)
    from ok_exists [OF assms(3) [OF this]] obtain r q' where f: "f q = Some (r, q')" "inv q'" by auto
    show ?thesis
      using f serve_step_trans [OF s1 serve_step_put [OF ok1 n device_step_qdma [OF d f(2)]]] by simp
  qed
  show ?thesis
    using s1 run by (auto simp: with_qdma_def a Let_def refuse_def split: option.splits)
qed

lemma qpair_requests_law:
  assumes "devices_ok inv s" "i < length (vs_clients s)"
  shows "ok (client_handle_request_qdma_qpair_add ops i short dev req s) (\<lambda>(r, s'). serve_step inv c s s')"
    and "ok (client_handle_request_qdma_qpair_op ops i short dev qid opc s) (\<lambda>(r, s'). serve_step inv c s s')"
    and "ok (client_handle_request_qdma_qpair_get_fd ops i short dev qid flags s) (\<lambda>(r, s'). serve_step inv c s s')"
proof -
  show "ok (client_handle_request_qdma_qpair_add ops i short dev req s) (\<lambda>(r, s'). serve_step inv c s s')"
    unfolding client_handle_request_qdma_qpair_add_def auth_request_qdma_qpair_add_def
    by (rule with_qdma_law [OF assms]) (auto intro!: ok_pair [OF add_inv])
  show "ok (client_handle_request_qdma_qpair_op ops i short dev qid opc s) (\<lambda>(r, s'). serve_step inv c s s')"
    unfolding client_handle_request_qdma_qpair_op_def auth_request_qdma_qpair_op_def
    by (rule with_qdma_law [OF assms])
      (auto intro!: ok_pair [OF start_inv] ok_pair [OF stop_inv] ok_pair [OF del_inv])
  show "ok (client_handle_request_qdma_qpair_get_fd ops i short dev qid flags s) (\<lambda>(r, s'). serve_step inv c s s')"
    unfolding client_handle_request_qdma_qpair_get_fd_def auth_request_qdma_qpair_get_fd_def
    by (rule with_qdma_law [OF assms]) (auto intro!: ok_pair [OF get_one_fd_inv])
qed

text \<open>The common end of the open handlers.\<close>

lemma created_law:
  assumes "devices_ok inv s" "n < length (vs_devices s)"
    and "created_ok inv c (dv_map (vs_devices s ! n)) (r, mo, q)"
  shows "ok (case r of Inl e \<Rightarrow> refuse (ret e) (put_device n ((vs_devices s ! n)\<lparr>dv_map := mo, dv_qdma := Some q\<rparr>) s)
        | Inr b \<Rightarrow> keep_buffer ops body n b mo q s) (\<lambda>(r, s'). serve_step inv c s s')"
proof -
  let ?d = "vs_devices s ! n"
  have d: "device_ok inv ?d" using assms(1,2) by (simp add: devices_ok_def)
  show ?thesis
  proof (cases r)
    case (Inl e)
    then have "inv q" "mo = dv_map ?d" using assms(3) by (simp_all add: created_ok_def)
    then show ?thesis
      using Inl serve_step_put [OF assms(1,2) device_step_same_map [OF d]] by (simp add: refuse_def)
  next
    case (Inr b)
    then have b: "inv q" "takes_cells b (dv_map ?d) mo" "bf_client_id b = c" "bf_fd b \<noteq> None" "bf_qpair_count b \<in> {1, 2}"
      using assms(3) by (simp_all add: created_ok_def)
    then have "keep_buffer ops body n b mo q s = Some ((VRTD_RET_OK, body b),
        put_device n (?d\<lparr>dv_map := mo, dv_qdma := Some q, dv_buffers := dv_buffers ?d @ [b]\<rparr>) s)"
      by (auto simp: keep_buffer_def Let_def)
    then show ?thesis using Inr serve_step_put [OF assms(1,2) device_step_add [OF d b(1-3)]] by simp
  qed
qed

lemma created_run:
  assumes "devices_ok inv s" "n < length (vs_devices s)" "ok m (created_ok inv c (dv_map (vs_devices s ! n)))"
  shows "ok (do { (r, mo, q) \<leftarrow> m;
        case r of Inl e \<Rightarrow> refuse (ret e) (put_device n ((vs_devices s ! n)\<lparr>dv_map := mo, dv_qdma := Some q\<rparr>) s)
        | Inr b \<Rightarrow> keep_buffer ops body n b mo q s }) (\<lambda>(r, s'). serve_step inv c s s')"
proof -
  obtain r mo q where x: "m = Some (r, mo, q)" "created_ok inv c (dv_map (vs_devices s ! n)) (r, mo, q)"
    using ok_exists [OF assms(3)] by (metis prod_cases3)
  show ?thesis using created_law [OF assms(1,2) x(2)] x(1) by simp
qed

lemma device_inv:
  assumes "devices_ok inv s" "n < length (vs_devices s)" "dv_qdma (vs_devices s ! n) = Some q"
  shows "inv q"
proof -
  have "device_ok inv (vs_devices s ! n)" using assms(1,2) by (simp add: devices_ok_def)
  then show ?thesis using assms(3) by (simp add: device_ok_def)
qed

lemma open_law:
  assumes "devices_ok inv s" "i < length (vs_clients s)"
  shows "ok (client_handle_request_buffer_open ops i short req s) (\<lambda>(r, s'). serve_step inv (conn_of (vs_clients s ! i)) s s')"
proof -
  let ?c = "conn_of (vs_clients s ! i)" and ?n = "unat (bo_dev_number req)"
  obtain a s1 where a: "authorize (auth_device AUTH_SUBSYSTEM_BUFFER ''buffer_open'') i (bo_dev_number req) s = (a, s1)"
    by (cases "authorize (auth_device AUTH_SUBSYSTEM_BUFFER ''buffer_open'') i (bo_dev_number req) s")
  note A = authorize_step [OF a assms(2)]
  have s1: "serve_step inv ?c s s1" using serve_step_clients [OF assms(1) A(1,2)] .
  have c: "cl_conn_id (se_client (vs_clients s1 ! i)) = ?c" using A(3) by (simp add: conn_of_def)
  note run = created_run [OF serve_step_ok [OF s1] _ create_law [OF device_inv [OF serve_step_ok [OF s1], of ?n]], of ?n,
      where ret = "\<lambda>e. if e = EINVAL then VRTD_RET_INVALID_ARGUMENT else if e = ENOMEM then VRTD_RET_BUSY else VRTD_RET_INTERNAL_ERROR"]
  have "ok (client_handle_request_buffer_open ops i short req s) (\<lambda>(r, s'). serve_step inv ?c s1 s')"
    using run serve_step_clients [OF serve_step_ok [OF s1] refl, of ?c] 
    by (auto simp: client_handle_request_buffer_open_def auth_request_buffer_open_def a c Let_def refuse_def same_server_def
        split: option.splits)
  then show ?thesis by (rule ok_pair) (simp add: serve_step_trans [OF s1])
qed

lemma open_raw_law:
  assumes "devices_ok inv s" "i < length (vs_clients s)"
  shows "ok (client_handle_request_buffer_open_raw ops i short req s) (\<lambda>(r, s'). serve_step inv (conn_of (vs_clients s ! i)) s s')"
proof -
  let ?c = "conn_of (vs_clients s ! i)" and ?n = "unat (br_dev_number req)"
  obtain a s1 where a: "authorize (auth_device AUTH_SUBSYSTEM_RAW_MEM_ACCESS ''buffer_open_raw'') i (br_dev_number req) s = (a, s1)"
    by (cases "authorize (auth_device AUTH_SUBSYSTEM_RAW_MEM_ACCESS ''buffer_open_raw'') i (br_dev_number req) s")
  note A = authorize_step [OF a assms(2)]
  have s1: "serve_step inv ?c s s1" using serve_step_clients [OF assms(1) A(1,2)] .
  have c: "cl_conn_id (se_client (vs_clients s1 ! i)) = ?c" using A(3) by (simp add: conn_of_def)
  note run = created_run [OF serve_step_ok [OF s1] _ raw_law [OF device_inv [OF serve_step_ok [OF s1], of ?n]], of ?n,
      where ret = "\<lambda>e. if e = EINVAL then VRTD_RET_INVALID_ARGUMENT else VRTD_RET_INTERNAL_ERROR"]
  have "ok (client_handle_request_buffer_open_raw ops i short req s) (\<lambda>(r, s'). serve_step inv ?c s1 s')"
    using run serve_step_clients [OF serve_step_ok [OF s1] refl, of ?c] 
    by (auto simp: client_handle_request_buffer_open_raw_def auth_request_buffer_open_raw_def a c Let_def refuse_def same_server_def
        split: option.splits)
  then show ?thesis by (rule ok_pair) (simp add: serve_step_trans [OF s1])
qed

text \<open>Removing a buffer, and the close handler: it only ever removes a buffer of the caller.\<close>

lemma rm_buffer_law:
  assumes "device_ok inv d" "k < length (dv_buffers d)"
  shows "ok (rm_buffer ops k d) (device_step inv (bf_client_id (dv_buffers d ! k)) d)"
proof -
  let ?b = "dv_buffers d ! k" and ?xs = "take k (dv_buffers d)" and ?ys = "drop (k + 1) (dv_buffers d)"
  have bs: "dv_buffers d = ?xs @ ?b # ?ys" using id_take_nth_drop [OF assms(2)] by simp
  have p: "parted (?xs @ ?b # ?ys) (dv_map d)" using assms(1) bs by (simp add: device_ok_def)
  obtain q where q: "dv_qdma d = Some q" "inv q" using assms by (fastforce simp: device_ok_def)
  have "holds_cells ?b (dv_map d)" using partedD(1) [OF p] by simp
  from ok_exists [OF cleanup_gives_back [OF q(2) this, of 0]] obtain e mo q' where
    x: "cleanup_buffer ops ?b 0 (dv_map d) q = Some (e, mo, q')" "inv q'" "gives_back ?b (dv_map d) mo" by auto
  have "filter (\<lambda>b. bf_client_id b \<noteq> bf_client_id ?b) (dv_buffers d) = filter (\<lambda>b. bf_client_id b \<noteq> bf_client_id ?b) (?xs @ ?ys)"
    by (subst bs) simp
  then show ?thesis
    using x q(1) parted_remove [OF p x(3)] by (simp add: rm_buffer_def device_step_def device_ok_def)
qed

lemma close_law:
  assumes "devices_ok inv s" "i < length (vs_clients s)"
  shows "ok (client_handle_request_buffer_close ops i short req s) (\<lambda>(r, s'). serve_step inv (conn_of (vs_clients s ! i)) s s')"
proof -
  let ?c = "conn_of (vs_clients s ! i)" and ?n = "unat (bc_dev_number req)"
  obtain a s1 where a: "authorize (auth_device AUTH_SUBSYSTEM_BUFFER ''buffer_close'') i (bc_dev_number req) s = (a, s1)"
    by (cases "authorize (auth_device AUTH_SUBSYSTEM_BUFFER ''buffer_close'') i (bc_dev_number req) s")
  note A = authorize_step [OF a assms(2)]
  have s1: "serve_step inv ?c s s1" using serve_step_clients [OF assms(1) A(1,2)] .
  have ok1: "devices_ok inv s1" using serve_step_ok [OF s1] .
  have c: "cl_conn_id (se_client (vs_clients s1 ! i)) = ?c" using A(3) by (simp add: conn_of_def)
  have rm: "ok (rm_buffer ops k (vs_devices s1 ! ?n)) (\<lambda>d. serve_step inv ?c s (put_device ?n d s1))"
    if n: "?n < length (vs_devices s1)"
      and f: "find_buffer ?c (bc_phys_addr req) (bc_size req) 0 False False (dv_buffers (vs_devices s1 ! ?n)) = (Some k, fm)" for k fm
  proof -
    have d: "device_ok inv (vs_devices s1 ! ?n)" using ok1 n by (simp add: devices_ok_def)
    note F = find_buffer_some [OF f]
    have "ok (rm_buffer ops k (vs_devices s1 ! ?n)) (device_step inv ?c (vs_devices s1 ! ?n))"
      using rm_buffer_law [OF d, of k] F by simp
    then show ?thesis by (rule ok_mono) (rule serve_step_trans [OF s1 serve_step_put [OF ok1 n]])
  qed
  show ?thesis
    using s1 rm
    by (auto simp: client_handle_request_buffer_close_def auth_request_buffer_close_def a c Let_def refuse_def
        split: option.splits prod.splits)
qed

lemma dispatch_law:
  assumes "devices_ok inv s" "i < length (vs_clients s)"
  shows "ok (dispatch ops i short req s) (\<lambda>(r, s'). serve_step inv (conn_of (vs_clients s ! i)) s s')"
  using open_law [OF assms] open_raw_law [OF assms] close_law [OF assms] qpair_requests_law [OF assms]
  by (cases req) simp_all

end

section \<open>The invariant of the server\<close>

definition owned_by :: "u64 set \<Rightarrow> 'q vrtd \<Rightarrow> bool" where
  "owned_by A s \<longleftrightarrow> (\<forall>d\<in>set (vs_devices s). \<forall>b\<in>set (dv_buffers d). bf_client_id b \<in> A)"

text \<open>
  Devices are consistent, every buffer belongs to a connected client or to one whose clean-up is
  deferred, and clean-ups are deferred only while a background operation runs.
\<close>

definition served :: "('q \<Rightarrow> bool) \<Rightarrow> 'q vrtd \<Rightarrow> bool" where
  "served I s \<longleftrightarrow> devices_ok I s \<and> owned_by (conn_ids s \<union> set (vs_deferred s)) s \<and> 0 \<notin> conn_ids s \<and>
     (vs_deferred s \<noteq> [] \<longrightarrow> vs_async s) \<and> (vs_async s \<longrightarrow> vs_flash_worker s)"

lemma same_server_ids: "same_server s s' \<Longrightarrow> conn_ids s' = conn_ids s"
  by (metis conn_ids_def same_server_def set_map)

lemma served_step:
  assumes "served I s" "serve_step I c s s'" "c \<in> conn_ids s"
  shows "served I s'"
proof -
  have same: "same_server s s'" using assms(2) by (simp add: serve_step_def)
  have "bf_client_id b \<in> conn_ids s \<union> set (vs_deferred s)" if "d \<in> set (vs_devices s')" "b \<in> set (dv_buffers d)" for d b
    using serve_step_buffers [OF assms(2) that] assms(1,3) by (cases "bf_client_id b = c") (auto simp: served_def owned_by_def)
  then show ?thesis
    using assms(1) serve_step_ok [OF assms(2)] same same_server_ids [OF same]
    by (simp add: served_def owned_by_def same_server_def)
qed

lemma served_session:
  assumes "served I s" "i < length (vs_clients s)" "conn_of se = conn_of (vs_clients s ! i)"
  shows "served I (put_session i se s)"
proof -
  have "map conn_of ((vs_clients s)[i := se]) = map conn_of (vs_clients s)" using assms(2,3) by (metis list_update_id map_update)
  then have same: "same_server s (put_session i se s)" by (simp add: same_server_def put_session_def)
  have "conn_of (vs_clients s ! i) \<in> conn_ids s" using assms(2) by (simp add: conn_ids_def)
  then show ?thesis
    using served_step [OF assms(1) serve_step_clients [OF _ _ same]] assms(1) by (simp add: served_def put_session_def)
qed

lemma served_accept: "served I s \<Longrightarrow> served I (create_client uid gids s)"
  by (auto simp: served_def create_client_def Let_def devices_ok_def owned_by_def conn_ids_def conn_of_def)

context qpair_calls
begin

lemma client_handle_request_law:
  assumes "served inv s" "i < length (vs_clients s)"
  shows "ok (client_handle_request ops i s) (\<lambda>s'. served inv s' \<and> length (vs_clients s') = length (vs_clients s) \<and> vs_async s' = vs_async s)"
proof (cases "se_request (vs_clients s ! i)")
  case (Some m)
  obtain short req where m: "m = (short, req)" by (cases m)
  let ?c = "conn_of (vs_clients s ! i)"
  have "devices_ok inv s" using assms(1) by (simp add: served_def)
  from ok_exists [OF dispatch_law [OF this assms(2), of short req]] obtain r s1 where
    d: "dispatch ops i short req s = Some (r, s1)" "serve_step inv ?c s s1" by auto
  have s1: "served inv s1" using served_step [OF assms(1) d(2)] assms(2) by (simp add: conn_ids_def)
  have len: "length (vs_clients s1) = length (vs_clients s)" "vs_async s1 = vs_async s"
    using d(2) unfolding serve_step_def same_server_def by (metis length_map)+
  show ?thesis
    using Some m d(1) len served_session [OF s1, of i] assms(2)
    by (simp add: client_handle_request_def conn_of_def put_session_def)
qed (use assms in \<open>simp add: client_handle_request_def\<close>)

text \<open>Sweeping one connection's buffers off the devices.\<close>

lemma sweep_law:
  assumes "inv q" "parted (kept @ bs) mo"
  shows "ok (sweep ops c kept bs mo q) (\<lambda>(bs', mo', q'). inv q' \<and> parted bs' mo' \<and> bs' = kept @ filter (\<lambda>b. bf_client_id b \<noteq> c) bs)"
  using assms
proof (induction bs arbitrary: kept mo q)
  case (Cons b bs)
  show ?case
  proof (cases "bf_client_id b = c")
    case True
    have "holds_cells b mo" using partedD(1) [OF Cons.prems(2)] by simp
    from ok_exists [OF cleanup_gives_back [OF Cons.prems(1) this, of 0]] obtain e mo' q' where
      x: "cleanup_buffer ops b 0 mo q = Some (e, mo', q')" "inv q'" "gives_back b mo mo'" by auto
    show ?thesis using Cons.IH [OF x(2) parted_remove [OF Cons.prems(2) x(3)]] x(1) True by simp
  next
    case False
    then show ?thesis using Cons.IH [of q "kept @ [b]" mo] Cons.prems by simp
  qed
qed simp

lemma sweep_device_law:
  assumes "device_ok inv d"
  shows "ok (sweep_device ops c d) (\<lambda>d'. device_step inv c d d' \<and> (\<forall>b\<in>set (dv_buffers d'). bf_client_id b \<noteq> c))"
proof (cases "\<forall>b\<in>set (dv_buffers d). bf_client_id b \<noteq> c")
  case True
  then show ?thesis using device_step_refl [OF assms] by (simp add: sweep_device_def)
next
  case False
  then obtain q where q: "dv_qdma d = Some q" "inv q" using assms by (fastforce simp: device_ok_def)
  have "parted ([] @ dv_buffers d) (dv_map d)" using assms by (simp add: device_ok_def)
  from ok_exists [OF sweep_law [OF q(2) this, of c]] obtain mo' q' where
    x: "sweep ops c [] (dv_buffers d) (dv_map d) q = Some (filter (\<lambda>b. bf_client_id b \<noteq> c) (dv_buffers d), mo', q')" "inv q'"
      "parted (filter (\<lambda>b. bf_client_id b \<noteq> c) (dv_buffers d)) mo'" by auto
  show ?thesis using False q x by (auto simp: sweep_device_def device_step_def device_ok_def)
qed

lemma sweep_devices_law:
  assumes "\<forall>d\<in>set ds. device_ok inv d"
  shows "ok (sweep_devices ops c ds) (\<lambda>ds'. list_all2 (device_step inv c) ds ds' \<and>
      (\<forall>d\<in>set ds'. \<forall>b\<in>set (dv_buffers d). bf_client_id b \<noteq> c))"
  using assms
proof (induction ds)
  case (Cons d ds)
  have "device_ok inv d" using Cons.prems by simp
  from ok_exists [OF sweep_device_law [OF this, of c]] obtain d' where
    d: "sweep_device ops c d = Some d'" "device_step inv c d d'" "\<forall>b\<in>set (dv_buffers d'). bf_client_id b \<noteq> c" by blast
  from ok_exists [OF Cons.IH] Cons.prems obtain ds' where
    ds: "sweep_devices ops c ds = Some ds'" "list_all2 (device_step inv c) ds ds'"
      "\<forall>d\<in>set ds'. \<forall>b\<in>set (dv_buffers d). bf_client_id b \<noteq> c" by auto
  show ?case using d ds by simp
qed simp

lemma cleanup_conn_law:
  assumes "devices_ok inv s" "owned_by A s"
  shows "ok (cleanup_buffers_for_conn_id ops c s) (\<lambda>s'. serve_step inv c s s' \<and> owned_by (A - {c}) s')"
proof (cases "c = 0")
  case True
  have "bf_client_id b \<noteq> 0" if "d \<in> set (vs_devices s)" "b \<in> set (dv_buffers d)" for d b
    using partedD(1) [of "dv_buffers d" "dv_map d" b] assms(1) that
    by (auto simp: devices_ok_def device_ok_def holds_cells_def buffer_ok_def)
  then have "owned_by (A - {0}) s" using assms(2) by (simp add: owned_by_def)
  then show ?thesis
    using True serve_step_clients [OF assms(1), of s c] by (simp add: cleanup_buffers_for_conn_id_def same_server_def)
next
  case False
  from ok_exists [OF sweep_devices_law [of "vs_devices s" c]] assms(1) obtain ds where
    ds: "sweep_devices ops c (vs_devices s) = Some ds" "list_all2 (device_step inv c) (vs_devices s) ds"
      "\<forall>d\<in>set ds. \<forall>b\<in>set (dv_buffers d). bf_client_id b \<noteq> c" by (auto simp: devices_ok_def)
  let ?s = "s\<lparr>vs_devices := ds\<rparr>"
  have st: "serve_step inv c s ?s" using ds(2) by (simp add: serve_step_def same_server_def)
  have "owned_by (A - {c}) ?s"
    using serve_step_buffers [OF st] ds(3) assms(2) by (fastforce simp: owned_by_def)
  then show ?thesis using False ds(1) st by (simp add: cleanup_buffers_for_conn_id_def)
qed

lemma drain_each_law:
  assumes "devices_ok inv s" "owned_by A s"
  shows "ok (drain_each ops cs s) (\<lambda>s'. devices_ok inv s' \<and> same_server s s' \<and> owned_by (A - set cs) s')"
  using assms
proof (induction cs arbitrary: s A)
  case (Cons c cs)
  from ok_exists [OF cleanup_conn_law [OF Cons.prems, of c]] obtain s1 where
    s1: "cleanup_buffers_for_conn_id ops c s = Some s1" "serve_step inv c s s1" "owned_by (A - {c}) s1" by blast
  have same: "same_server s s1" using s1(2) by (simp add: serve_step_def)
  from ok_exists [OF Cons.IH [OF serve_step_ok [OF s1(2)] s1(3)]] obtain s2 where
    s2: "drain_each ops cs s1 = Some s2" "devices_ok inv s2" "same_server s1 s2" "owned_by (A - {c} - set cs) s2" by blast
  have "A - {c} - set cs = A - set (c # cs)" by auto
  then show ?case using s1(1) s2 same by (simp add: same_server_def)
qed (simp add: same_server_def)

lemma drain_law:
  assumes "served inv s"
  shows "ok (drain_deferred_buffer_cleanups ops (s\<lparr>vs_async := False\<rparr>)) (\<lambda>s'. served inv s' \<and> \<not> vs_async s' \<and> length (vs_clients s') = length (vs_clients s))"
proof -
  let ?s = "s\<lparr>vs_async := False\<rparr>"
  have "devices_ok inv ?s" "owned_by (conn_ids s \<union> set (vs_deferred s)) ?s"
    using assms by (simp_all add: served_def devices_ok_def owned_by_def)
  from ok_exists [OF drain_each_law [OF this, of "vs_deferred s"]] obtain s1 where
    s1: "drain_each ops (vs_deferred s) ?s = Some s1" "devices_ok inv s1" "same_server ?s s1"
      "owned_by (conn_ids s \<union> set (vs_deferred s) - set (vs_deferred s)) s1" by blast
  have ids: "conn_ids s1 = conn_ids s" using same_server_ids [OF s1(3)] by (simp add: conn_ids_def)
  then have own: "owned_by (conn_ids s1) s1" using s1(4) by (auto simp: owned_by_def)
  have "length (vs_clients s1) = length (vs_clients s)" using arg_cong [of _ _ length, OF conjunct1 [OF s1(3) [unfolded same_server_def]]] by simp
  then show ?thesis
    using s1 ids own assms
    by (simp add: drain_deferred_buffer_cleanups_def served_def same_server_def owned_by_def devices_ok_def conn_ids_def)
qed

lemma requests_law:
  assumes "served inv s" "\<forall>i\<in>set is. i < length (vs_clients s)"
  shows "ok (drain_deferred_requests ops is s) (served inv)"
  using assms
proof (induction "is" arbitrary: s)
  case (Cons i "is")
  have i: "i < length (vs_clients s)" using Cons.prems(2) by simp
  from ok_exists [OF client_handle_request_law [OF Cons.prems(1) i]] obtain s1 where
    s1: "client_handle_request ops i s = Some s1" "served inv s1" "length (vs_clients s1) = length (vs_clients s)" by blast
  show ?case
    using Cons.IH [OF s1(2)] Cons.IH [OF Cons.prems(1)] Cons.prems(2) s1 by (simp only: drain_deferred_requests.simps) auto
qed simp

lemma timer_law:
  assumes "served inv s"
  shows "ok (on_event_deferred_work ops finished s) (served inv)"
proof (cases "vs_async s \<and> finished")
  case True
  then have f: "vs_flash_worker s" using assms by (simp add: served_def)
  from ok_exists [OF drain_law [OF assms]] obtain s1 where
    s1: "drain_deferred_buffer_cleanups ops (s\<lparr>vs_async := False\<rparr>) = Some s1" "served inv s1" "\<not> vs_async s1" by blast
  show ?thesis
    using True f s1 requests_law [OF s1(2), of "[0..<length (vs_clients s1)]"]
    by (simp add: on_event_deferred_work_def process_async_device_op_completion_def)
next
  case False
  then show ?thesis
    using assms by (auto simp: on_event_deferred_work_def process_async_device_op_completion_def served_def)
qed

lemma io_law:
  assumes "served inv s" "i < length (vs_clients s)"
  shows "ok (on_client_io ops i msg sent s) (served inv)"
proof -
  let ?se = "vs_clients s ! i"
  define s1 where "s1 = (if se_request ?se = None then put_session i (?se\<lparr>se_request := msg\<rparr>) s else s)"
  have s1: "served inv s1" "i < length (vs_clients s1)"
    using assms served_session [OF assms, of "?se\<lparr>se_request := msg\<rparr>"] by (simp_all add: s1_def conn_of_def put_session_def)
  have out: "served inv (if sent then put_session i ((vs_clients s2 ! i)\<lparr>se_response := None\<rparr>) s2 else s2)"
    if "served inv s2" "i < length (vs_clients s2)" for s2
    using that served_session [OF that, of "(vs_clients s2 ! i)\<lparr>se_response := None\<rparr>"] by (simp add: conn_of_def)
  from ok_exists [OF client_handle_request_law [OF s1]] obtain s2 where
    s2: "client_handle_request ops i s1 = Some s2" "served inv s2" "length (vs_clients s2) = length (vs_clients s1)" by blast
  show ?thesis
    using out [OF s1] out [of s2] s2 s1(2) unfolding on_client_io_def Let_def s1_def [symmetric] by simp
qed

lemma hangup_law:
  assumes "served inv s" "i < length (vs_clients s)"
  shows "ok (client_hangup ops i s) (\<lambda>s'. served inv s' \<and>
      (\<not> vs_async s \<longrightarrow> owned_by (conn_ids s - {conn_of (vs_clients s ! i)}) s'))"
proof -
  let ?c = "conn_of (vs_clients s ! i)" and ?cs = "take i (vs_clients s) @ drop (i + 1) (vs_clients s)"
  have c: "cl_conn_id (se_client (vs_clients s ! i)) = ?c" "?c \<noteq> 0"
    using assms by (auto simp: conn_of_def served_def conn_ids_def)
  have "vs_clients s = take i (vs_clients s) @ vs_clients s ! i # drop (i + 1) (vs_clients s)"
    using id_take_nth_drop [OF assms(2)] by simp
  then have "set (map conn_of (vs_clients s)) = insert ?c (set (map conn_of ?cs))"
    by (metis Un_insert_right list.simps(15) list.simps(9) map_append set_append)
  then have ids: "conn_ids s = insert ?c (conn_of ` set ?cs)" by (simp add: conn_ids_def image_Un)
  show ?thesis
  proof (cases "vs_async s")
    case True
    have "set (vs_deferred (defer_buffer_cleanup ?c s)) = insert ?c (set (vs_deferred s))"
      using c(2) by (auto simp: defer_buffer_cleanup_def buffer_cleanup_is_deferred_def)
    moreover have "vs_devices (defer_buffer_cleanup ?c s) = vs_devices s" "vs_async (defer_buffer_cleanup ?c s)"
      "vs_flash_worker (defer_buffer_cleanup ?c s) = vs_flash_worker s" "vs_clients (defer_buffer_cleanup ?c s) = vs_clients s"
      using True by (simp_all add: defer_buffer_cleanup_def)
    ultimately show ?thesis
      using assms(1) True ids c
      by (simp add: client_hangup_def cleanup_client_buffers_def served_def devices_ok_def owned_by_def conn_ids_def) blast
  next
    case False
    then have own: "owned_by (conn_ids s) s" "devices_ok inv s" "vs_deferred s = []" using assms(1) by (auto simp: served_def)
    from ok_exists [OF cleanup_conn_law [OF own(2,1), of ?c]] obtain s1 where
      s1: "cleanup_buffers_for_conn_id ops ?c s = Some s1" "serve_step inv ?c s s1" "owned_by (conn_ids s - {?c}) s1" by blast
    have same: "map conn_of (vs_clients s1) = map conn_of (vs_clients s)" "vs_async s1 = False" "vs_deferred s1 = []"
      using s1(2) False own(3) by (simp_all add: serve_step_def same_server_def)
    have "map conn_of (take i (vs_clients s1) @ drop (i + 1) (vs_clients s1)) = map conn_of ?cs"
      by (metis drop_map map_append same(1) take_map)
    then have ids1: "conn_of ` set (take i (vs_clients s1) @ drop (i + 1) (vs_clients s1)) = conn_of ` set ?cs"
      by (metis set_map)
    have "owned_by (conn_of ` set ?cs) s1" using s1(3) ids by (auto simp: owned_by_def)
    moreover have "0 \<notin> conn_of ` set ?cs" using assms(1) ids by (simp add: served_def)
    ultimately show ?thesis
      using s1(1,3) c False same serve_step_ok [OF s1(2)] ids1
      by (simp add: client_hangup_def cleanup_client_buffers_def served_def devices_ok_def owned_by_def conn_ids_def)
  qed
qed

lemma serve_law:
  assumes "served inv s"
  shows "ok (exec_serve ops ev s) (served inv)"
proof (cases ev)
  case (Ev_hangup i)
  show ?thesis using Ev_hangup assms ok_mono [OF hangup_law [OF assms, of i]] by simp
next
  case (Ev_io i msg sent)
  then show ?thesis using assms io_law [OF assms] by simp
next
  case Ev_background
  then show ?thesis using assms by (auto simp: served_def devices_ok_def owned_by_def conn_ids_def)
qed (use assms served_accept timer_law in simp_all)

lemma serve_events_law: "served inv s \<Longrightarrow> ok (serve_events ops evs s) (served inv)"
proof (induction evs arbitrary: s)
  case (Cons ev evs)
  then show ?case using ok_exists [OF serve_law [OF Cons.prems, of ev]] by auto
qed simp

end

section \<open>The daemon on the driver\<close>

text \<open>A server that has started: devices without buffers, memory maps without owners, nobody connected.\<close>

definition fresh_server :: "('q \<Rightarrow> bool) \<Rightarrow> 'q vrtd \<Rightarrow> bool" where
  "fresh_server I s \<longleftrightarrow>
     (\<forall>d\<in>set (vs_devices s). dv_buffers d = [] \<and> dv_map d \<in> {None, Some device_memory_map_create} \<and>
        (\<forall>q. dv_qdma d = Some q \<longrightarrow> I q)) \<and>
     vs_clients s = [] \<and> \<not> vs_async s \<and> vs_deferred s = []"

lemma fresh_map: "mem_owner (Some device_memory_map_create) u = 0"
  by (cases "(device_memory_map_create, u)" rule: subregion_owner.cases) (simp_all add: mem_owner_def device_memory_map_create_def)

lemma fresh_served: "fresh_server I s \<Longrightarrow> served I s"
  using fresh_map
  by (fastforce simp: fresh_server_def served_def devices_ok_def device_ok_def parted_def owned_by_def conn_ids_def mem_owner_def)

text \<open>Every owner of memory is the client of some buffer.\<close>

lemma owned_memory:
  assumes "served I s" "d \<in> set (vs_devices s)"
  shows "mem_owner (dv_map d) u = 0 \<or> mem_owner (dv_map d) u \<in> conn_ids s \<union> set (vs_deferred s)"
proof (cases "mem_owner (dv_map d) u = 0")
  case False
  have p: "parted (dv_buffers d) (dv_map d)" using assms by (simp add: served_def devices_ok_def device_ok_def)
  obtain b where "b \<in> set (dv_buffers d)" "u \<in> cells b" using partedD(3) [OF p False] by blast
  then show ?thesis using partedD(2) [OF p] assms by (auto simp: served_def owned_by_def)
qed simp


text \<open>A server with one device: as it starts, and with two clients of which the first holds a buffer.\<close>

definition demo_start :: "unit qdma_dev vrtd" where
  "demo_start =
     \<lparr>vs_config = empty_config,
      vs_devices = [\<lparr>dv_bdf = ''0000:21:00'', dv_qdma = Some opened_dev, dv_map = Some device_memory_map_create, dv_buffers = []\<rparr>],
      vs_clients = [], vs_next_conn_id = 0, vs_flash_worker = True, vs_async = False, vs_deferred = []\<rparr>"

definition demo_session :: "u64 \<Rightarrow> session" where
  "demo_session c = \<lparr>se_client = \<lparr>cl_uid = 1000, cl_gids = [], cl_conn_id = c, cl_role = None\<rparr>, se_request = None, se_response = None\<rparr>"

definition demo_held :: buffer where
  "demo_held = (empty_buffer ALLOCATION_TYPE_DDR 0 0 1)
     \<lparr>bf_addr := DDR_START_ADDRESS, bf_size := SUBREGION_SIZE, bf_allocation_valid := True\<rparr>"

definition demo_map :: device_memory_map where
  "demo_map = \<lparr>ddr_regions = (\<lambda>r i. if r = 0 \<and> i = 0 then 1 else 0), hbm_regions = (\<lambda>_ _. 0)\<rparr>"

definition demo_busy :: "unit qdma_dev vrtd" where
  "demo_busy = demo_start
     \<lparr>vs_devices := [\<lparr>dv_bdf = ''0000:21:00'', dv_qdma = Some opened_dev, dv_map = Some demo_map, dv_buffers = [demo_held]\<rparr>],
      vs_clients := [demo_session 1, demo_session 2]\<rparr>"

lemma demo_start_fresh: "fresh_server driver_inv demo_start"
  using opened_up by (simp add: fresh_server_def demo_start_def driver_up_def)

lemma demo_cells: "cells demo_held = {(DDR, 0, 0)}" "buffer_ok demo_held" "bf_client_id demo_held = 1"
proof -
  have "run_address (base_of ALLOCATION_TYPE_DDR) 0 0 = DDR_START_ADDRESS" by (simp add: run_address_def base_of_def)
  moreover have "unat (subregion_count SUBREGION_SIZE) = 1" by (simp add: subregion_count_def)
  ultimately have "named_run ALLOCATION_TYPE_DDR DDR_START_ADDRESS SUBREGION_SIZE = Some (0, 0, 1)"
    using named_run_address [of 0 0 SUBREGION_SIZE ALLOCATION_TYPE_DDR] by simp
  then show "cells demo_held = {(DDR, 0, 0)}" "buffer_ok demo_held" "bf_client_id demo_held = 1"
    by (auto simp: demo_held_def empty_buffer_def cells_def buffer_ok_def class_of_def)
qed

lemma demo_served: "served driver_inv demo_busy"
proof -
  have own: "mem_owner (Some demo_map) u = (if u = (DDR, 0, 0) then 1 else 0)" for u
    by (cases "(demo_map, u)" rule: subregion_owner.cases) (simp_all add: mem_owner_def demo_map_def)
  have "parted [demo_held] (Some demo_map)" by (simp add: parted_def holds_cells_def own demo_cells)
  then show ?thesis
    using opened_up demo_cells(3)
    by (simp add: served_def devices_ok_def device_ok_def owned_by_def conn_ids_def conn_of_def demo_busy_def demo_start_def
        demo_session_def driver_up_def)
qed


lemma filter_refine:
  assumes "filter P xs = filter P ys" and "\<And>x. Q x \<Longrightarrow> P x"
  shows "filter Q xs = filter Q ys"
proof -
  have "filter Q zs = filter Q (filter P zs)" for zs using assms(2) by (auto simp: filter_filter intro: filter_cong)
  then show ?thesis using assms(1) by metis
qed



text \<open>
  C13: When a client goes away and no background operation runs, the daemon releases everything it
  held: no device keeps a buffer of that connection and no subregion of any memory map names it.
\<close>

theorem disconnect_releases_everything:
  assumes "served driver_inv s" and "i < length (vs_clients s)" and "\<not> vs_async s"
  shows "\<exists>s'. client_hangup (driver_ops L E) i s = Some s' \<and> served driver_inv s' \<and>
    (\<forall>d\<in>set (vs_devices s'). (\<forall>b\<in>set (dv_buffers d). bf_client_id b \<noteq> conn_of (vs_clients s ! i)) \<and>
       (\<forall>u. mem_owner (dv_map d) u \<noteq> conn_of (vs_clients s ! i)))"
proof -
  let ?c = "conn_of (vs_clients s ! i)"
  from ok_exists [OF driver.hangup_law [OF assms(1,2)]] assms(3) obtain s' where
    s': "client_hangup (driver_ops L E) i s = Some s'" "served driver_inv s'" "owned_by (conn_ids s - {?c}) s'" by blast
  have c: "?c \<noteq> 0" using assms(1,2) by (auto simp: served_def conn_ids_def)
  have none: "bf_client_id b \<noteq> ?c" if "d \<in> set (vs_devices s')" "b \<in> set (dv_buffers d)" for d b
    using s'(3) that by (auto simp: owned_by_def)
  moreover have "mem_owner (dv_map d) u \<noteq> ?c" if d: "d \<in> set (vs_devices s')" for d u
  proof
    assume u: "mem_owner (dv_map d) u = ?c"
    have p: "parted (dv_buffers d) (dv_map d)" using s'(2) d by (simp add: served_def devices_ok_def device_ok_def)
    obtain b where "b \<in> set (dv_buffers d)" "u \<in> cells b" using partedD(3) [OF p, of u] u c by auto
    then show False using partedD(2) [OF p] none [OF d] u by fastforce
  qed
  ultimately show ?thesis using s' by blast
qed

theorem disconnect_releases_everything_witness:
  "mem_owner (dv_map (vs_devices demo_busy ! 0)) (DDR, 0, 0) = 1 \<and>
   (\<exists>s'. client_hangup (driver_ops quiet_lib (\<lambda>_. (None, None))) 0 demo_busy = Some s' \<and>
      (\<forall>d\<in>set (vs_devices s'). dv_buffers d = [] \<or> bf_client_id (hd (dv_buffers d)) \<noteq> 1))"
proof -
  have i: "0 < length (vs_clients demo_busy)" "\<not> vs_async demo_busy" "conn_of (vs_clients demo_busy ! 0) = 1"
    "mem_owner (dv_map (vs_devices demo_busy ! 0)) (DDR, 0, 0) = 1"
    by (simp_all add: demo_busy_def demo_start_def demo_session_def conn_of_def mem_owner_def demo_map_def)
  obtain s' where s': "client_hangup (driver_ops quiet_lib (\<lambda>_. (None, None))) 0 demo_busy = Some s'"
    "\<forall>d\<in>set (vs_devices s'). \<forall>b\<in>set (dv_buffers d). bf_client_id b \<noteq> 1"
    using disconnect_releases_everything [OF demo_served i(1,2), of quiet_lib "\<lambda>_. (None, None)"] i(3) by auto
  then have "dv_buffers d = [] \<or> bf_client_id (hd (dv_buffers d)) \<noteq> 1" if "d \<in> set (vs_devices s')" for d
    using that hd_in_set by blast
  then show ?thesis using s'(1) i(4) by blast
qed

end
