(* ===== verification/Spec2Isabelle.thy ===== *)
theory Spec2Isabelle
  imports Rp1_Correctness Buddy_Allocator Vrtd_Serve
begin

text \<open>
  Verification of SLASH: the RP1 graph firmware.
\<close>

end
